(* ===== verification/Go_Base.thy ===== *)
theory Go_Base
  imports Main "HOL-Library.Char_ord" "HOL-Library.List_Lexorder"
begin

text \<open>
  The prelude of the development.  It holds what the Go program takes from its
  language and standard library and what several components share:
  \<^item> byte strings (a Go \<^verbatim>\<open>string\<close> or \<^verbatim>\<open>[]byte\<close> is a \<^typ>\<open>string\<close>, one
    \<^typ>\<open>char\<close> per byte) and the functions of package \<^verbatim>\<open>strings\<close> the program calls;
  \<^item> fallible, state-changing computations (\<open>comp\<close>): a Go function returning
    \<^verbatim>\<open>(value, error)\<close> and changing some state is a function from the state to a sum
    (\<open>Inl\<close> the error, \<open>Inr\<close> the value) and the new state;
  \<^item> the small program logic (\<open>hoare\<close>, \<open>keeps\<close>) in which the component proofs are
    written.
\<close>

named_theorems str_simps \<open>computation rules of the string functions\<close>
named_theorems comp_defs \<open>definitions of the computation combinators\<close>
named_theorems hoare_rules \<open>rules of the program logic\<close>

section \<open>Byte strings\<close>

abbreviation NL :: char where "NL \<equiv> CHR 0x0A"
abbreviation TAB :: char where "TAB \<equiv> CHR 0x09"
abbreviation SQ :: char where "SQ \<equiv> CHR 0x27"

definition has_prefix :: "string \<Rightarrow> string \<Rightarrow> bool" where
  "has_prefix s p \<longleftrightarrow> take (length p) s = p"

definition has_suffix :: "string \<Rightarrow> string \<Rightarrow> bool" where
  "has_suffix s p \<longleftrightarrow> has_prefix (rev s) (rev p)"

definition trim_suffix :: "string \<Rightarrow> string \<Rightarrow> string" where
  "trim_suffix s p = (if has_suffix s p then take (length s - length p) s else s)"

fun split_on :: "char \<Rightarrow> string \<Rightarrow> string list" where
  "split_on d [] = [[]]"
| "split_on d (c # cs) =
     (if c = d then [] # split_on d cs
      else (case split_on d cs of [] \<Rightarrow> [[c]] | w # ws \<Rightarrow> (c # w) # ws))"

fun join :: "string \<Rightarrow> string list \<Rightarrow> string" where
  "join sep [] = []"
| "join sep [w] = w"
| "join sep (w # v # ws) = w @ sep @ join sep (v # ws)"

fun contains :: "string \<Rightarrow> string \<Rightarrow> bool" where
  "contains [] p = (p = [])"
| "contains (c # cs) p = (has_prefix (c # cs) p \<or> contains cs p)"

fun index_of :: "char \<Rightarrow> string \<Rightarrow> nat option" where
  "index_of d [] = None"
| "index_of d (c # cs) = (if c = d then Some 0 else map_option Suc (index_of d cs))"

fun last_index :: "char \<Rightarrow> string \<Rightarrow> nat option" where
  "last_index d [] = None"
| "last_index d (c # cs) =
     (case last_index d cs of Some i \<Rightarrow> Some (Suc i) | None \<Rightarrow> if c = d then Some 0 else None)"

subsection \<open>White space as package \<^verbatim>\<open>unicode\<close> has it\<close>

text \<open>
  The UTF-8 encodings of the code points of \<^verbatim>\<open>unicode.IsSpace\<close>.  UTF-8 is
  self-synchronising, so trimming byte sequences from either end removes exactly
  the white-space runes.
\<close>

definition ascii_space :: "char \<Rightarrow> bool" where
  "ascii_space c \<longleftrightarrow> c \<in> {CHR 0x09, CHR 0x0A, CHR 0x0B, CHR 0x0C, CHR 0x0D, CHR 0x20}"

definition wide_spaces :: "string list" where
  "wide_spaces =
     [[CHR 0xC2, CHR 0x85], [CHR 0xC2, CHR 0xA0], [CHR 0xE1, CHR 0x9A, CHR 0x80],
      [CHR 0xE2, CHR 0x80, CHR 0x80], [CHR 0xE2, CHR 0x80, CHR 0x81],
      [CHR 0xE2, CHR 0x80, CHR 0x82], [CHR 0xE2, CHR 0x80, CHR 0x83],
      [CHR 0xE2, CHR 0x80, CHR 0x84], [CHR 0xE2, CHR 0x80, CHR 0x85],
      [CHR 0xE2, CHR 0x80, CHR 0x86], [CHR 0xE2, CHR 0x80, CHR 0x87],
      [CHR 0xE2, CHR 0x80, CHR 0x88], [CHR 0xE2, CHR 0x80, CHR 0x89],
      [CHR 0xE2, CHR 0x80, CHR 0x8A], [CHR 0xE2, CHR 0x80, CHR 0xA8],
      [CHR 0xE2, CHR 0x80, CHR 0xA9], [CHR 0xE2, CHR 0x80, CHR 0xAF],
      [CHR 0xE2, CHR 0x81, CHR 0x9F], [CHR 0xE3, CHR 0x80, CHR 0x80]]"

text \<open>The length of the white-space sequence a string starts with, 0 when there is none.\<close>

definition wide_len :: "string list \<Rightarrow> string \<Rightarrow> nat" where
  "wide_len seqs s = (case find (has_prefix s) seqs of None \<Rightarrow> 0 | Some p \<Rightarrow> length p)"

fun space_len :: "string list \<Rightarrow> string \<Rightarrow> nat" where
  "space_len seqs [] = 0"
| "space_len seqs (c # cs) = (if ascii_space c then 1 else wide_len seqs (c # cs))"

function drop_spaces :: "string list \<Rightarrow> string \<Rightarrow> string" where
  "drop_spaces seqs s =
     (if space_len seqs s = 0 then s else drop_spaces seqs (drop (space_len seqs s) s))"
  by pat_completeness auto
termination
proof (relation "measure (\<lambda>(seqs, s). length s)")
  fix seqs s assume "space_len seqs s \<noteq> 0"
  then show "((seqs, drop (space_len seqs s) s), seqs, s) \<in> measure (\<lambda>(seqs, s). length s)"
    by (cases s) auto
qed simp

declare drop_spaces.simps [simp del]

definition trim_left :: "string \<Rightarrow> string" where
  "trim_left s = drop_spaces wide_spaces s"

definition trim_right :: "string \<Rightarrow> string" where
  "trim_right s = rev (drop_spaces (map rev wide_spaces) (rev s))"

definition trim_space :: "string \<Rightarrow> string" where
  "trim_space s = trim_right (trim_left s)"

text \<open>\<^verbatim>\<open>strings.Fields\<close>: the maximal runs without white space.\<close>

fun take_word :: "string \<Rightarrow> string \<times> string" where
  "take_word [] = ([], [])"
| "take_word (c # cs) =
     (if space_len wide_spaces (c # cs) \<noteq> 0 then ([], c # cs)
      else (case take_word cs of (w, r) \<Rightarrow> (c # w, r)))"

lemma length_take_word: "length (fst (take_word s)) + length (snd (take_word s)) = length s"
  by (induction s) (auto split: prod.splits)

lemma length_drop_spaces: "length (drop_spaces seqs s) \<le> length s"
proof (induction seqs s rule: drop_spaces.induct)
  case (1 seqs s)
  then show ?case
    by (subst drop_spaces.simps) (auto intro: le_trans)
qed

lemma space_len_drop_spaces [simp]: "space_len seqs (drop_spaces seqs s) = 0"
proof (induction seqs s rule: drop_spaces.induct)
  case (1 seqs s)
  then show ?case
    by (cases "space_len seqs s = 0") (simp_all add: drop_spaces.simps [of seqs s])
qed

function fields :: "string \<Rightarrow> string list" where
  "fields s =
     (let t = trim_left s in
      if t = [] then [] else fst (take_word t) # fields (snd (take_word t)))"
  by pat_completeness auto
termination
proof (relation "measure length", simp)
  fix s :: string and t
  assume t: "t = trim_left s" and ne: "t \<noteq> []"
  from t have "space_len wide_spaces t = 0"
    by (simp add: trim_left_def)
  with ne have "fst (take_word t) \<noteq> []"
    by (cases t) (auto split: prod.splits)
  then have "length (snd (take_word t)) < length t"
    using length_take_word [of t] by (cases "fst (take_word t)") auto
  also have "length t \<le> length s"
    unfolding t trim_left_def by (rule length_drop_spaces)
  finally show "(snd (take_word t), s) \<in> measure length"
    by simp
qed

declare fields.simps [simp del]

text \<open>
  \<^verbatim>\<open>strings.NewReplacer("%u", user, "%h", home).Replace(template)\<close>: one pass from the
  left, no rescan of what was put in.
\<close>

fun expand_template :: "string \<Rightarrow> string \<Rightarrow> string \<Rightarrow> string" where
  "expand_template user home [] = []"
| "expand_template user home [c] = [c]"
| "expand_template user home (c # d # cs) =
     (if c = CHR ''%'' \<and> d = CHR ''u'' then user @ expand_template user home cs
      else if c = CHR ''%'' \<and> d = CHR ''h'' then home @ expand_template user home cs
      else c # expand_template user home (d # cs))"

subsection \<open>Lemmas on strings\<close>

lemma has_prefix_append [simp]: "has_prefix (p @ s) p"
  by (simp add: has_prefix_def)

lemma has_prefix_iff: "has_prefix s p \<longleftrightarrow> (\<exists>t. s = p @ t)"
  by (metis append_take_drop_id append_eq_conv_conj has_prefix_def)

lemma has_prefix_Nil [simp]: "has_prefix s []"
  by (simp add: has_prefix_def)

lemma has_prefix_Cons [simp]:
  "has_prefix [] (p # ps) \<longleftrightarrow> False"
  "has_prefix (c # cs) (p # ps) \<longleftrightarrow> c = p \<and> has_prefix cs ps"
  by (auto simp: has_prefix_def)

lemma has_suffix_append [simp]: "has_suffix (s @ p) p"
  by (simp add: has_suffix_def)

lemma has_suffix_iff: "has_suffix s p \<longleftrightarrow> (\<exists>t. s = t @ p)"
  by (metis has_prefix_iff has_suffix_def rev_append rev_rev_ident)

lemma has_suffix_single: "has_suffix s [c] \<longleftrightarrow> s \<noteq> [] \<and> last s = c"
  by (cases s rule: rev_cases) (auto simp: has_suffix_def)

lemma trim_suffix_append [simp]: "trim_suffix (s @ p) p = s"
  by (simp add: trim_suffix_def)

lemma trim_suffix_other: "\<not> has_suffix s p \<Longrightarrow> trim_suffix s p = s"
  by (simp add: trim_suffix_def)

lemma split_on_not_Nil [simp]: "split_on d s \<noteq> []"
  by (cases s) (auto split: list.splits)

lemma join_Cons: "join sep (w # ws) = (if ws = [] then w else w @ sep @ join sep ws)"
  by (cases ws) auto

lemma join_split_on: "join [d] (split_on d s) = s"
proof (induction s)
  case (Cons c cs)
  obtain w ws where "split_on d cs = w # ws"
    by (cases "split_on d cs") auto
  with Cons show ?case by (auto simp: join_Cons split: if_splits)
qed simp

lemma split_on_no_sep: "w \<in> set (split_on d s) \<Longrightarrow> d \<notin> set w"
  by (induction s arbitrary: w) (auto split: if_splits list.splits)

lemma split_on_id: "d \<notin> set s \<Longrightarrow> split_on d s = [s]"
  by (induction s) auto

lemma split_on_append: "d \<notin> set w \<Longrightarrow> split_on d (w @ d # s) = w # split_on d s"
  by (induction w) auto

lemma split_on_join:
  "ws \<noteq> [] \<Longrightarrow> \<forall>w \<in> set ws. d \<notin> set w \<Longrightarrow> split_on d (join [d] ws) = ws"
proof (induction ws)
  case (Cons w ws)
  then show ?case
    by (cases "ws = []") (auto simp: join_Cons split_on_id split_on_append)
qed simp

lemma set_split_on: "w \<in> set (split_on d s) \<Longrightarrow> set w \<subseteq> set s"
  by (induction s arbitrary: w) (fastforce split: if_splits list.splits)+

lemma set_drop_spaces: "set (drop_spaces seqs s) \<subseteq> set s"
proof (induction seqs s rule: drop_spaces.induct)
  case (1 seqs s)
  then show ?case
    by (subst drop_spaces.simps) (auto dest: in_set_dropD)
qed

lemma set_trim_space: "set (trim_space s) \<subseteq> set s"
  unfolding trim_space_def trim_right_def trim_left_def set_rev
  using set_drop_spaces by (metis order_trans set_rev)

lemma drop_spaces_Nil [simp]: "drop_spaces seqs [] = []"
  by (simp add: drop_spaces.simps)

lemma trim_space_Nil [simp]: "trim_space [] = []"
  by (simp add: trim_space_def trim_left_def trim_right_def)

lemma contains_append: "contains (s @ p @ t) p"
proof (induction s)
  case Nil
  have "has_prefix (p @ t) p" by simp
  then show ?case by (cases "p @ t") (simp_all del: has_prefix_append)
qed simp

lemma last_index_None: "last_index d s = None \<longleftrightarrow> d \<notin> set s"
proof (induction s)
  case (Cons c cs)
  then show ?case by (cases "last_index d cs") auto
qed simp

lemma last_index_Some:
  "last_index d s = Some i \<Longrightarrow> i < length s \<and> s ! i = d \<and> d \<notin> set (drop (Suc i) s)"
  by (induction s arbitrary: i) (auto simp: last_index_None split: option.splits if_splits)

lemma last_index_append: "d \<notin> set t \<Longrightarrow> last_index d (s @ d # t) = Some (length s)"
proof (induction s)
  case Nil
  then have "last_index d t = None" by (simp add: last_index_None)
  then show ?case by simp
qed simp

lemma index_of_append: "d \<notin> set s \<Longrightarrow> index_of d (s @ d # t) = Some (length s)"
  by (induction s) auto

lemma index_of_None: "index_of d s = None \<longleftrightarrow> d \<notin> set s"
  by (induction s) auto

text \<open>Plain words: ASCII without white space.  No white-space sequence starts inside one.\<close>

definition ascii_char :: "char \<Rightarrow> bool" where
  "ascii_char c \<longleftrightarrow> of_char c < (128 :: nat)"

definition plain_word :: "string \<Rightarrow> bool" where
  "plain_word w \<longleftrightarrow> w \<noteq> [] \<and> (\<forall>c \<in> set w. ascii_char c \<and> \<not> ascii_space c)"

lemma wide_len_ascii: "ascii_char c \<Longrightarrow> wide_len wide_spaces (c # cs) = 0"
proof -
  assume "ascii_char c"
  then have "c \<noteq> CHR 0xC2" "c \<noteq> CHR 0xE1" "c \<noteq> CHR 0xE2" "c \<noteq> CHR 0xE3"
    by (auto simp: ascii_char_def)
  then show ?thesis
    by (simp add: wide_len_def wide_spaces_def)
qed

lemma space_len_plain: "ascii_char c \<Longrightarrow> \<not> ascii_space c \<Longrightarrow> space_len wide_spaces (c # cs) = 0"
  by (simp add: wide_len_ascii)

lemma trim_left_plain: "plain_word w \<Longrightarrow> trim_left (w @ s) = w @ s"
  by (cases w) (auto simp: trim_left_def plain_word_def drop_spaces.simps space_len_plain
      simp del: space_len.simps)

lemma trim_left_space: "ascii_space c \<Longrightarrow> trim_left (c # s) = trim_left s"
  by (simp add: trim_left_def drop_spaces.simps [of _ "c # s"])

lemma take_word_plain:
  "\<forall>c \<in> set w. ascii_char c \<and> \<not> ascii_space c \<Longrightarrow> ascii_space d \<Longrightarrow>
    take_word (w @ d # s) = (w, d # s)"
  by (induction w) (auto simp: space_len_plain simp del: space_len.simps, simp)

lemma fields_plain:
  assumes "plain_word w" and "ascii_space d"
  shows "fields (w @ d # s) = w # fields s"
proof -
  have "fields (d # s) = fields s"
    using assms(2) by (simp add: fields.simps [of "d # s"] fields.simps [of s] trim_left_space)
  then show ?thesis
    using assms
    by (subst fields.simps) (auto simp: Let_def trim_left_plain take_word_plain plain_word_def)
qed

lemma fields_Nil [simp]: "fields [] = []"
  by (simp add: fields.simps trim_left_def)

section \<open>Fallible computations with state\<close>

text \<open>
  A Go function \<^verbatim>\<open>func (t *T) f() (A, error)\<close> is a function of the state that
  returns the error or the value, and the state it leaves, also when it fails.
  \<open>andThen m k\<close> is \<^verbatim>\<open>x, err := m(); if err != nil { return err }; k(x)\<close>.
\<close>

type_synonym ('s, 'e, 'a) comp = "'s \<Rightarrow> ('e + 'a) \<times> 's"

definition ret :: "'a \<Rightarrow> ('s, 'e, 'a) comp" where
  [comp_defs]: "ret x = (\<lambda>s. (Inr x, s))"

definition throw :: "'e \<Rightarrow> ('s, 'e, 'a) comp" where
  [comp_defs]: "throw e = (\<lambda>s. (Inl e, s))"

definition andThen :: "('s, 'e, 'a) comp \<Rightarrow> ('a \<Rightarrow> ('s, 'e, 'b) comp) \<Rightarrow> ('s, 'e, 'b) comp" where
  [comp_defs]: "andThen m k =
     (\<lambda>s. case m s of (Inl e, s') \<Rightarrow> (Inl e, s') | (Inr x, s') \<Rightarrow> k x s')"

definition gets :: "('s \<Rightarrow> 'a) \<Rightarrow> ('s, 'e, 'a) comp" where
  [comp_defs]: "gets f = (\<lambda>s. (Inr (f s), s))"

definition modify :: "('s \<Rightarrow> 's) \<Rightarrow> ('s, 'e, unit) comp" where
  [comp_defs]: "modify f = (\<lambda>s. (Inr (), f s))"

text \<open>\<^verbatim>\<open>r, err := m()\<close> with the error looked at rather than returned.\<close>

definition attempt :: "('s, 'e, 'a) comp \<Rightarrow> ('s, 'f, 'e + 'a) comp" where
  [comp_defs]: "attempt m = (\<lambda>s. case m s of (r, s') \<Rightarrow> (Inr r, s'))"

text \<open>\<^verbatim>\<open>fmt.Errorf("...: %w", err)\<close> around a failing call.\<close>

definition wrap_err :: "('e \<Rightarrow> 'f) \<Rightarrow> ('s, 'e, 'a) comp \<Rightarrow> ('s, 'f, 'a) comp" where
  [comp_defs]: "wrap_err h m =
     (\<lambda>s. case m s of (Inl e, s') \<Rightarrow> (Inl (h e), s') | (Inr x, s') \<Rightarrow> (Inr x, s'))"

primrec for_each :: "('x \<Rightarrow> ('s, 'e, unit) comp) \<Rightarrow> 'x list \<Rightarrow> ('s, 'e, unit) comp" where
  "for_each body [] = ret ()"
| "for_each body (x # xs) = andThen (body x) (\<lambda>_. for_each body xs)"

text \<open>
  The program logic: \<open>hoare P m Q E\<close> says that from a state satisfying \<open>P\<close> the
  computation ends in \<open>Q x\<close> when it returns \<open>x\<close> and in \<open>E e\<close> when it returns the
  error \<open>e\<close>.  Every computation is a total function, so this is total correctness.
\<close>

definition hoare ::
  "('s \<Rightarrow> bool) \<Rightarrow> ('s, 'e, 'a) comp \<Rightarrow> ('a \<Rightarrow> 's \<Rightarrow> bool) \<Rightarrow> ('e \<Rightarrow> 's \<Rightarrow> bool) \<Rightarrow> bool" where
  "hoare P m Q E \<longleftrightarrow>
     (\<forall>s. P s \<longrightarrow> (case m s of (Inl e, s') \<Rightarrow> E e s' | (Inr x, s') \<Rightarrow> Q x s'))"

lemma hoareI:
  "(\<And>s e s'. P s \<Longrightarrow> m s = (Inl e, s') \<Longrightarrow> E e s') \<Longrightarrow>
   (\<And>s x s'. P s \<Longrightarrow> m s = (Inr x, s') \<Longrightarrow> Q x s') \<Longrightarrow> hoare P m Q E"
  by (auto simp: hoare_def split: prod.splits sum.splits)

lemma hoare_Inl: "hoare P m Q E \<Longrightarrow> P s \<Longrightarrow> m s = (Inl e, s') \<Longrightarrow> E e s'"
  by (force simp: hoare_def)

lemma hoare_Inr: "hoare P m Q E \<Longrightarrow> P s \<Longrightarrow> m s = (Inr x, s') \<Longrightarrow> Q x s'"
  by (force simp: hoare_def)

lemma hoare_weaken:
  assumes "hoare P m Q E" and "\<And>s. P' s \<Longrightarrow> P s"
    and "\<And>x s. Q x s \<Longrightarrow> Q' x s" and "\<And>e s. E e s \<Longrightarrow> E' e s"
  shows "hoare P' m Q' E'"
  using assms by (fastforce simp: hoare_def split: prod.splits sum.splits)

lemma hoare_conj:
  assumes "hoare P m Q E" and "hoare P' m Q' E'"
  shows "hoare (\<lambda>s. P s \<and> P' s) m (\<lambda>x s. Q x s \<and> Q' x s) (\<lambda>e s. E e s \<and> E' e s)"
  using assms by (fastforce simp: hoare_def split: prod.splits sum.splits)

lemma hoare_ret [hoare_rules]: "(\<And>s. P s \<Longrightarrow> Q x s) \<Longrightarrow> hoare P (ret x) Q E"
  by (simp add: hoare_def ret_def)

lemma hoare_throw [hoare_rules]: "(\<And>s. P s \<Longrightarrow> E e s) \<Longrightarrow> hoare P (throw e) Q E"
  by (simp add: hoare_def throw_def)

lemma hoare_gets [hoare_rules]: "(\<And>s. P s \<Longrightarrow> Q (f s) s) \<Longrightarrow> hoare P (gets f) Q E"
  by (simp add: hoare_def gets_def)

lemma hoare_modify [hoare_rules]: "(\<And>s. P s \<Longrightarrow> Q () (f s)) \<Longrightarrow> hoare P (modify f) Q E"
  by (simp add: hoare_def modify_def)

lemma hoare_andThen [hoare_rules]:
  assumes "hoare P m R E" and "\<And>x. hoare (R x) (k x) Q E"
  shows "hoare P (andThen m k) Q E"
  using assms by (fastforce simp: hoare_def andThen_def split: prod.splits sum.splits)

lemma hoare_attempt [hoare_rules]:
  assumes "hoare P m (\<lambda>x. Q (Inr x)) (\<lambda>e. Q (Inl e))"
  shows "hoare P (attempt m) Q E"
  unfolding hoare_def
proof (intro allI impI)
  fix s assume "P s"
  obtain r s' where "m s = (r, s')" by (cases "m s")
  then show "case attempt m s of (Inl e, s') \<Rightarrow> E e s' | (Inr x, s') \<Rightarrow> Q x s'"
    using hoare_Inl [OF assms \<open>P s\<close>] hoare_Inr [OF assms \<open>P s\<close>]
    by (cases r) (auto simp: attempt_def)
qed

lemma hoare_wrap_err [hoare_rules]:
  assumes "hoare P m Q (\<lambda>e. E (h e))"
  shows "hoare P (wrap_err h m) Q E"
  using assms by (fastforce simp: hoare_def wrap_err_def split: prod.splits sum.splits)

lemma hoare_if [hoare_rules]:
  "(b \<Longrightarrow> hoare P m Q E) \<Longrightarrow> (\<not> b \<Longrightarrow> hoare P m' Q E) \<Longrightarrow> hoare P (if b then m else m') Q E"
  by simp

lemma hoare_option [hoare_rules]:
  "(z = None \<Longrightarrow> hoare P m Q E) \<Longrightarrow> (\<And>y. z = Some y \<Longrightarrow> hoare P (k y) Q E) \<Longrightarrow>
    hoare P (case z of None \<Rightarrow> m | Some y \<Rightarrow> k y) Q E"
  by (cases z) simp_all

lemma hoare_sum [hoare_rules]:
  "(\<And>e. z = Inl e \<Longrightarrow> hoare P (m e) Q E) \<Longrightarrow> (\<And>y. z = Inr y \<Longrightarrow> hoare P (k y) Q E) \<Longrightarrow>
    hoare P (case z of Inl e \<Rightarrow> m e | Inr y \<Rightarrow> k y) Q E"
  by (cases z) simp_all

text \<open>The loop rule: an invariant that also records which elements have been handled.\<close>

lemma hoare_for_each:
  assumes "\<And>ys x zs. xs = ys @ x # zs \<Longrightarrow> hoare (I ys) (body x) (\<lambda>_. I (ys @ [x])) E"
  shows "hoare (I []) (for_each body xs) (\<lambda>_. I xs) E"
proof -
  have "hoare (I ys) (for_each body zs) (\<lambda>_. I xs) E" if "xs = ys @ zs" for ys zs
    using that
  proof (induction zs arbitrary: ys)
    case Nil
    then show ?case by (auto intro: hoare_rules)
  next
    case (Cons x zs)
    then show ?case
      by (auto intro!: hoare_andThen [where R = "\<lambda>_. I (ys @ [x])"] assms Cons.IH)
  qed
  from this [of "[]" xs] show ?thesis by simp
qed

text \<open>\<open>keeps P m\<close>: the computation preserves \<open>P\<close>, whether it fails or not.\<close>

abbreviation keeps :: "('s \<Rightarrow> bool) \<Rightarrow> ('s, 'e, 'a) comp \<Rightarrow> bool" where
  "keeps P m \<equiv> hoare P m (\<lambda>_. P) (\<lambda>_. P)"

lemma keepsD: "keeps P m \<Longrightarrow> P s \<Longrightarrow> P (snd (m s))"
  by (cases "m s"; cases "fst (m s)") (force simp: hoare_def)+

lemma keepsI: "(\<And>s. P s \<Longrightarrow> P (snd (m s))) \<Longrightarrow> keeps P m"
  by (fastforce simp: hoare_def split: prod.splits sum.splits)

lemma keeps_andThen: "keeps P m \<Longrightarrow> (\<And>x. keeps P (k x)) \<Longrightarrow> keeps P (andThen m k)"
  by (rule hoare_andThen)

lemma keeps_for_each: "(\<And>x. x \<in> set xs \<Longrightarrow> keeps P (body x)) \<Longrightarrow> keeps P (for_each body xs)"
  by (rule hoare_for_each [where I = "\<lambda>_. P"]) simp

end
