(* ===== verification/Authkeys.thy ===== *)
theory Authkeys
  imports Go_Base
begin

text \<open>
  Package \<^verbatim>\<open>internal/authkeys\<close> (authkeys.go): parsing, rendering and editing of
  \<^verbatim>\<open>authorized_keys\<close> content.

  \<^verbatim>\<open>ssh.PublicKey\<close> is an interface of \<^verbatim>\<open>golang.org/x/crypto/ssh\<close>; the program looks at
  a key only through \<^verbatim>\<open>Type()\<close> and \<^verbatim>\<open>Marshal()\<close>, so a \<open>pubkey\<close> is that pair.  The
  library's functions are the fields of \<open>sshlib\<close>, a parameter of every definition
  that calls them; \<open>sshlib_ok\<close> states what the program relies on.
\<close>

datatype pubkey = PubKey (key_type: string) (key_blob: string)

record sshlib =
  parse_authkey :: "string \<Rightarrow> (pubkey \<times> string \<times> string list) option"
  marshal_authkey :: "pubkey \<Rightarrow> string"
  fingerprint_blob :: "string \<Rightarrow> string"

section \<open>Files and lines\<close>

record line =
  l_raw :: string
  l_key :: "pubkey option"
  l_comment :: string
  l_options :: "string list"

record keyfile =
  f_lines :: "line list"
  f_nofinal :: bool

definition parse_line :: "sshlib \<Rightarrow> string \<Rightarrow> line" where
  "parse_line L raw =
     (let blank = \<lparr>l_raw = raw, l_key = None, l_comment = [], l_options = []\<rparr>;
          trimmed = trim_space raw
      in if trimmed \<noteq> [] \<and> \<not> has_prefix trimmed ''#''
         then (case parse_authkey L raw of
                 None \<Rightarrow> blank
               | Some (key, comment, options) \<Rightarrow>
                   blank\<lparr>l_key := Some key, l_comment := comment, l_options := options\<rparr>)
         else blank)"

definition parse_file :: "sshlib \<Rightarrow> string \<Rightarrow> keyfile" where
  "parse_file L content =
     (if content = [] then \<lparr>f_lines = [], f_nofinal = False\<rparr>
      else \<lparr>f_lines = map (parse_line L) (split_on NL (trim_suffix content [NL])),
            f_nofinal = (\<not> has_suffix content [NL])\<rparr>)"

definition render_file :: "keyfile \<Rightarrow> string" where
  "render_file f =
     (if f_lines f = [] then []
      else let out = concat (map (\<lambda>l. l_raw l @ [NL]) (f_lines f))
           in if f_nofinal f then trim_suffix out [NL] else out)"

definition fingerprint :: "sshlib \<Rightarrow> pubkey \<Rightarrow> string" where
  "fingerprint L k = fingerprint_blob L (key_blob k)"

section \<open>Matchers and edits\<close>

record matcher =
  m_key :: "pubkey option"
  m_fp :: string

definition by_key :: "pubkey \<Rightarrow> matcher" where
  "by_key k = \<lparr>m_key = Some k, m_fp = []\<rparr>"

definition by_fp :: "string \<Rightarrow> matcher" where
  "by_fp fp = \<lparr>m_key = None, m_fp = fp\<rparr>"

definition matches_key :: "sshlib \<Rightarrow> matcher \<Rightarrow> pubkey \<Rightarrow> bool" where
  "matches_key L m k =
     (case m_key m of
        Some mk \<Rightarrow> key_blob k = key_blob mk
      | None \<Rightarrow> fingerprint L k = m_fp m)"

definition matches :: "sshlib \<Rightarrow> matcher \<Rightarrow> line \<Rightarrow> bool" where
  "matches L m l = (case l_key l of None \<Rightarrow> False | Some k \<Rightarrow> matches_key L m k)"

text \<open>\<^verbatim>\<open>Matcher.String\<close>, which the messages and the \<^verbatim>\<open>check\<close> command print.\<close>

definition matcher_string :: "sshlib \<Rightarrow> matcher \<Rightarrow> string" where
  "matcher_string L m =
     (case m_key m of
        Some k \<Rightarrow> key_type k @ '' '' @ fingerprint L k
      | None \<Rightarrow> m_fp m)"

definition find_keys :: "sshlib \<Rightarrow> matcher \<Rightarrow> keyfile \<Rightarrow> pubkey list" where
  "find_keys L m f = map (\<lambda>l. the (l_key l)) (filter (matches L m) (f_lines f))"

fun split_matched :: "sshlib \<Rightarrow> matcher \<Rightarrow> line list \<Rightarrow> line list \<times> line list" where
  "split_matched L m [] = ([], [])"
| "split_matched L m (l # ls) =
     (case split_matched L m ls of
        (kept, removed) \<Rightarrow> if matches L m l then (kept, l # removed) else (l # kept, removed))"

definition remove_keys :: "sshlib \<Rightarrow> matcher \<Rightarrow> keyfile \<Rightarrow> keyfile \<times> line list" where
  "remove_keys L m f =
     (case split_matched L m (f_lines f) of
        (kept, removed) \<Rightarrow>
          (\<lparr>f_lines = kept, f_nofinal = (kept \<noteq> [] \<and> f_nofinal f)\<rparr>, removed))"

text \<open>The line \<^verbatim>\<open>Add\<close> writes: options, then type and base64, then comment.\<close>

definition key_line :: "sshlib \<Rightarrow> pubkey \<Rightarrow> string \<Rightarrow> string list \<Rightarrow> string" where
  "key_line L key comment options =
     (let raw = trim_space (marshal_authkey L key);
          raw = (if options \<noteq> [] then join '','' options @ '' '' @ raw else raw)
      in if comment \<noteq> [] then raw @ '' '' @ comment else raw)"

definition add_key ::
  "sshlib \<Rightarrow> pubkey \<Rightarrow> string \<Rightarrow> string list \<Rightarrow> keyfile \<Rightarrow> keyfile \<times> bool" where
  "add_key L key comment options f =
     (if find_keys L (by_key key) f \<noteq> [] then (f, False)
      else (\<lparr>f_lines = f_lines f @
               [\<lparr>l_raw = key_line L key comment options, l_key = Some key,
                 l_comment = comment, l_options = options\<rparr>],
             f_nofinal = False\<rparr>, True))"

datatype spec_error = EmptySpec | NotAKey string

definition parse_key_spec ::
  "sshlib \<Rightarrow> string \<Rightarrow> spec_error + (matcher \<times> string \<times> string list)" where
  "parse_key_spec L arg =
     (let spec = trim_space arg in
      if spec = [] then Inl EmptySpec
      else if has_prefix spec ''SHA256:'' then Inr (by_fp spec, [], [])
      else (case parse_authkey L spec of
              None \<Rightarrow> Inl (NotAKey spec)
            | Some (key, comment, options) \<Rightarrow> Inr (by_key key, comment, options)))"

text \<open>\<^verbatim>\<open>liveKeys\<close> and \<^verbatim>\<open>countKeys\<close> of tx.go: the keys of a file, in file order.\<close>

definition live_keys :: "keyfile \<Rightarrow> pubkey list" where
  "live_keys f = List.map_filter l_key (f_lines f)"

definition count_keys :: "keyfile \<Rightarrow> nat" where
  "count_keys f = length (filter (\<lambda>l. l_key l \<noteq> None) (f_lines f))"

section \<open>What the program relies on of the SSH library\<close>

text \<open>
  \<^verbatim>\<open>MarshalAuthorizedKey\<close> gives one newline-terminated line; \<^verbatim>\<open>ParseAuthorizedKey\<close> skips
  blank lines and comments, and reads back a line in the documented layout (options,
  type and base64, comment) put together from what it returned.
\<close>

definition sshlib_ok :: "sshlib \<Rightarrow> bool" where
  "sshlib_ok L \<longleftrightarrow>
     (\<forall>k. \<exists>w. marshal_authkey L k = w @ [NL] \<and> NL \<notin> set w) \<and>
     (\<forall>s r. parse_authkey L s = Some r \<longrightarrow> NL \<notin> set s \<longrightarrow>
        trim_space s \<noteq> [] \<and> \<not> has_prefix (trim_space s) ''#'') \<and>
     (\<forall>s k c os. parse_authkey L s = Some (k, c, os) \<longrightarrow>
        NL \<notin> set (key_line L k c os) \<and>
        parse_authkey L (key_line L k c os) = Some (k, c, os))"

lemma sshlib_ok_blank:
  "sshlib_ok L \<Longrightarrow> parse_authkey L s = Some r \<Longrightarrow> NL \<notin> set s \<Longrightarrow>
    trim_space s \<noteq> [] \<and> \<not> has_prefix (trim_space s) ''#''"
  unfolding sshlib_ok_def by blast

lemma sshlib_ok_key_line:
  assumes "sshlib_ok L" and "parse_authkey L s = Some (k, c, os)"
  shows "NL \<notin> set (key_line L k c os)"
    and "parse_authkey L (key_line L k c os) = Some (k, c, os)"
  using assms by (auto simp: sshlib_ok_def)

section \<open>Round trips\<close>

lemma l_raw_parse_line [simp]: "l_raw (parse_line L raw) = raw"
  by (auto simp: parse_line_def Let_def split: option.splits prod.splits)

lemma concat_lines:
  "ls \<noteq> [] \<Longrightarrow> concat (map (\<lambda>l. l_raw l @ [NL]) ls) = join [NL] (map l_raw ls) @ [NL]"
  by (induction ls) (auto simp: join_Cons)

lemma join_map_parse_line: "join [NL] (map (l_raw \<circ> parse_line L) (split_on NL s)) = s"
proof -
  have "map (l_raw \<circ> parse_line L) (split_on NL s) = split_on NL s"
    by (rule map_idI) simp
  then show ?thesis by (simp add: join_split_on)
qed

lemma render_join:
  "f_lines f \<noteq> [] \<Longrightarrow>
    render_file f = join [NL] (map l_raw (f_lines f)) @ (if f_nofinal f then [] else [NL])"
  by (simp add: render_file_def concat_lines)

lemma render_parse_bytes: "render_file (parse_file L content) = content"
proof (cases "content = []")
  case False
  then have "render_file (parse_file L content) =
      trim_suffix content [NL] @ (if has_suffix content [NL] then [NL] else [])"
    by (simp add: render_join join_map_parse_line parse_file_def)
  also have "\<dots> = content"
    by (auto simp: has_suffix_iff trim_suffix_other)
  finally show ?thesis .
qed (simp add: parse_file_def render_file_def)

text \<open>C13: rendering a parsed file gives back its bytes, for every content.\<close>

theorem render_parse: "render_file (parse_file L content) = content"
  by (rule render_parse_bytes)

text \<open>
  \<open>good_lines\<close>: every line is one line, and its key is what the library reads from it.
  It is the invariant of the working copy a transaction edits.
\<close>

definition good_line :: "sshlib \<Rightarrow> line \<Rightarrow> bool" where
  "good_line L l \<longleftrightarrow> NL \<notin> set (l_raw l) \<and> parse_line L (l_raw l) = l"

definition good_lines :: "sshlib \<Rightarrow> keyfile \<Rightarrow> bool" where
  "good_lines L f \<longleftrightarrow> (\<forall>l \<in> set (f_lines f). good_line L l)"

lemma good_lines_parse [simp]: "good_lines L (parse_file L content)"
  by (auto simp: good_lines_def good_line_def parse_file_def dest: split_on_no_sep)

lemma split_matched_filter:
  "split_matched L m ls = (filter (\<lambda>l. \<not> matches L m l) ls, filter (matches L m) ls)"
  by (induction ls) auto

lemma remove_keys_simps [simp]:
  "f_lines (fst (remove_keys L m f)) = filter (\<lambda>l. \<not> matches L m l) (f_lines f)"
  "snd (remove_keys L m f) = filter (matches L m) (f_lines f)"
  by (simp_all add: remove_keys_def split_matched_filter)

lemma good_lines_remove: "good_lines L f \<Longrightarrow> good_lines L (fst (remove_keys L m f))"
  by (auto simp: good_lines_def)

lemma good_line_key_line:
  assumes "sshlib_ok L" and "parse_authkey L s = Some (k, c, os)"
  shows "good_line L \<lparr>l_raw = key_line L k c os, l_key = Some k, l_comment = c, l_options = os\<rparr>"
proof -
  note laws = sshlib_ok_key_line [OF assms]
  from sshlib_ok_blank [OF assms(1) laws(2,1)] laws show ?thesis
    by (simp add: good_line_def parse_line_def)
qed

lemma good_lines_add:
  "sshlib_ok L \<Longrightarrow> parse_authkey L s = Some (k, c, os) \<Longrightarrow> good_lines L f \<Longrightarrow>
    good_lines L (fst (add_key L k c os f))"
  by (auto simp: good_lines_def add_key_def good_line_key_line)

lemma map_parse_line_good: "good_lines L f \<Longrightarrow> map (parse_line L) (map l_raw (f_lines f)) = f_lines f"
  by (auto simp: good_lines_def good_line_def intro!: map_idI)

text \<open>
  Reparsing what was rendered gives the same lines, but for one blank line at the end
  of a file without final newline.
\<close>

lemma parse_render_lines:
  assumes good: "good_lines L f" and ne: "f_lines f \<noteq> []"
    and last: "f_nofinal f \<Longrightarrow> l_raw (last (f_lines f)) \<noteq> []"
  shows "parse_file L (render_file f) = f"
proof -
  let ?raws = "map l_raw (f_lines f)"
  let ?s = "join [NL] ?raws"
  have nl: "\<forall>w \<in> set ?raws. NL \<notin> set w"
    using good by (auto simp: good_lines_def good_line_def)
  have split: "split_on NL ?s = ?raws"
    using ne nl by (intro split_on_join) auto
  have no_nl: "\<not> has_suffix ?s [NL] \<and> ?s \<noteq> []" if "f_nofinal f"
  proof -
    obtain ls l where ls: "f_lines f = ls @ [l]"
      using ne by (cases "f_lines f" rule: rev_cases) auto
    have "\<exists>t. ?s = t @ l_raw l"
      unfolding ls by (induction ls) (auto simp: join_Cons)
    moreover have "l_raw l \<noteq> []" "NL \<notin> set (l_raw l)"
      using last [OF that] good ls by (auto simp: good_lines_def good_line_def)
    ultimately show ?thesis
      by (metis append_is_Nil_conv has_suffix_single last_appendR last_in_set)
  qed
  show ?thesis
  proof (cases "f_nofinal f")
    case True
    with no_nl ne show ?thesis
      by (simp add: render_join parse_file_def trim_suffix_other split
          map_parse_line_good [OF good, simplified])
  next
    case False
    with ne show ?thesis
      by (simp add: render_join parse_file_def split map_parse_line_good [OF good, simplified])
  qed
qed

lemma live_keys_parse_render:
  assumes good: "good_lines L f"
  shows "live_keys (parse_file L (render_file f)) = live_keys f"
proof (cases "f_lines f = [] \<or> (f_nofinal f \<and> l_raw (last (f_lines f)) = [])")
  case False
  with good show ?thesis by (simp add: parse_render_lines)
next
  case True
  show ?thesis
  proof (cases "f_lines f = []")
    case True
    then show ?thesis by (simp add: render_file_def parse_file_def live_keys_def)
  next
    case False
    with True obtain ls l where ls: "f_lines f = ls @ [l]" and l: "l_raw l = []" and nf: "f_nofinal f"
      by (cases "f_lines f" rule: rev_cases) auto
    let ?g = "\<lparr>f_lines = ls, f_nofinal = False\<rparr>"
    have blank: "l_key l = None"
      using good l by (auto simp: ls good_lines_def good_line_def parse_line_def)
    have "render_file f = render_file ?g"
    proof (cases "ls = []")
      case True
      with ls l nf show ?thesis
        by (simp add: render_file_def trim_suffix_def Let_def has_suffix_single)
    next
      case False
      with ls l nf show ?thesis
        by (simp add: render_file_def concat_lines trim_suffix_def has_suffix_single)
    qed
    moreover have "good_lines L ?g"
      using good by (simp add: ls good_lines_def)
    moreover have "parse_file L (render_file ?g) = ?g" if "ls \<noteq> []"
      using that \<open>good_lines L ?g\<close> by (intro parse_render_lines) auto
    ultimately show ?thesis
      using blank ls by (cases "ls = []")
        (auto simp: live_keys_def render_file_def parse_file_def map_filter_def)
  qed
qed

section \<open>Finding, removing, adding\<close>

lemma count_live_keys: "count_keys f = length (live_keys f)"
  by (simp add: count_keys_def live_keys_def map_filter_def comp_def)

lemma find_keys_live: "find_keys L m f = filter (matches_key L m) (live_keys f)"
proof -
  have "map (\<lambda>l. the (l_key l)) (filter (matches L m) ls) =
      filter (matches_key L m) (List.map_filter l_key ls)" for ls
    by (induction ls) (auto simp: matches_def map_filter_def split: option.splits)
  then show ?thesis by (simp add: find_keys_def live_keys_def)
qed

lemma live_keys_remove:
  "live_keys (fst (remove_keys L m f)) = filter (\<lambda>k. \<not> matches_key L m k) (live_keys f)"
proof -
  have "List.map_filter l_key (filter (\<lambda>l. \<not> matches L m l) ls) =
      filter (\<lambda>k. \<not> matches_key L m k) (List.map_filter l_key ls)" for ls
    by (induction ls) (auto simp: matches_def map_filter_def split: option.splits)
  then show ?thesis by (simp add: live_keys_def)
qed

lemma removed_iff: "snd (remove_keys L m f) = [] \<longleftrightarrow> find_keys L m f = []"
  by (simp add: find_keys_def)

lemma remove_keys_unchanged:
  "snd (remove_keys L m f) = [] \<Longrightarrow> f_lines (fst (remove_keys L m f)) = f_lines f"
  by (auto simp: filter_empty_conv intro!: filter_True)

lemma matches_by_key: "matches_key L (by_key k) k' \<longleftrightarrow> key_blob k' = key_blob k"
  by (simp add: matches_key_def by_key_def)

lemma matches_by_fp: "matches_key L (by_fp fp) k' \<longleftrightarrow> fingerprint L k' = fp"
  by (simp add: matches_key_def by_fp_def)

lemma add_key_added: "snd (add_key L k c os f) \<longleftrightarrow> find_keys L (by_key k) f = []"
  by (simp add: add_key_def)

lemma live_keys_add:
  "live_keys (fst (add_key L k c os f)) =
    (if \<exists>k' \<in> set (live_keys f). key_blob k' = key_blob k then live_keys f
     else live_keys f @ [k])"
proof (cases "find_keys L (by_key k) f = []")
  case True
  then show ?thesis
    by (auto simp: add_key_def find_keys_live matches_by_key filter_empty_conv live_keys_def
        map_filter_def)
next
  case False
  then show ?thesis
    by (auto simp: add_key_def find_keys_live matches_by_key filter_empty_conv)
qed

text \<open>
  C14: an addition changes exactly one line.  The new content is the old one (with a
  final newline, when it was missing) followed by the key's line, or the old content
  when a line with the same key material was there.
\<close>

theorem add_key_diff:
  "render_file (fst (add_key L k c os (parse_file L content))) =
    (if find_keys L (by_key k) (parse_file L content) \<noteq> [] then content
     else content @ (if content = [] \<or> has_suffix content [NL] then [] else [NL])
       @ key_line L k c os @ [NL])"
proof (cases "find_keys L (by_key k) (parse_file L content) = []")
  case False
  then show ?thesis by (simp add: add_key_def render_parse_bytes)
next
  case True
  show ?thesis
  proof (cases "content = []")
    case True
    then show ?thesis
      using \<open>find_keys L (by_key k) (parse_file L content) = []\<close>
      by (simp add: add_key_def parse_file_def render_file_def)
  next
    case False
    let ?f = "parse_file L content"
    have ne: "f_lines ?f \<noteq> []" and nf: "f_nofinal ?f = (\<not> has_suffix content [NL])"
      using False by (simp_all add: parse_file_def)
    have "join [NL] (map l_raw (f_lines ?f)) @ (if f_nofinal ?f then [] else [NL]) = content"
      using ne render_parse_bytes [of L content] by (simp add: render_join)
    with ne nf True False show ?thesis
      by (auto simp: add_key_def render_file_def concat_lines)
  qed
qed

text \<open>
  A removal takes out exactly the matching lines: afterwards nothing matches, and
  every other line is there, unchanged and in order.
\<close>

theorem remove_keys_exact:
  "find_keys L m (fst (remove_keys L m f)) = [] \<and>
   f_lines (fst (remove_keys L m f)) = filter (\<lambda>l. \<not> matches L m l) (f_lines f) \<and>
   snd (remove_keys L m f) = filter (matches L m) (f_lines f)"
  by (simp add: find_keys_live live_keys_remove)

section \<open>The interface the transaction edits through\<close>

text \<open>
  A store of keys that can be searched, extended and pruned.  The laws say what an
  edit does to the keys; the lemmas say what a batch of additions followed by a batch
  of removals leaves, which is what a transaction does to a file.
\<close>

locale key_editor =
  fixes keys :: "'f \<Rightarrow> 'k list"
    and add :: "'a \<Rightarrow> 'f \<Rightarrow> 'f"
    and remove :: "'m \<Rightarrow> 'f \<Rightarrow> 'f"
    and new_key :: "'a \<Rightarrow> 'k"
    and same :: "'k \<Rightarrow> 'k \<Rightarrow> bool"
    and selects :: "'m \<Rightarrow> 'k \<Rightarrow> bool"
  assumes keys_add: "keys (add a f) =
      (if \<exists>k \<in> set (keys f). same k (new_key a) then keys f else keys f @ [new_key a])"
    and keys_remove: "keys (remove m f) = filter (\<lambda>k. \<not> selects m k) (keys f)"
    and same_refl: "same k k"
    and selects_same: "same k k' \<Longrightarrow> selects m k = selects m k'"
begin

definition add_all :: "'a list \<Rightarrow> 'f \<Rightarrow> 'f" where
  "add_all as f = fold add as f"

definition remove_all :: "'m list \<Rightarrow> 'f \<Rightarrow> 'f" where
  "remove_all ms f = fold remove ms f"

lemma keys_remove_all:
  "keys (remove_all ms f) = filter (\<lambda>k. \<forall>m \<in> set ms. \<not> selects m k) (keys f)"
  by (induction ms arbitrary: f) (auto simp: remove_all_def keys_remove intro: filter_cong)

lemma keys_add_all_mono: "set (keys f) \<subseteq> set (keys (add_all as f))"
proof (induction as arbitrary: f)
  case (Cons a as)
  have "set (keys f) \<subseteq> set (keys (add a f))" by (auto simp: keys_add)
  with Cons [of "add a f"] show ?case by (simp add: add_all_def)
qed (simp add: add_all_def)

lemma keys_add_all_new:
  "a \<in> set as \<Longrightarrow> \<exists>k \<in> set (keys (add_all as f)). same k (new_key a)"
proof (induction as arbitrary: f)
  case (Cons b bs)
  show ?case
  proof (cases "a = b")
    case True
    have "\<exists>k \<in> set (keys (add a f)). same k (new_key a)"
      using same_refl by (auto simp: keys_add)
    with True keys_add_all_mono [of "add a f" bs] show ?thesis
      by (auto simp: add_all_def)
  next
    case False
    with Cons show ?thesis by (simp add: add_all_def)
  qed
qed simp

lemma keys_add_all_only:
  "k \<in> set (keys (add_all as f)) \<Longrightarrow> k \<in> set (keys f) \<or> k \<in> new_key ` set as"
proof (induction as arbitrary: f)
  case (Cons b bs)
  then have "k \<in> set (keys (add b f)) \<or> k \<in> new_key ` set bs"
    by (simp add: add_all_def)
  then show ?case by (auto simp: keys_add split: if_splits)
qed (simp add: add_all_def)

text \<open>The end state of a transaction: added keys present, removed keys absent, the rest kept.\<close>

lemma end_state_removed: "m \<in> set ms \<Longrightarrow> k \<in> set (keys (remove_all ms (add_all as f))) \<Longrightarrow> \<not> selects m k"
  by (auto simp: keys_remove_all)

lemma end_state_added:
  assumes "a \<in> set as" and "\<And>m. m \<in> set ms \<Longrightarrow> \<not> selects m (new_key a)"
  shows "\<exists>k \<in> set (keys (remove_all ms (add_all as f))). same k (new_key a)"
  using keys_add_all_new [OF assms(1)] assms(2) selects_same by (fastforce simp: keys_remove_all)

lemma end_state_kept:
  "k \<in> set (keys f) \<Longrightarrow> (\<And>m. m \<in> set ms \<Longrightarrow> \<not> selects m k) \<Longrightarrow>
    k \<in> set (keys (remove_all ms (add_all as f)))"
  using keys_add_all_mono by (fastforce simp: keys_remove_all)

lemma end_state_only:
  "k \<in> set (keys (remove_all ms (add_all as f))) \<Longrightarrow> k \<in> set (keys f) \<or> k \<in> new_key ` set as"
  using keys_add_all_only by (auto simp: keys_remove_all)

end

definition add_req :: "sshlib \<Rightarrow> pubkey \<times> string \<times> string list \<Rightarrow> keyfile \<Rightarrow> keyfile" where
  "add_req L a f = (case a of (k, c, os) \<Rightarrow> fst (add_key L k c os f))"

definition remove_req :: "sshlib \<Rightarrow> matcher \<Rightarrow> keyfile \<Rightarrow> keyfile" where
  "remove_req L m f = fst (remove_keys L m f)"

definition same_key :: "pubkey \<Rightarrow> pubkey \<Rightarrow> bool" where
  "same_key k k' \<longleftrightarrow> key_blob k = key_blob k'"

interpretation ak: key_editor live_keys "add_req L" "remove_req L" fst same_key "matches_key L"
  for L :: sshlib
  by unfold_locales
    (auto simp: add_req_def remove_req_def live_keys_add live_keys_remove same_key_def
      matches_key_def fingerprint_def split: prod.splits option.splits)

section \<open>Key specifications\<close>

text \<open>
  The three forms of a key argument.  A \<^verbatim>\<open>SHA256:\<close> argument selects by fingerprint
  and carries no key; anything else must parse, and then selects by that key; there is
  no other success.
\<close>

theorem parse_key_spec_cases:
  "parse_key_spec L arg = Inr (m, c, os) \<longleftrightarrow>
    (has_prefix (trim_space arg) ''SHA256:'' \<and> m = by_fp (trim_space arg) \<and> c = [] \<and> os = []) \<or>
    (\<not> has_prefix (trim_space arg) ''SHA256:'' \<and> trim_space arg \<noteq> [] \<and>
      (\<exists>k. parse_authkey L (trim_space arg) = Some (k, c, os) \<and> m = by_key k))"
  by (auto simp: parse_key_spec_def Let_def split: option.splits)

end
