(* ===== verification/Sshx.thy ===== *)
theory Sshx
  imports Authkeys
begin

text \<open>
  Package \<^verbatim>\<open>internal/sshx\<close> (sshx.go): targets, host key policy, authentication methods and
  the acceptance probes.  The SSH client library is a parameter: what a dial comes to is
  a value \<open>dial_result\<close>, and these definitions are what the program makes of it.
\<close>

section \<open>Targets\<close>

record target =
  tg_user :: string
  tg_host :: string
  tg_port :: string

text \<open>\<^verbatim>\<open>net.SplitHostPort\<close> and \<^verbatim>\<open>net.JoinHostPort\<close> of the standard library.\<close>

datatype addr_error = MissingPort | TooManyColons | MissingBracket | UnexpectedBracket

definition split_host_port :: "string \<Rightarrow> addr_error + (string \<times> string)" where
  "split_host_port s =
     (case last_index CHR '':'' s of
        None \<Rightarrow> Inl MissingPort
      | Some i \<Rightarrow>
          (let finish = (\<lambda>host j k.
                 if CHR ''['' \<in> set (drop j s) \<or> CHR '']'' \<in> set (drop k s) then Inl UnexpectedBracket
                 else Inr (host, drop (Suc i) s)) in
           if hd s = CHR ''['' then
             (case index_of CHR '']'' s of
                None \<Rightarrow> Inl MissingBracket
              | Some e \<Rightarrow>
                  if Suc e = length s then Inl MissingPort
                  else if Suc e = i then finish (take (e - 1) (drop 1 s)) 1 (Suc e)
                  else if s ! Suc e = CHR '':'' then Inl TooManyColons
                  else Inl MissingPort)
           else if CHR '':'' \<in> set (take i s) then Inl TooManyColons
           else finish (take i s) 0 0))"

definition join_host_port :: "string \<Rightarrow> string \<Rightarrow> string" where
  "join_host_port host port =
     (if CHR '':'' \<in> set host then ''['' @ host @ '']:'' @ port else host @ '':'' @ port)"

datatype target_error = BadTarget string

definition parse_target :: "string \<Rightarrow> target_error + target" where
  "parse_target s =
     (case last_index CHR ''@'' s of
        None \<Rightarrow> Inl (BadTarget s)
      | Some i \<Rightarrow>
          if i = 0 \<or> i = length s - 1 then Inl (BadTarget s)
          else (let u = take i s; h = drop (Suc i) s in
                case split_host_port h of
                  Inr (host, port) \<Rightarrow> Inr \<lparr>tg_user = u, tg_host = host, tg_port = port\<rparr>
                | Inl _ \<Rightarrow> Inr \<lparr>tg_user = u, tg_host = h, tg_port = ''22''\<rparr>))"

definition addr :: "target \<Rightarrow> string" where
  "addr t = join_host_port (tg_host t) (tg_port t)"

definition target_string :: "target \<Rightarrow> string" where
  "target_string t = tg_user t @ ''@'' @ addr t"

definition with_user :: "target \<Rightarrow> string \<Rightarrow> target" where
  "with_user t u = t\<lparr>tg_user := u\<rparr>"

section \<open>Host keys\<close>

record host_key_policy =
  known_hosts_files :: "string list"
  pinned_sha256 :: string
  insecure :: bool

text \<open>
  The callback a policy resolves to.  \<^verbatim>\<open>knownhosts.New\<close> belongs to the library: whether it
  takes the files found is the parameter \<open>new_ok\<close>, and what it then says of a host's key is
  a parameter of \<open>host_key_ok\<close>.
\<close>

datatype host_key_callback = AcceptAny | Pinned string | KnownHosts "string list"

datatype policy_error = NoKnownHosts "string list" | BadKnownHosts "string list"

definition policy_callback ::
  "(string \<Rightarrow> bool) \<Rightarrow> (string list \<Rightarrow> bool) \<Rightarrow> host_key_policy \<Rightarrow> policy_error + host_key_callback" where
  "policy_callback stat_ok new_ok p =
     (if insecure p then Inr AcceptAny
      else if pinned_sha256 p \<noteq> [] then Inr (Pinned (pinned_sha256 p))
      else (let files = filter stat_ok (known_hosts_files p) in
            if files = [] then Inl (NoKnownHosts (known_hosts_files p))
            else if new_ok files then Inr (KnownHosts files) else Inl (BadKnownHosts files)))"

fun host_key_ok ::
  "sshlib \<Rightarrow> (string list \<Rightarrow> string \<Rightarrow> pubkey \<Rightarrow> bool) \<Rightarrow> host_key_callback \<Rightarrow> string \<Rightarrow> pubkey \<Rightarrow> bool" where
  "host_key_ok L known AcceptAny host k = True"
| "host_key_ok L known (Pinned want) host k = (fingerprint L k = want)"
| "host_key_ok L known (KnownHosts files) host k = known files host k"

section \<open>Authentication methods\<close>

datatype 'k key_file = Unreadable | PassphraseMissing | Malformed | Signer 'k

datatype 'k auth_method = PublicKeys "'k list" | AgentSigners string

datatype auth_error = IdentityUnreadable string | IdentityProtected string | IdentityMalformed string | NoAuth

primrec load_identities :: "(string \<Rightarrow> 'k key_file) \<Rightarrow> string list \<Rightarrow> auth_error + 'k list" where
  "load_identities rd [] = Inr []"
| "load_identities rd (f # fs) =
     (case rd f of
        Unreadable \<Rightarrow> Inl (IdentityUnreadable f)
      | PassphraseMissing \<Rightarrow> Inl (IdentityProtected f)
      | Malformed \<Rightarrow> Inl (IdentityMalformed f)
      | Signer k \<Rightarrow> (case load_identities rd fs of Inl e \<Rightarrow> Inl e | Inr ks \<Rightarrow> Inr (k # ks)))"

text \<open>\<open>sock\<close> is \<^verbatim>\<open>SSH_AUTH_SOCK\<close>; \<open>agent_up\<close> whether the agent answers there.\<close>

definition auth_methods ::
  "(string \<Rightarrow> 'k key_file) \<Rightarrow> string \<Rightarrow> (string \<Rightarrow> bool) \<Rightarrow> string list \<Rightarrow> bool \<Rightarrow>
    auth_error + 'k auth_method list" where
  "auth_methods rd sock agent_up files disable_agent =
     (case load_identities rd files of
        Inl e \<Rightarrow> Inl e
      | Inr signers \<Rightarrow>
          (let methods = (if signers \<noteq> [] then [PublicKeys signers] else []) @
                 (if \<not> disable_agent \<and> sock \<noteq> [] \<and> agent_up sock then [AgentSigners sock] else [])
           in if methods = [] then Inl NoAuth else Inr methods))"

section \<open>Probes\<close>

text \<open>
  What a dial with one public key comes to: whether the library asked the signer for a
  signature, and the text of the error it returned, if any.
\<close>

record dial_result =
  d_asked :: bool
  d_err :: "string option"

record probe_result =
  accepted :: bool
  detail :: string

datatype probe_error = NoSignatureRequested target | Inconclusive target string

definition is_auth_failure :: "string option \<Rightarrow> bool" where
  "is_auth_failure err =
     (case err of
        None \<Rightarrow> False
      | Some msg \<Rightarrow> contains msg ''unable to authenticate'' \<or> contains msg ''no supported methods remain'')"

definition probe_key :: "target \<Rightarrow> dial_result \<Rightarrow> probe_error + probe_result" where
  "probe_key t d =
     (if d_asked d
        then Inr \<lparr>accepted = True,
          detail = ''server sent PK_OK for the key (authorized); probe aborted before authentication''\<rparr>
      else (case d_err d of
              None \<Rightarrow> Inl (NoSignatureRequested t)
            | Some msg \<Rightarrow>
                if is_auth_failure (d_err d)
                then Inr \<lparr>accepted = False, detail = ''server refused the key at the publickey query phase''\<rparr>
                else Inl (Inconclusive t msg)))"

definition verify_auth :: "target \<Rightarrow> dial_result \<Rightarrow> probe_error + probe_result" where
  "verify_auth t d =
     (case d_err d of
        None \<Rightarrow> Inr \<lparr>accepted = True, detail = ''full authentication succeeded on a fresh connection''\<rparr>
      | Some msg \<Rightarrow>
          if is_auth_failure (d_err d)
          then Inr \<lparr>accepted = False, detail = ''full authentication refused: '' @ msg\<rparr>
          else Inl (Inconclusive t msg))"

end
