(* ===== verification/Sshx_Facts.thy ===== *)
theory Sshx_Facts
  imports Sshx
begin

text \<open>
  What the definitions of Sshx guarantee: targets survive printing and parsing, a pinned
  host key is the only one accepted, and a probe never takes a network error for a verdict.
\<close>

section \<open>Targets\<close>

definition plain_host :: "string \<Rightarrow> bool" where
  "plain_host h \<longleftrightarrow> CHR ''@'' \<notin> set h \<and> CHR ''['' \<notin> set h \<and> CHR '']'' \<notin> set h"

lemma split_join_host_port:
  assumes "plain_host h" and "plain_host p" and "CHR '':'' \<notin> set p"
  shows "split_host_port (join_host_port h p) = Inr (h, p)"
proof (cases "CHR '':'' \<in> set h")
  case False
  then have j: "join_host_port h p = h @ CHR '':'' # p" by (simp add: join_host_port_def)
  have "h \<noteq> [] \<Longrightarrow> hd h \<noteq> CHR ''[''" using assms(1) by (cases h) (auto simp: plain_host_def)
  then have "hd (h @ CHR '':'' # p) \<noteq> CHR ''[''" by (cases h) auto
  then show ?thesis
    using False assms last_index_append [OF assms(3), of h]
    by (simp add: split_host_port_def j plain_host_def Let_def)
next
  case True
  let ?s = "CHR ''['' # h @ CHR '']'' # CHR '':'' # p"
  have j: "join_host_port h p = ?s" using True by (simp add: join_host_port_def)
  have last: "last_index CHR '':'' ?s = Some (length h + 2)"
    using last_index_append [OF assms(3), of "CHR ''['' # h @ [CHR '']'']"] by simp
  have idx: "index_of CHR '']'' ?s = Some (Suc (length h))"
    using index_of_append [of "CHR '']''" h "CHR '':'' # p"] assms(1) by (simp add: plain_host_def)
  show ?thesis
    unfolding split_host_port_def j last option.case Let_def list.sel idx
    using assms by (simp add: plain_host_def nth_append)
qed

text \<open>
  C26: a target printed by \<^verbatim>\<open>String\<close> and parsed again is itself, whatever its user name, for a
  host name, an IPv4 or an IPv6 address and any port.
\<close>

theorem parse_target_string:
  assumes "tg_user t \<noteq> []" and "plain_host (tg_host t)" and "plain_host (tg_port t)" and "CHR '':'' \<notin> set (tg_port t)"
  shows "parse_target (target_string t) = Inr t"
proof -
  have at: "CHR ''@'' \<notin> set (addr t)" and ne: "addr t \<noteq> []"
    using assms by (auto simp: addr_def join_host_port_def plain_host_def)
  have "last_index CHR ''@'' (tg_user t @ CHR ''@'' # addr t) = Some (length (tg_user t))"
    by (rule last_index_append [OF at])
  moreover have "split_host_port (addr t) = Inr (tg_host t, tg_port t)"
    using split_join_host_port [OF assms(2-4)] by (simp add: addr_def)
  ultimately show ?thesis
    using assms(1) ne by (simp add: parse_target_def target_string_def Let_def)
qed

theorem parse_target_string_witness:
  "parse_target ''al@[::1]:2222'' = Inr \<lparr>tg_user = ''al'', tg_host = ''::1'', tg_port = ''2222''\<rparr>"
  using parse_target_string [of "\<lparr>tg_user = ''al'', tg_host = ''::1'', tg_port = ''2222''\<rparr>"]
  by (simp add: plain_host_def target_string_def addr_def join_host_port_def)


text \<open>
  A bracketed IPv6 address without a port keeps its brackets, so that the address dialled
  has them twice; and a colon at the end gives the empty port, not 22.
\<close>

theorem bracketed_without_port:
  "map_option addr (case parse_target ''al@[::1]'' of Inl _ \<Rightarrow> None | Inr t \<Rightarrow> Some t) = Some ''[[::1]]:22'' \<and>
   parse_target ''al@s:'' = Inr \<lparr>tg_user = ''al'', tg_host = ''s'', tg_port = []\<rparr>"
  by (simp add: parse_target_def split_host_port_def addr_def join_host_port_def Let_def)

section \<open>Host keys and authentication\<close>

text \<open>
  C28: unless host keys are explicitly not checked, a pinned fingerprint is the only host key
  accepted, and without one the policy is never empty: it resolves to the known-hosts
  files that exist, or fails.
\<close>

theorem policy_never_open:
  assumes "\<not> insecure p" and "policy_callback stat_ok new_ok p = Inr cb"
  shows "if pinned_sha256 p \<noteq> [] then host_key_ok L known cb host k \<longleftrightarrow> fingerprint L k = pinned_sha256 p
    else \<exists>fs. fs \<noteq> [] \<and> fs = filter stat_ok (known_hosts_files p) \<and> (host_key_ok L known cb host k \<longleftrightarrow> known fs host k)"
  using assms by (auto simp: policy_callback_def Let_def split: if_splits)

theorem policy_never_open_witness:
  "host_key_ok \<lparr>parse_authkey = (\<lambda>_. None), marshal_authkey = key_blob, fingerprint_blob = id\<rparr> (\<lambda>_ _ _. True)
     (Pinned ''fp'') ''s'' (PubKey ''t'' ''fp'')"
  using policy_never_open [of "\<lparr>known_hosts_files = [], pinned_sha256 = ''fp'', insecure = False\<rparr>" "\<lambda>_. False" "\<lambda>_. True"
    "Pinned ''fp''" "\<lparr>parse_authkey = (\<lambda>_. None), marshal_authkey = key_blob, fingerprint_blob = id\<rparr>" "\<lambda>_ _ _. True" "''s''"
    "PubKey ''t'' ''fp''"]
  by (simp add: policy_callback_def fingerprint_def)

lemma map_Signer_eq [simp]: "map Signer xs = map Signer ys \<longleftrightarrow> xs = ys"
  by (rule inj_map_eq_map) (simp add: inj_def)

lemma load_identities_ok: "load_identities rd fs = Inr ks \<longleftrightarrow> map rd fs = map Signer ks"
  by (induction fs arbitrary: ks) (auto split: key_file.splits sum.splits simp: Cons_eq_map_conv, blast)

text \<open>
  C29: \<^verbatim>\<open>Methods\<close> succeeds exactly when every identity file is a usable key and there is at least
  one method; then the identities come first, in order, and the agent last unless it is
  disabled, unset or not there.
\<close>

theorem auth_methods_iff:
  "auth_methods rd sock agent_up files dis = Inr ms \<longleftrightarrow>
     ms \<noteq> [] \<and> (\<exists>ks. map rd files = map Signer ks \<and>
       ms = (if ks = [] then [] else [PublicKeys ks]) @
            (if \<not> dis \<and> sock \<noteq> [] \<and> agent_up sock then [AgentSigners sock] else []))"
proof (cases "load_identities rd files")
  case (Inl e)
  then have "\<not> (\<exists>ks. map rd files = map Signer ks)"
    using load_identities_ok [of rd files] by auto
  then show ?thesis by (simp add: auth_methods_def Inl)
next
  case (Inr ks)
  then have "map rd files = map Signer ks" using load_identities_ok by blast
  then show ?thesis by (auto simp: auth_methods_def Inr Let_def)
qed

section \<open>Verdicts\<close>

text \<open>
  C30: a probe says accepted exactly when the server asked for a signature, and refused only when
  it did not and the error is an authentication failure; everything else, a lost connection
  above all, is an error.  The same holds of a full authentication, which accepts only on
  success.
\<close>

theorem probe_never_guesses:
  "((\<exists>r. probe_key t d = Inr r \<and> accepted r) \<longleftrightarrow> d_asked d) \<and>
   ((\<exists>r. probe_key t d = Inr r \<and> \<not> accepted r) \<longleftrightarrow> \<not> d_asked d \<and> is_auth_failure (d_err d)) \<and>
   ((\<exists>r. verify_auth t d = Inr r \<and> accepted r) \<longleftrightarrow> d_err d = None) \<and>
   ((\<exists>r. verify_auth t d = Inr r \<and> \<not> accepted r) \<longleftrightarrow> is_auth_failure (d_err d))"
  by (auto simp: probe_key_def verify_auth_def is_auth_failure_def split: option.splits)

end
