(* ===== verification/Posix_Sh.thy ===== *)
theory Posix_Sh
  imports Go_Base
begin

text \<open>
  The remote side.  The program sends POSIX \<^verbatim>\<open>sh\<close> scripts, built as strings in
  remote.go, tx.go and guard.go.  This theory holds the part of the shell language
  they use: words and commands, their text (\<open>render\<close>), a file system and the meaning of
  a command on it (\<open>exec\<close>).  Remote_Scripts shows that the strings the Go code builds
  are the texts of the commands modelled there.

  A file system maps path names to nodes; symbolic links are followed in the last
  component, directories above it are named by their real path.  What may go wrong is a parameter: any
  command that changes or reads the system may fail (\<open>fails\<close>: permissions, a full
  disk), a failed or interrupted write may leave any prefix of its data (\<open>part\<close>), and
  the script may be killed before any of its commands (\<open>cut\<close>).
\<close>

section \<open>Quoting and lexing\<close>

definition sh_quote :: "string \<Rightarrow> string" where
  "sh_quote s = SQ # concat (map (\<lambda>c. if c = SQ then [SQ, CHR 0x5C, SQ, SQ] else [c]) s) @ [SQ]"

definition sh_meta :: "char \<Rightarrow> bool" where
  "sh_meta c \<longleftrightarrow> c \<in> {CHR '' '', TAB, NL, CHR '';'', CHR ''&'', CHR ''|'', CHR ''<'', CHR ''>'',
     CHR ''('', CHR '')''}"

text \<open>
  The shell reads one word: single quotes make everything up to the next one literal, a
  backslash the next character; a metacharacter ends the word.  \<open>None\<close> is a word that is
  not literal (an expansion, a glob, a comment sign) or that does not end.
\<close>

fun sh_word :: "bool \<Rightarrow> string \<Rightarrow> (string \<times> string) option" where
  "sh_word True [] = None"
| "sh_word True (c # cs) =
     (if c = SQ then sh_word False cs
      else map_option (\<lambda>(w, r). (c # w, r)) (sh_word True cs))"
| "sh_word False [] = Some ([], [])"
| "sh_word False (c # cs) =
     (if c = SQ then sh_word True cs
      else if c = CHR 0x5C
        then (case cs of [] \<Rightarrow> None | d # ds \<Rightarrow> map_option (\<lambda>(w, r). (d # w, r)) (sh_word False ds))
      else if c \<in> set (CHR 0x22 # CHR 0x60 # ''$*?[#'') then None
      else if sh_meta c then Some ([], c # cs)
      else map_option (\<lambda>(w, r). (c # w, r)) (sh_word False cs))"

definition word_end :: "string \<Rightarrow> bool" where
  "word_end r \<longleftrightarrow> r = [] \<or> sh_meta (hd r)"

lemma sh_word_end: "word_end r \<Longrightarrow> sh_word False r = Some ([], r)"
  by (cases r) (auto simp: word_end_def sh_meta_def)

lemma sh_word_escaped:
  "word_end r \<Longrightarrow>
    sh_word True (concat (map (\<lambda>c. if c = SQ then [SQ, CHR 0x5C, SQ, SQ] else [c]) s) @ SQ # r) =
      Some (s, r)"
  by (induction s) (auto simp: sh_word_end)

text \<open>
  C15: a quoted string is one literal word to the shell, and that word is the string,
  whatever bytes it holds: nothing put through \<^verbatim>\<open>Quote\<close> can end the word early.
\<close>

theorem sh_quote_word: "word_end r \<Longrightarrow> sh_word False (sh_quote s @ r) = Some (s, r)"
  by (simp add: sh_quote_def sh_word_escaped)

theorem sh_quote_word_witness:
  "sh_word False (sh_quote (''it'' @ [SQ] @ ''s; rm $x'') @ ''; exit 0'') =
    Some (''it'' @ [SQ] @ ''s; rm $x'', ''; exit 0'')"
  by (rule sh_quote_word) (simp add: word_end_def sh_meta_def)

section \<open>Commands and their text\<close>

text \<open>
  A word is a concatenation of quoted text, bare text and uses of a variable in double
  quotes (with the text that follows it inside them).
\<close>

datatype piece = Quoted string | Bare string | Var string string

type_synonym shword = "piece list"

datatype test = IsLink shword | Exists shword | IsDir shword | IsFile shword | NotT test

datatype cmd =
    Umask string
  | Bracket test
  | TestCmd test
  | Exit nat
  | EchoErr string
  | Echo string
  | Printf string "shword list"
  | Capture string cmd
  | Cat shword
  | CatTo shword
  | CatOnto shword
  | StatGnu shword
  | StatBsd shword
  | MkTemp shword
  | MkTempDir shword
  | Chmod shword shword
  | Chown shword shword shword
  | Mv shword shword
  | Rm shword
  | RmRf shword
  | MkDir shword
  | MkDirP shword
  | IdU string
  | IdG string
  | IdSelf
  | EchoHome string
  | And cmd cmd
  | Or cmd cmd
  | Seq cmd cmd
  | Group cmd
  | Subshell cmd
  | IfThen test cmd
  | IfElse test cmd cmd
  | IfElif test cmd test cmd cmd
  | AsUser string cmd

abbreviation DQ :: char where "DQ \<equiv> CHR 0x22"

text \<open>Decimal numerals, as \<^verbatim>\<open>exit\<close> takes them.\<close>

fun dec :: "nat \<Rightarrow> string" where
  "dec n = (if n < 10 then [char_of (48 + n)] else dec (n div 10) @ [char_of (48 + n mod 10)])"

declare dec.simps [simp del]

fun render_piece :: "piece \<Rightarrow> string" where
  "render_piece (Quoted s) = sh_quote s"
| "render_piece (Bare s) = s"
| "render_piece (Var v t) = DQ # CHR ''$'' # v @ t @ [DQ]"

definition render_word :: "shword \<Rightarrow> string" where
  "render_word w = concat (map render_piece w)"

primrec render_test :: "test \<Rightarrow> string" where
  "render_test (IsLink w) = ''-L '' @ render_word w"
| "render_test (Exists w) = ''-e '' @ render_word w"
| "render_test (IsDir w) = ''-d '' @ render_word w"
| "render_test (IsFile w) = ''-f '' @ render_word w"
| "render_test (NotT t) = ''! '' @ render_test t"

primrec render :: "cmd \<Rightarrow> string" where
  "render (Umask m) = ''umask '' @ m"
| "render (Bracket t) = ''[ '' @ render_test t @ '' ]''"
| "render (TestCmd t) = ''test '' @ render_test t"
| "render (Exit n) = ''exit '' @ dec n"
| "render (EchoErr s) = ''echo '' @ sh_quote s @ '' >&2''"
| "render (Echo s) = ''echo '' @ s"
| "render (Printf f ws) = ''printf '' @ sh_quote f @ concat (map (\<lambda>w. '' '' @ render_word w) ws)"
| "render (Capture v c) = v @ ''=$('' @ render c @ '')''"
| "render (Cat w) = ''cat '' @ render_word w"
| "render (CatTo w) = ''cat > '' @ render_word w"
| "render (CatOnto w) = ''cat >> '' @ render_word w"
| "render (StatGnu w) = ''stat -c '' @ sh_quote ''%u %g %a'' @ '' '' @ render_word w @ '' 2>/dev/null''"
| "render (StatBsd w) = ''stat -f '' @ sh_quote ''%u %g %OLp'' @ '' '' @ render_word w"
| "render (MkTemp w) = ''mktemp '' @ render_word w"
| "render (MkTempDir w) = ''mktemp -d '' @ render_word w"
| "render (Chmod m w) = ''chmod '' @ render_word m @ '' '' @ render_word w"
| "render (Chown u g w) = ''chown '' @ render_word u @ '':'' @ render_word g @ '' '' @ render_word w"
| "render (Mv a b) = ''mv -f '' @ render_word a @ '' '' @ render_word b"
| "render (Rm w) = ''rm -f '' @ render_word w"
| "render (RmRf w) = ''rm -rf '' @ render_word w"
| "render (MkDir w) = ''mkdir '' @ render_word w"
| "render (MkDirP w) = ''mkdir -p '' @ render_word w"
| "render (IdU n) = ''id -u '' @ n"
| "render (IdG n) = ''id -g '' @ n"
| "render IdSelf = ''id -u''"
| "render (EchoHome n) = ''eval echo ~'' @ n"
| "render (And a b) = render a @ '' && '' @ render b"
| "render (Or a b) = render a @ '' || '' @ render b"
| "render (Seq a b) = render a @ ''; '' @ render b"
| "render (Group c) = ''{ '' @ render c @ ''; }''"
| "render (Subshell c) = ''('' @ render c @ '')''"
| "render (IfThen t c) = ''if [ '' @ render_test t @ '' ]; then '' @ render c @ ''; fi''"
| "render (IfElse t c d) =
     ''if [ '' @ render_test t @ '' ]; then '' @ render c @ ''; else '' @ render d @ ''; fi''"
| "render (IfElif t c u d e) =
     ''if [ '' @ render_test t @ '' ]; then '' @ render c @ ''; elif [ '' @ render_test u @
     '' ]; then '' @ render d @ ''; else '' @ render e @ ''; fi''"
| "render (AsUser u c) =
     ''if command -v runuser >/dev/null 2>&1; then exec runuser -u '' @ u @ '' -- /bin/sh -c '' @
     sh_quote (render c) @ ''; else exec su '' @ u @ '' -s /bin/sh -c '' @ sh_quote (render c) @ ''; fi''"

section \<open>The host's file system\<close>

record attrs =
  a_uid :: string
  a_gid :: string
  a_mode :: string

datatype node = Reg string attrs | Dir attrs | Link string

type_synonym fs = "string \<rightharpoonup> node"

text \<open>\<^verbatim>\<open>dirOf\<close> of remote.go.\<close>

definition dir_of :: "string \<Rightarrow> string" where
  "dir_of path =
     (case last_index CHR ''/'' path of
        None \<Rightarrow> ''/''
      | Some i \<Rightarrow> if i = 0 then ''/'' else take i path)"

definition base_of :: "string \<Rightarrow> string" where
  "base_of path =
     (case last_index CHR ''/'' path of None \<Rightarrow> path | Some i \<Rightarrow> drop (Suc i) path)"

definition link_target :: "string \<Rightarrow> string \<Rightarrow> string" where
  "link_target p t = (if has_prefix t ''/'' then t else dir_of p @ ''/'' @ t)"

text \<open>Following symbolic links, at most 40 of them as Linux does (\<open>None\<close> is \<^verbatim>\<open>ELOOP\<close>).\<close>

fun follow :: "nat \<Rightarrow> fs \<Rightarrow> string \<Rightarrow> string option" where
  "follow n f p =
     (case f p of
        Some (Link t) \<Rightarrow> (case n of 0 \<Rightarrow> None | Suc m \<Rightarrow> follow m f (link_target p t))
      | _ \<Rightarrow> Some p)"

declare follow.simps [simp del]

definition resolve :: "fs \<Rightarrow> string \<Rightarrow> string option" where
  "resolve f p = follow 40 f p"

definition node_at :: "fs \<Rightarrow> string \<Rightarrow> node option" where
  "node_at f p = (case resolve f p of None \<Rightarrow> None | Some q \<Rightarrow> f q)"

definition is_link :: "fs \<Rightarrow> string \<Rightarrow> bool" where
  "is_link f p = (case f p of Some (Link _) \<Rightarrow> True | _ \<Rightarrow> False)"

definition is_dir :: "fs \<Rightarrow> string \<Rightarrow> bool" where
  "is_dir f p = (case node_at f p of Some (Dir _) \<Rightarrow> True | _ \<Rightarrow> False)"

definition is_file :: "fs \<Rightarrow> string \<Rightarrow> bool" where
  "is_file f p = (case node_at f p of Some (Reg _ _) \<Rightarrow> True | _ \<Rightarrow> False)"

definition below :: "string \<Rightarrow> string \<Rightarrow> bool" where
  "below d p \<longleftrightarrow> p = d \<or> has_prefix p (d @ ''/'')"

lemma resolve_no_link: "\<not> is_link f p \<Longrightarrow> resolve f p = Some p"
  unfolding resolve_def by (subst follow.simps) (auto simp: is_link_def split: option.splits node.splits)

lemma node_at_no_link: "\<not> is_link f p \<Longrightarrow> node_at f p = f p"
  by (simp add: node_at_def resolve_no_link)

lemma is_link_simps [simp]:
  "f p = None \<Longrightarrow> \<not> is_link f p"
  "f p = Some (Reg c a) \<Longrightarrow> \<not> is_link f p"
  "f p = Some (Dir a) \<Longrightarrow> \<not> is_link f p"
  by (simp_all add: is_link_def)

end
