(* ===== verification/Sh_Exec.thy ===== *)
theory Sh_Exec
  imports Posix_Sh
begin

text \<open>
  The meaning of the commands of Posix_Sh on a file system, with the failures the
  environment chooses, and the rules by which the scripts of remote.go are verified.
\<close>

section \<open>Execution\<close>

text \<open>
  The environment of one script: the accounts of the host, the tools it has, the name
  \<^verbatim>\<open>mktemp\<close> picks, and the faults.  \<open>fails n\<close>: the script's \<open>n\<close>-th access to the
  system fails.  \<open>cut = Some n\<close>: the script is killed at its \<open>n\<close>-th access.  \<open>part\<close>:
  how much of its data a failed or interrupted write leaves behind.  \<open>late\<close>: the killed
  access had taken effect.  Accesses other than writes happen completely or not at all.
\<close>

record shenv =
  e_users :: "string \<Rightarrow> (string \<times> string \<times> string) option"
  e_gnu :: bool
  e_fresh :: string
  e_fails :: "nat \<Rightarrow> bool"
  e_cut :: "nat option"
  e_part :: "nat option"
  e_late :: bool

record shst =
  s_fs :: fs
  s_vars :: "string \<Rightarrow> string"
  s_in :: string
  s_out :: string
  s_who :: "string \<times> string"
  s_umask :: string
  s_n :: nat

datatype ctl = Status nat | Exited nat | Killed

fun piece_val :: "shst \<Rightarrow> piece \<Rightarrow> string" where
  "piece_val s (Quoted t) = t"
| "piece_val s (Bare t) = t"
| "piece_val s (Var v t) = s_vars s v @ t"

definition word_val :: "shst \<Rightarrow> shword \<Rightarrow> string" where
  "word_val s w = concat (map (piece_val s) w)"

primrec test_val :: "shst \<Rightarrow> test \<Rightarrow> bool" where
  "test_val s (IsLink w) = is_link (s_fs s) (word_val s w)"
| "test_val s (Exists w) = (node_at (s_fs s) (word_val s w) \<noteq> None)"
| "test_val s (IsDir w) = is_dir (s_fs s) (word_val s w)"
| "test_val s (IsFile w) = is_file (s_fs s) (word_val s w)"
| "test_val s (NotT t) = (\<not> test_val s t)"

text \<open>
  One access to the system: killed, failed, or done.  \<open>partial\<close> is what an interrupted
  or failed access leaves; \<open>eff\<close> returns \<open>None\<close> where the system call must fail.
\<close>

definition prim :: "shenv \<Rightarrow> (shst \<Rightarrow> shst option) \<Rightarrow> (shst \<Rightarrow> shst) \<Rightarrow> shst \<Rightarrow> ctl \<times> shst" where
  "prim e eff partial s =
     (if e_cut e = Some (s_n s)
        then (Killed, if e_late e then (case eff s of None \<Rightarrow> partial s | Some t \<Rightarrow> t) else partial s)
      else if e_fails e (s_n s) then (Status 1, (partial s)\<lparr>s_n := Suc (s_n s)\<rparr>)
      else (case eff s of
              None \<Rightarrow> (Status 1, s\<lparr>s_n := Suc (s_n s)\<rparr>)
            | Some t \<Rightarrow> (Status 0, t\<lparr>s_n := Suc (s_n s)\<rparr>)))"

definition fs_upd :: "shst \<Rightarrow> string \<Rightarrow> node option \<Rightarrow> shst" where
  "fs_upd s p nd = s\<lparr>s_fs := (s_fs s)(p := nd)\<rparr>"

definition new_attrs :: "shst \<Rightarrow> string \<Rightarrow> attrs" where
  "new_attrs s m = \<lparr>a_uid = fst (s_who s), a_gid = snd (s_who s), a_mode = m\<rparr>"

text \<open>Modes of new files and directories under the two masks that occur.\<close>

definition file_mode :: "shst \<Rightarrow> string" where
  "file_mode s = (if s_umask s = ''077'' then ''600'' else ''644'')"

definition dir_mode :: "shst \<Rightarrow> string" where
  "dir_mode s = (if s_umask s = ''077'' then ''700'' else ''755'')"

text \<open>Writing \<open>data\<close> to a file opened for truncation or for appending.\<close>

definition write_eff :: "bool \<Rightarrow> string \<Rightarrow> string \<Rightarrow> shst \<Rightarrow> shst option" where
  "write_eff onto p data s =
     (case resolve (s_fs s) p of
        None \<Rightarrow> None
      | Some q \<Rightarrow>
          (case s_fs s q of
             Some (Reg c a) \<Rightarrow> Some (fs_upd s q (Some (Reg ((if onto then c else []) @ data) a)))
           | None \<Rightarrow> if is_dir (s_fs s) (dir_of q)
               then Some (fs_upd s q (Some (Reg data (new_attrs s (file_mode s))))) else None
           | _ \<Rightarrow> None))"

definition write_part :: "shenv \<Rightarrow> bool \<Rightarrow> string \<Rightarrow> string \<Rightarrow> shst \<Rightarrow> shst" where
  "write_part e onto p data s =
     (case e_part e of
        None \<Rightarrow> s
      | Some k \<Rightarrow> (case write_eff onto p (take k data) s of None \<Rightarrow> s | Some t \<Rightarrow> t))"

definition read_eff :: "string \<Rightarrow> shst \<Rightarrow> shst option" where
  "read_eff p s =
     (case node_at (s_fs s) p of
        Some (Reg c a) \<Rightarrow> Some (s\<lparr>s_out := s_out s @ c\<rparr>)
      | _ \<Rightarrow> None)"

definition node_attrs :: "node \<Rightarrow> attrs option" where
  "node_attrs nd = (case nd of Reg _ a \<Rightarrow> Some a | Dir a \<Rightarrow> Some a | Link _ \<Rightarrow> None)"

definition set_attrs :: "attrs \<Rightarrow> node \<Rightarrow> node" where
  "set_attrs a nd = (case nd of Reg c _ \<Rightarrow> Reg c a | Dir _ \<Rightarrow> Dir a | Link t \<Rightarrow> Link t)"

text \<open>\<^verbatim>\<open>stat\<close> without \<^verbatim>\<open>-L\<close>; its output has one line of three numbers.\<close>

definition stat_eff :: "string \<Rightarrow> shst \<Rightarrow> shst option" where
  "stat_eff p s =
     (case s_fs s p of
        Some nd \<Rightarrow>
          (case node_attrs nd of
             Some a \<Rightarrow> Some (s\<lparr>s_out := s_out s @ a_uid a @ '' '' @ a_gid a @ '' '' @ a_mode a @ [NL]\<rparr>)
           | None \<Rightarrow> None)
      | None \<Rightarrow> None)"

definition attr_eff :: "(attrs \<Rightarrow> attrs) \<Rightarrow> string \<Rightarrow> shst \<Rightarrow> shst option" where
  "attr_eff g p s =
     (case resolve (s_fs s) p of
        None \<Rightarrow> None
      | Some q \<Rightarrow>
          (case s_fs s q of
             None \<Rightarrow> None
           | Some nd \<Rightarrow> map_option (\<lambda>a. fs_upd s q (Some (set_attrs (g a) nd))) (node_attrs nd)))"

text \<open>
  \<^verbatim>\<open>mktemp\<close> replaces the eight final X of its template and creates the file or
  directory exclusively: it fails when the name is taken, also by a symbolic link.
\<close>

definition temp_name :: "shenv \<Rightarrow> string \<Rightarrow> string" where
  "temp_name e tmpl = take (length tmpl - 8) tmpl @ e_fresh e"

definition mktemp_eff :: "shenv \<Rightarrow> bool \<Rightarrow> string \<Rightarrow> shst \<Rightarrow> shst option" where
  "mktemp_eff e dir tmpl s =
     (let p = temp_name e tmpl in
      if s_fs s p \<noteq> None \<or> \<not> is_dir (s_fs s) (dir_of p) then None
      else Some ((fs_upd s p (Some (if dir then Dir (new_attrs s ''700'')
                                    else Reg [] (new_attrs s ''600''))))
                 \<lparr>s_out := s_out s @ p @ [NL]\<rparr>))"

definition mv_eff :: "string \<Rightarrow> string \<Rightarrow> shst \<Rightarrow> shst option" where
  "mv_eff a b s =
     (let dst = (if is_dir (s_fs s) b then b @ ''/'' @ base_of a else b) in
      (case s_fs s a of
         None \<Rightarrow> None
       | Some nd \<Rightarrow> Some (s\<lparr>s_fs := (s_fs s)(a := None, dst := Some nd)\<rparr>)))"

definition rm_eff :: "string \<Rightarrow> shst \<Rightarrow> shst option" where
  "rm_eff p s = (case s_fs s p of Some (Dir _) \<Rightarrow> None | _ \<Rightarrow> Some (fs_upd s p None))"

definition rmrf_eff :: "string \<Rightarrow> shst \<Rightarrow> shst option" where
  "rmrf_eff p s = Some (s\<lparr>s_fs := (\<lambda>q. if below p q then None else s_fs s q)\<rparr>)"

definition mkdir_eff :: "string \<Rightarrow> shst \<Rightarrow> shst option" where
  "mkdir_eff p s =
     (if s_fs s p \<noteq> None \<or> \<not> is_dir (s_fs s) (dir_of p) then None
      else Some (fs_upd s p (Some (Dir (new_attrs s (dir_mode s))))))"

text \<open>The directories \<^verbatim>\<open>mkdir -p\<close> may create: the path and its ancestors.\<close>

definition ancestors :: "string \<Rightarrow> string list" where
  "ancestors p = map (\<lambda>i. take i p) (filter (\<lambda>i. p ! i = CHR ''/'') [1..<length p]) @ [p]"

definition mkdirp_eff :: "string \<Rightarrow> shst \<Rightarrow> shst option" where
  "mkdirp_eff p s =
     (if \<exists>d \<in> set (ancestors p). s_fs s d \<noteq> None \<and> \<not> is_dir (s_fs s) d then None
      else Some (s\<lparr>s_fs := (\<lambda>d. if d \<in> set (ancestors p) \<and> s_fs s d = None
                                then Some (Dir (new_attrs s (dir_mode s))) else s_fs s d)\<rparr>))"

definition out_eff :: "string \<Rightarrow> shst \<Rightarrow> shst option" where
  "out_eff x s = Some (s\<lparr>s_out := s_out s @ x\<rparr>)"

text \<open>Command substitution takes the output without its final newlines.\<close>

definition strip_nl :: "string \<Rightarrow> string" where
  "strip_nl x = rev (dropWhile (\<lambda>c. c = NL) (rev x))"

text \<open>\<^verbatim>\<open>printf\<close> with the formats the scripts use: \<^verbatim>\<open>%s\<close> and the escape for newline.\<close>

fun printf_val :: "string \<Rightarrow> string list \<Rightarrow> string" where
  "printf_val [] ws = []"
| "printf_val [c] ws = [c]"
| "printf_val (c # d # cs) ws =
     (if c = CHR ''%'' \<and> d = CHR ''s''
        then (case ws of [] \<Rightarrow> printf_val cs [] | w # vs \<Rightarrow> w @ printf_val cs vs)
      else if c = CHR 0x5C \<and> d = CHR ''n'' then NL # printf_val cs ws
      else c # printf_val (d # cs) ws)"

primrec exec :: "shenv \<Rightarrow> cmd \<Rightarrow> shst \<Rightarrow> ctl \<times> shst" where
  "exec e (Umask m) s = (Status 0, s\<lparr>s_umask := m\<rparr>)"
| "exec e (Bracket t) s = (Status (if test_val s t then 0 else 1), s)"
| "exec e (TestCmd t) s = (Status (if test_val s t then 0 else 1), s)"
| "exec e (Exit n) s = (Exited n, s)"
| "exec e (EchoErr x) s = (Status 0, s)"
| "exec e (Echo x) s = (Status 0, s\<lparr>s_out := s_out s @ x @ [NL]\<rparr>)"
| "exec e (Printf f ws) s = (Status 0, s\<lparr>s_out := s_out s @ printf_val f (map (word_val s) ws)\<rparr>)"
| "exec e (Capture v c) s =
     (case exec e c (s\<lparr>s_out := []\<rparr>) of
        (Killed, t) \<Rightarrow> (Killed, t)
      | (Status n, t) \<Rightarrow> (Status n, t\<lparr>s_vars := (s_vars s)(v := strip_nl (s_out t)), s_out := s_out s\<rparr>)
      | (Exited n, t) \<Rightarrow> (Status n, t\<lparr>s_vars := (s_vars s)(v := strip_nl (s_out t)), s_out := s_out s\<rparr>))"
| "exec e (Cat w) s = prim e (read_eff (word_val s w)) id s"
| "exec e (CatTo w) s =
     prim e (write_eff False (word_val s w) (s_in s)) (write_part e False (word_val s w) (s_in s)) s"
| "exec e (CatOnto w) s =
     prim e (write_eff True (word_val s w) (s_in s)) (write_part e True (word_val s w) (s_in s)) s"
| "exec e (StatGnu w) s =
     (if e_gnu e then prim e (stat_eff (word_val s w)) id s else (Status 1, s))"
| "exec e (StatBsd w) s =
     (if e_gnu e then (Status 1, s) else prim e (stat_eff (word_val s w)) id s)"
| "exec e (MkTemp w) s = prim e (mktemp_eff e False (word_val s w)) id s"
| "exec e (MkTempDir w) s = prim e (mktemp_eff e True (word_val s w)) id s"
| "exec e (Chmod m w) s = prim e (attr_eff (a_mode_update (\<lambda>_. word_val s m)) (word_val s w)) id s"
| "exec e (Chown u g w) s =
     prim e (attr_eff (\<lambda>a. a\<lparr>a_uid := word_val s u, a_gid := word_val s g\<rparr>) (word_val s w)) id s"
| "exec e (Mv a b) s = prim e (mv_eff (word_val s a) (word_val s b)) id s"
| "exec e (Rm w) s = prim e (rm_eff (word_val s w)) id s"
| "exec e (RmRf w) s = prim e (rmrf_eff (word_val s w)) id s"
| "exec e (MkDir w) s = prim e (mkdir_eff (word_val s w)) id s"
| "exec e (MkDirP w) s = prim e (mkdirp_eff (word_val s w)) id s"
| "exec e (IdU n) s =
     (case e_users e n of None \<Rightarrow> (Status 1, s) | Some (u, g, h) \<Rightarrow> prim e (out_eff (u @ [NL])) id s)"
| "exec e (IdG n) s =
     (case e_users e n of None \<Rightarrow> (Status 1, s) | Some (u, g, h) \<Rightarrow> prim e (out_eff (g @ [NL])) id s)"
| "exec e IdSelf s = prim e (out_eff (fst (s_who s) @ [NL])) id s"
| "exec e (EchoHome n) s =
     (case e_users e n of
        None \<Rightarrow> prim e (out_eff (CHR ''~'' # n @ [NL])) id s
      | Some (u, g, h) \<Rightarrow> prim e (out_eff (h @ [NL])) id s)"
| "exec e (And a b) s =
     (case exec e a s of (Status 0, t) \<Rightarrow> exec e b t | r \<Rightarrow> r)"
| "exec e (Or a b) s =
     (case exec e a s of (Status (Suc n), t) \<Rightarrow> exec e b t | r \<Rightarrow> r)"
| "exec e (Seq a b) s =
     (case exec e a s of (Status n, t) \<Rightarrow> exec e b t | r \<Rightarrow> r)"
| "exec e (Group c) s = exec e c s"
| "exec e (Subshell c) s =
     (case exec e c s of (Exited n, t) \<Rightarrow> (Status n, t\<lparr>s_vars := s_vars s\<rparr>)
      | (r, t) \<Rightarrow> (r, t\<lparr>s_vars := s_vars s\<rparr>))"
| "exec e (IfThen b c) s = (if test_val s b then exec e c s else (Status 0, s))"
| "exec e (IfElse b c d) s = (if test_val s b then exec e c s else exec e d s)"
| "exec e (IfElif b c b' d d') s =
     (if test_val s b then exec e c s else if test_val s b' then exec e d s else exec e d' s)"
| "exec e (AsUser u c) s =
     (case e_users e u of
        None \<Rightarrow> (Exited 1, s)
      | Some (uid, gid, h) \<Rightarrow>
          (case prim e (\<lambda>t. Some (t\<lparr>s_who := (uid, gid)\<rparr>)) id s of
             (Status 0, t) \<Rightarrow>
               (case exec e c t of (Status n, t') \<Rightarrow> (Exited n, t') | r \<Rightarrow> r)
           | (Status n, t) \<Rightarrow> (Exited n, t)
           | r \<Rightarrow> r))"

section \<open>Verifying scripts\<close>

text \<open>
  \<open>wp e c Q s\<close>: running \<open>c\<close> from \<open>s\<close> ends with a control outcome and a state for which
  \<open>Q\<close> holds.  Every command is total, so the rules are equations for the composite
  commands and one introduction rule for accesses to the system, which has to be
  discharged for the killed, the failed and the successful access.
\<close>

definition wp :: "shenv \<Rightarrow> cmd \<Rightarrow> (ctl \<Rightarrow> shst \<Rightarrow> bool) \<Rightarrow> shst \<Rightarrow> bool" where
  "wp e c Q s = (case exec e c s of (r, t) \<Rightarrow> Q r t)"

definition wpp :: "shenv \<Rightarrow> (shst \<Rightarrow> shst option) \<Rightarrow> (shst \<Rightarrow> shst) \<Rightarrow> (ctl \<Rightarrow> shst \<Rightarrow> bool) \<Rightarrow> shst \<Rightarrow> bool" where
  "wpp e eff partial Q s = (case prim e eff partial s of (r, t) \<Rightarrow> Q r t)"

definition on_ok :: "(shst \<Rightarrow> bool) \<Rightarrow> (ctl \<Rightarrow> shst \<Rightarrow> bool) \<Rightarrow> ctl \<Rightarrow> shst \<Rightarrow> bool" where
  "on_ok P Q r t = (if r = Status 0 then P t else Q r t)"

definition on_bad :: "(shst \<Rightarrow> bool) \<Rightarrow> (ctl \<Rightarrow> shst \<Rightarrow> bool) \<Rightarrow> ctl \<Rightarrow> shst \<Rightarrow> bool" where
  "on_bad P Q r t = (case r of Status (Suc n) \<Rightarrow> P t | _ \<Rightarrow> Q r t)"

definition on_status :: "(shst \<Rightarrow> bool) \<Rightarrow> (ctl \<Rightarrow> shst \<Rightarrow> bool) \<Rightarrow> ctl \<Rightarrow> shst \<Rightarrow> bool" where
  "on_status P Q r t = (case r of Status n \<Rightarrow> P t | _ \<Rightarrow> Q r t)"

named_theorems wp_simps \<open>weakest preconditions of the shell commands\<close>

lemma on_simps [simp]:
  "on_ok P Q (Status 0) t = P t"
  "on_ok P Q (Status (Suc n)) t = Q (Status (Suc n)) t"
  "on_ok P Q (Exited n) t = Q (Exited n) t"
  "on_ok P Q Killed t = Q Killed t"
  "on_bad P Q (Status 0) t = Q (Status 0) t"
  "on_bad P Q (Status (Suc n)) t = P t"
  "on_bad P Q (Exited n) t = Q (Exited n) t"
  "on_bad P Q Killed t = Q Killed t"
  "on_status P Q (Status n) t = P t"
  "on_status P Q (Exited n) t = Q (Exited n) t"
  "on_status P Q Killed t = Q Killed t"
  by (simp_all add: on_ok_def on_bad_def on_status_def)

lemma wp_And [wp_simps]: "wp e (And a b) Q s = wp e a (on_ok (wp e b Q) Q) s"
  by (auto simp: wp_def on_ok_def split: prod.splits ctl.splits nat.splits)

lemma wp_Or [wp_simps]: "wp e (Or a b) Q s = wp e a (on_bad (wp e b Q) Q) s"
  by (auto simp: wp_def on_bad_def split: prod.splits ctl.splits nat.splits)

lemma wp_Seq [wp_simps]: "wp e (Seq a b) Q s = wp e a (on_status (wp e b Q) Q) s"
  by (auto simp: wp_def on_status_def split: prod.splits ctl.splits)

lemma wp_misc [wp_simps]:
  "wp e (Umask m) Q s = Q (Status 0) (s\<lparr>s_umask := m\<rparr>)"
  "wp e (Bracket t) Q s = Q (Status (if test_val s t then 0 else 1)) s"
  "wp e (TestCmd t) Q s = Q (Status (if test_val s t then 0 else 1)) s"
  "wp e (Exit n) Q s = Q (Exited n) s"
  "wp e (EchoErr x) Q s = Q (Status 0) s"
  "wp e (Echo x) Q s = Q (Status 0) (s\<lparr>s_out := s_out s @ x @ [NL]\<rparr>)"
  "wp e (Group c) Q s = wp e c Q s"
  "wp e (IfThen b c) Q s = (if test_val s b then wp e c Q s else Q (Status 0) s)"
  "wp e (IfElse b c d) Q s = (if test_val s b then wp e c Q s else wp e d Q s)"
  by (simp_all add: wp_def)

definition captured :: "shst \<Rightarrow> string \<Rightarrow> (ctl \<Rightarrow> shst \<Rightarrow> bool) \<Rightarrow> ctl \<Rightarrow> shst \<Rightarrow> bool" where
  "captured s v Q r t =
     (let t' = t\<lparr>s_vars := (s_vars s)(v := strip_nl (s_out t)), s_out := s_out s\<rparr> in
      case r of Killed \<Rightarrow> Q Killed t | Status n \<Rightarrow> Q (Status n) t' | Exited n \<Rightarrow> Q (Status n) t')"

lemma wp_Capture [wp_simps]:
  "wp e (Capture v c) Q s = wp e c (captured s v Q) (s\<lparr>s_out := []\<rparr>)"
  by (auto simp: wp_def captured_def split: prod.splits ctl.splits)

lemma wp_access [wp_simps]:
  "wp e (Cat w) Q s = wpp e (read_eff (word_val s w)) id Q s"
  "wp e (CatTo w) Q s =
     wpp e (write_eff False (word_val s w) (s_in s)) (write_part e False (word_val s w) (s_in s)) Q s"
  "wp e (CatOnto w) Q s =
     wpp e (write_eff True (word_val s w) (s_in s)) (write_part e True (word_val s w) (s_in s)) Q s"
  "wp e (MkTemp w) Q s = wpp e (mktemp_eff e False (word_val s w)) id Q s"
  "wp e (MkTempDir w) Q s = wpp e (mktemp_eff e True (word_val s w)) id Q s"
  "wp e (Chmod m w) Q s =
     wpp e (attr_eff (a_mode_update (\<lambda>_. word_val s m)) (word_val s w)) id Q s"
  "wp e (Chown u g w) Q s =
     wpp e (attr_eff (\<lambda>a. a\<lparr>a_uid := word_val s u, a_gid := word_val s g\<rparr>) (word_val s w)) id Q s"
  "wp e (Mv a b) Q s = wpp e (mv_eff (word_val s a) (word_val s b)) id Q s"
  "wp e (Rm w) Q s = wpp e (rm_eff (word_val s w)) id Q s"
  "wp e (RmRf w) Q s = wpp e (rmrf_eff (word_val s w)) id Q s"
  "wp e (MkDir w) Q s = wpp e (mkdir_eff (word_val s w)) id Q s"
  "wp e (MkDirP w) Q s = wpp e (mkdirp_eff (word_val s w)) id Q s"
  by (simp_all add: wp_def wpp_def)

lemma wppI:
  assumes "Q Killed (partial s)" and "\<And>t. eff s = Some t \<Longrightarrow> Q Killed t"
    and "Q (Status 1) ((partial s)\<lparr>s_n := Suc (s_n s)\<rparr>)"
    and "eff s = None \<Longrightarrow> Q (Status 1) (s\<lparr>s_n := Suc (s_n s)\<rparr>)"
    and "\<And>t. eff s = Some t \<Longrightarrow> Q (Status 0) (t\<lparr>s_n := Suc (s_n s)\<rparr>)"
  shows "wpp e eff partial Q s"
  using assms by (auto simp: wpp_def prim_def split: option.splits)

lemma wp_mono: "wp e c Q s \<Longrightarrow> (\<And>r t. Q r t \<Longrightarrow> Q' r t) \<Longrightarrow> wp e c Q' s"
  by (auto simp: wp_def)

lemma word_val_simps [simp]:
  "word_val s [] = []"
  "word_val s (pc # w) = piece_val s pc @ word_val s w"
  by (simp_all add: word_val_def)

subsection \<open>Names\<close>

text \<open>What \<^verbatim>\<open>mktemp\<close> documents: eight letters or digits.\<close>

definition fresh_ok :: "string \<Rightarrow> bool" where
  "fresh_ok x \<longleftrightarrow>
     length x = 8 \<and> (\<forall>c \<in> set x. ascii_char c \<and> \<not> ascii_space c \<and> c \<noteq> CHR ''/'')"

lemma strip_nl_id: "w \<noteq> [] \<Longrightarrow> last w \<noteq> NL \<Longrightarrow> strip_nl (w @ [NL]) = w"
  by (cases w rule: rev_cases) (auto simp: strip_nl_def)

lemma strip_nl_fresh:
  assumes "fresh_ok x"
  shows "strip_nl (d @ x @ [NL]) = d @ x"
proof -
  from assms have "length x = 8" unfolding fresh_ok_def by (rule conjunct1)
  then have ne: "x \<noteq> []" by (intro notI) simp
  have "ascii_space NL" by (simp add: ascii_space_def)
  with assms last_in_set [OF ne] have "last x \<noteq> NL"
    unfolding fresh_ok_def by metis
  note this ne
  then show ?thesis
    using strip_nl_id [of "d @ x"] by simp
qed

lemma temp_name_X [simp]: "temp_name e (d @ ''XXXXXXXX'') = d @ e_fresh e"
  by (simp add: temp_name_def)

end
