(* ===== verification/Write_Policy.thy ===== *)
theory Write_Policy
  imports Go_Base "HOL-Library.Word"
begin

unbundle bit_operations_syntax

text \<open>
  The write policy of remote.go: which user names, modes and ids may reach a remote
  shell (\<open>valid_username\<close>, \<open>validate_opts\<close>), when a directory is safe for a privileged
  write (\<open>dir_writable_by_others\<close>), which targets are refused (\<open>check_write_target\<close>)
  and with whose rights the others are written (\<open>decide_write_opts\<close>).
\<close>

section \<open>Names and numbers that reach a shell\<close>

definition char_in :: "char \<Rightarrow> char \<Rightarrow> char \<Rightarrow> bool" where
  "char_in lo hi c \<longleftrightarrow> (of_char lo :: nat) \<le> of_char c \<and> (of_char c :: nat) \<le> of_char hi"

definition name_start :: "char \<Rightarrow> bool" where
  "name_start c \<longleftrightarrow> char_in (CHR ''a'') (CHR ''z'') c \<or> char_in (CHR ''A'') (CHR ''Z'') c \<or>
     char_in (CHR ''0'') (CHR ''9'') c \<or> c = CHR ''.'' \<or> c = CHR ''_''"

definition valid_username :: "string \<Rightarrow> bool" where
  "valid_username name =
     (case name of [] \<Rightarrow> False
      | c # cs \<Rightarrow> name_start c \<and> list_all (\<lambda>d. name_start d \<or> d = CHR ''-'') cs)"

definition octal_digit :: "char \<Rightarrow> bool" where
  "octal_digit c \<longleftrightarrow> char_in (CHR ''0'') (CHR ''7'') c"

definition valid_mode :: "string \<Rightarrow> bool" where
  "valid_mode m \<longleftrightarrow> (length m = 3 \<or> length m = 4) \<and> list_all octal_digit m"

definition valid_number :: "string \<Rightarrow> bool" where
  "valid_number s \<longleftrightarrow> s \<noteq> [] \<and> list_all (char_in (CHR ''0'') (CHR ''9'')) s"

section \<open>Files, options, targets\<close>

record file_info =
  i_exists :: bool
  i_symlink :: bool
  i_uid :: string
  i_gid :: string
  i_mode :: string

definition absent_info :: file_info where
  "absent_info = \<lparr>i_exists = False, i_symlink = False, i_uid = [], i_gid = [], i_mode = []\<rparr>"

definition symlink_info :: file_info where
  "symlink_info = absent_info\<lparr>i_exists := True, i_symlink := True\<rparr>"

record write_opts =
  o_uid :: string
  o_gid :: string
  o_mode :: string
  o_mkdir :: bool
  o_runas :: string

datatype opts_error = BadMode string | BadOwner string string | BadRunAs string

definition validate_opts :: "write_opts \<Rightarrow> opts_error option" where
  "validate_opts wo =
     (if \<not> valid_mode (o_mode wo) then Some (BadMode (o_mode wo))
      else if o_uid wo \<noteq> [] \<and> (\<not> valid_number (o_uid wo) \<or> \<not> valid_number (o_gid wo))
        then Some (BadOwner (o_uid wo) (o_gid wo))
      else if o_runas wo \<noteq> [] \<and> \<not> valid_username (o_runas wo) then Some (BadRunAs (o_runas wo))
      else None)"

record write_target =
  t_root :: bool
  t_guard_user :: string
  t_user :: string
  t_uid :: string
  t_gid :: string
  t_file :: file_info
  t_dir :: file_info

section \<open>Directory modes\<close>

text \<open>\<^verbatim>\<open>strconv.ParseUint(mode, 8, 32)\<close>: octal digits only, a value that fits 32 bits.\<close>

definition octal_val :: "string \<Rightarrow> nat" where
  "octal_val s = foldl (\<lambda>n c. 8 * n + (of_char c - 48)) 0 s"

definition parse_octal32 :: "string \<Rightarrow> 32 word option" where
  "parse_octal32 s =
     (if s \<noteq> [] \<and> list_all octal_digit s \<and> octal_val s < 2 ^ 32
      then Some (word_of_nat (octal_val s)) else None)"

definition dir_writable_by_others :: "string \<Rightarrow> bool" where
  "dir_writable_by_others mode =
     (case parse_octal32 mode of None \<Rightarrow> True | Some v \<Rightarrow> v AND 0x12 \<noteq> 0)"

definition root_managed :: "write_target \<Rightarrow> bool" where
  "root_managed t \<longleftrightarrow>
     i_exists (t_dir t) \<and> i_uid (t_dir t) = ''0'' \<and> \<not> dir_writable_by_others (i_mode (t_dir t))"

section \<open>The decisions\<close>

datatype handover = Handover string string string

definition check_write_target :: "write_target \<Rightarrow> handover option" where
  "check_write_target t =
     (if \<not> t_root t \<or> t_user t = t_guard_user t \<or> \<not> i_exists (t_file t) then None
      else if root_managed t then None
      else if i_uid (t_file t) \<noteq> [] \<and> i_uid (t_file t) \<noteq> t_uid t
        then Some (Handover (t_user t) (i_uid (t_file t)) (t_uid t))
      else None)"

definition decide_write_opts :: "write_target \<Rightarrow> write_opts" where
  "decide_write_opts t =
     (let opts = (if i_exists (t_file t)
                  then \<lparr>o_uid = [], o_gid = [], o_mode = i_mode (t_file t), o_mkdir = False, o_runas = []\<rparr>
                  else \<lparr>o_uid = [], o_gid = [], o_mode = ''600'', o_mkdir = True, o_runas = []\<rparr>)
      in if \<not> t_root t then opts
         else if t_user t \<noteq> t_guard_user t \<and> \<not> root_managed t then opts\<lparr>o_runas := t_user t\<rparr>
         else if i_exists (t_file t)
           then opts\<lparr>o_uid := i_uid (t_file t), o_gid := i_gid (t_file t)\<rparr>
         else opts\<lparr>o_uid := t_uid t, o_gid := t_gid t\<rparr>)"

section \<open>Properties\<close>

lemma octal_digit_val: "octal_digit c \<Longrightarrow> of_char c - 48 < (8 :: nat)"
  by (auto simp: octal_digit_def char_in_def less_diff_conv2)

lemma octal_digit_cases: "octal_digit c \<Longrightarrow> c \<in> set ''01234567''"
proof -
  assume "octal_digit c"
  then have "(of_char c :: nat) \<in> {48, 49, 50, 51, 52, 53, 54, 55}"
    by (auto simp: octal_digit_def char_in_def)
  then show ?thesis
    by (auto simp flip: of_char_eq_iff [where 'a = nat])
qed

lemma octal_val_two:
  "octal_val (pre @ [g, d]) = 64 * octal_val pre + 8 * (of_char g - 48) + (of_char d - 48)"
  by (simp add: octal_val_def)

lemma bit_18: "bit (18 :: nat) i \<longleftrightarrow> i = 1 \<or> i = 4"
proof (cases "i < 5")
  case True
  then have "i = 0 \<or> i = 1 \<or> i = 2 \<or> i = 3 \<or> i = 4" by arith
  then show ?thesis by (elim disjE) (simp_all add: bit_iff_odd)
next
  case False
  then have "(18 :: nat) < 2 ^ i"
    using power_increasing [of 5 i "2 :: nat"] by simp
  then show ?thesis using False by (simp add: bit_iff_odd)
qed

lemma word_and_18:
  assumes "n < 2 ^ 32"
  shows "(word_of_nat n :: 32 word) AND 0x12 \<noteq> 0 \<longleftrightarrow> odd (n div 2) \<or> odd (n div 16)"
proof -
  let ?w = "word_of_nat n :: 32 word"
  have b: "bit ?w 1 \<longleftrightarrow> odd (n div 2)" "bit ?w 4 \<longleftrightarrow> odd (n div 16)"
    by (simp_all add: bit_of_nat_iff possible_bit_def bit_iff_odd [where 'a = nat])
  have "?w AND 0x12 \<noteq> 0 \<longleftrightarrow> (\<exists>i. bit (?w AND 0x12) i)"
    using bit_eq_iff [of "?w AND 0x12" 0] by auto
  also have "\<dots> \<longleftrightarrow> bit ?w 1 \<or> bit ?w 4"
    using bit_of_nat_iff [of 18, where 'a = "32 word"]
    by (auto simp: bit_and_iff bit_18 possible_bit_def)
  finally show ?thesis using b by simp
qed

text \<open>
  C16: for a mode in octal, only its last two digits count, each for its write bit; any
  set-id, sticky and owner digits in front of them are ignored, and whatever is not an
  octal 32-bit number counts as writable.
\<close>

theorem dir_writable_digits:
  assumes "list_all octal_digit (pre @ [g, d])" and "octal_val (pre @ [g, d]) < 2 ^ 32"
  shows "dir_writable_by_others (pre @ [g, d]) \<longleftrightarrow>
    g \<in> set ''2367'' \<or> d \<in> set ''2367''"
proof -
  define x y k where "x = (of_char g - 48 :: nat)" and "y = (of_char d - 48 :: nat)"
    and "k = octal_val pre"
  have bnd: "x < 8" "y < 8"
    using assms(1) by (auto simp: x_def y_def dest: octal_digit_val)
  have n: "octal_val (pre @ [g, d]) = 64 * k + 8 * x + y"
    by (simp add: octal_val_two x_def y_def k_def)
  have digit: "odd ((of_char c - 48 :: nat) div 2) \<longleftrightarrow> c \<in> set ''2367''" if "octal_digit c" for c
    using octal_digit_cases [OF that] by auto
  have "dir_writable_by_others (pre @ [g, d]) \<longleftrightarrow>
      odd ((64 * k + 8 * x + y) div 2) \<or> odd ((64 * k + 8 * x + y) div 16)"
    using assms n word_and_18 [of "octal_val (pre @ [g, d])"]
    by (simp add: dir_writable_by_others_def parse_octal32_def del: of_nat_add of_nat_mult)
  also have "odd ((64 * k + 8 * x + y) div 2) \<longleftrightarrow> odd (y div 2)"
    by presburger
  also have "odd ((64 * k + 8 * x + y) div 16) \<longleftrightarrow> odd (x div 2)"
  proof -
    have "(64 * k + 8 * x + y) div 16 = (64 * k + 8 * x + y) div 8 div 2"
      by (simp add: div_mult2_eq [of _ 8 2, simplified])
    also have "(64 * k + 8 * x + y) div 8 = 8 * k + x"
      using bnd by simp
    also have "odd ((8 * k + x) div 2) \<longleftrightarrow> odd (x div 2)"
      by presburger
    finally show ?thesis .
  qed
  finally show ?thesis
    using assms(1) digit [of g] digit [of d] by (auto simp: x_def y_def)
qed

theorem dir_writable_digits_witness:
  "list_all octal_digit (''1'' @ ''7'' @ ''55'') \<and> octal_val ((''1'' @ ''7'') @ ''55'') < 2 ^ 32 \<and>
   \<not> dir_writable_by_others (''17'' @ [CHR ''5'', CHR ''5''])"
  using dir_writable_digits [of "''17''" "CHR ''5''" "CHR ''5''"]
  by (simp add: octal_digit_def char_in_def octal_val_def)



text \<open>A drop of privileges and a change of owner are never asked for together.\<close>

lemma runas_excludes_chown:
  "o_runas (decide_write_opts t) \<noteq> [] \<Longrightarrow>
    o_uid (decide_write_opts t) = [] \<and> o_gid (decide_write_opts t) = []"
  by (auto simp: decide_write_opts_def Let_def split: if_splits)

lemma decide_mode: "i_exists (t_file t) \<Longrightarrow> o_mode (decide_write_opts t) = i_mode (t_file t)"
  by (simp add: decide_write_opts_def Let_def)

lemma decide_mode_new: "\<not> i_exists (t_file t) \<Longrightarrow> o_mode (decide_write_opts t) = ''600''"
  by (simp add: decide_write_opts_def Let_def)

lemma decide_mkdir: "o_mkdir (decide_write_opts t) \<longleftrightarrow> \<not> i_exists (t_file t)"
  by (simp add: decide_write_opts_def Let_def)

text \<open>Who owns the file a write under these options creates.\<close>

definition owner_after :: "write_target \<Rightarrow> write_opts \<Rightarrow> string" where
  "owner_after t wo =
     (if o_runas wo \<noteq> [] then t_uid t else if o_uid wo \<noteq> [] then o_uid wo else ''0'')"

text \<open>
  C18: a write by a root guard never changes the owner of an existing file: every target
  that passes the check keeps its owner.  The check refuses exactly the targets where
  the decision alone would hand a file over.
\<close>

theorem check_prevents_handover:
  assumes "t_root t" and "i_exists (t_file t)" and "i_uid (t_file t) \<noteq> []" and "t_user t \<noteq> []"
  shows "check_write_target t = None \<longleftrightarrow>
    owner_after t (decide_write_opts t) = i_uid (t_file t)"
  using assms
  by (auto simp: check_write_target_def decide_write_opts_def owner_after_def Let_def)

text \<open>The case the check is for: a root-owned file in a directory its user controls.\<close>

theorem check_prevents_handover_witness:
  "check_write_target
     \<lparr>t_root = True, t_guard_user = ''root'', t_user = ''alice'', t_uid = ''1000'', t_gid = ''100'',
      t_file = \<lparr>i_exists = True, i_symlink = False, i_uid = ''0'', i_gid = ''0'', i_mode = ''600''\<rparr>,
      t_dir = \<lparr>i_exists = True, i_symlink = False, i_uid = ''1000'', i_gid = ''100'', i_mode = ''700''\<rparr>\<rparr>
   \<noteq> None"
  by (subst check_prevents_handover)
    (simp_all add: owner_after_def decide_write_opts_def root_managed_def)

text \<open>
  C19: the options decided from a \<^verbatim>\<open>stat\<close> of the target pass the validation in front of
  the shell when the ids are numbers, the user name is valid and the mode has three or
  four octal digits; for an existing file the mode is the only thing that can fail.
\<close>

theorem decided_opts_valid:
  assumes "valid_username (t_user t)" and "valid_number (t_uid t)" and "valid_number (t_gid t)"
    and "i_exists (t_file t) \<Longrightarrow> valid_number (i_uid (t_file t)) \<and> valid_number (i_gid (t_file t))"
  shows "validate_opts (decide_write_opts t) =
    (if i_exists (t_file t) \<and> \<not> valid_mode (i_mode (t_file t))
     then Some (BadMode (i_mode (t_file t))) else None)"
proof -
  have "valid_mode ''600''"
    by (simp add: valid_mode_def octal_digit_def char_in_def)
  with assms show ?thesis
    by (auto simp: validate_opts_def decide_write_opts_def Let_def)
qed

theorem decided_opts_valid_witness:
  "validate_opts (decide_write_opts
     \<lparr>t_root = True, t_guard_user = ''root'', t_user = ''alice'', t_uid = ''1000'', t_gid = ''100'',
      t_file = \<lparr>i_exists = True, i_symlink = False, i_uid = ''0'', i_gid = ''0'', i_mode = ''44''\<rparr>,
      t_dir = \<lparr>i_exists = True, i_symlink = False, i_uid = ''0'', i_gid = ''0'', i_mode = ''755''\<rparr>\<rparr>) =
   Some (BadMode ''44'')"
  by (subst decided_opts_valid)
    (simp_all add: valid_username_def name_start_def char_in_def valid_number_def valid_mode_def)

end
