(* ===== verification/Remote_Scripts.thy ===== *)
theory Remote_Scripts
  imports Sh_Exec Write_Policy
begin

text \<open>
  The scripts of remote.go (and the health check of tx.go).  For each there is its text,
  put together as the Go code does, and the command it stands for; the text is shown to
  be the command's.  For \<^verbatim>\<open>SwapFile\<close> that holds only for paths without a single quote,
  because one of its messages takes the path unquoted.
\<close>

section \<open>Reading\<close>

definition stat_text :: "string \<Rightarrow> string" where
  "stat_text path =
     (let q = sh_quote path in
      ''if [ -L '' @ q @ '' ]; then exit 8; elif [ -e '' @ q @ '' ]; then (stat -c '' @ [SQ] @
      ''%u %g %a'' @ [SQ] @ '' '' @ q @ '' 2>/dev/null || stat -f '' @ [SQ] @ ''%u %g %OLp'' @ [SQ] @
      '' '' @ q @ ''); else exit 9; fi'')"

definition stat_cmd :: "string \<Rightarrow> cmd" where
  "stat_cmd path =
     (let q = [Quoted path] in
      IfElif (IsLink q) (Exit 8) (Exists q) (Subshell (Or (StatGnu q) (StatBsd q))) (Exit 9))"

definition read_text :: "string \<Rightarrow> string" where
  "read_text path =
     (let q = sh_quote path in
      ''if [ -e '' @ q @ '' ]; then cat '' @ q @ ''; else exit 9; fi'')"

definition read_cmd :: "string \<Rightarrow> cmd" where
  "read_cmd path = IfElse (Exists [Quoted path]) (Cat [Quoted path]) (Exit 9)"

section \<open>Writing\<close>

definition write_text :: "string \<Rightarrow> string" where
  "write_text path = ''umask 077; cat > '' @ sh_quote path"

definition write_cmd :: "string \<Rightarrow> cmd" where
  "write_cmd path = Seq (Umask ''077'') (CatTo [Quoted path])"

definition append_text :: "string \<Rightarrow> string" where
  "append_text path = ''umask 077; cat >> '' @ sh_quote path"

definition append_cmd :: "string \<Rightarrow> cmd" where
  "append_cmd path = Seq (Umask ''077'') (CatOnto [Quoted path])"

definition remove_text :: "string \<Rightarrow> string" where
  "remove_text path = ''rm -f '' @ sh_quote path"

definition remove_cmd :: "string \<Rightarrow> cmd" where
  "remove_cmd path = Rm [Quoted path]"

definition rmrf_text :: "string \<Rightarrow> string" where
  "rmrf_text path = ''rm -rf '' @ sh_quote path"

definition rmrf_cmd :: "string \<Rightarrow> cmd" where
  "rmrf_cmd path = RmRf [Quoted path]"

section \<open>The atomic replacement\<close>

definition drop_privileges :: "string \<Rightarrow> string \<Rightarrow> string" where
  "drop_privileges script user =
     (if user = [] then script
      else ''if command -v runuser >/dev/null 2>&1; then exec runuser -u '' @ user @
        '' -- /bin/sh -c '' @ sh_quote script @ ''; else exec su '' @ user @ '' -s /bin/sh -c '' @
        sh_quote script @ ''; fi'')"

definition swap_text :: "string \<Rightarrow> write_opts \<Rightarrow> string" where
  "swap_text path wo =
     (let q = sh_quote path; dir = sh_quote (dir_of path); t = DQ # ''$t'' @ [DQ];
          b = ''umask 077; '';
          b = b @ ''if [ -L '' @ q @ '' ]; then echo '' @ [SQ] @ ''refusing: '' @ path @
            '' is a symlink'' @ [SQ] @ '' >&2; exit 8; fi; '';
          b = b @ ''if [ -L '' @ dir @ '' ]; then echo '' @ [SQ] @
            ''refusing: parent directory is a symlink'' @ [SQ] @ '' >&2; exit 8; fi; '';
          b = (if o_mkdir wo
               then b @ ''if [ ! -d '' @ dir @ '' ]; then mkdir -p '' @ dir @ '' && chmod 700 '' @ dir @
                 '' || exit 1; fi; ''
               else b);
          b = b @ ''t=$(mktemp '' @ dir @ ''/.sshkeytx.XXXXXXXX) || exit 1; '';
          b = b @ ''cat > '' @ t @ '' && chmod '' @ sh_quote (o_mode wo) @ '' '' @ t @ '' && '';
          b = (if o_uid wo \<noteq> [] \<and> o_runas wo = []
               then b @ ''chown '' @ sh_quote (o_uid wo) @ '':'' @ sh_quote (o_gid wo) @ '' '' @ t @ '' && ''
               else b);
          b = b @ ''mv -f '' @ t @ '' '' @ q @ '' || { rm -f '' @ t @ ''; exit 1; }''
      in drop_privileges b (o_runas wo))"

definition tvar :: shword where
  "tvar = [Var ''t'' []]"

definition swap_replace :: "string \<Rightarrow> write_opts \<Rightarrow> cmd" where
  "swap_replace path wo =
     (let fill = And (CatTo tvar) (Chmod [Quoted (o_mode wo)] tvar);
          own = (if o_uid wo \<noteq> [] \<and> o_runas wo = []
                 then And fill (Chown [Quoted (o_uid wo)] [Quoted (o_gid wo)] tvar) else fill)
      in Or (And own (Mv tvar [Quoted path])) (Group (Seq (Rm tvar) (Exit 1))))"

definition swap_temp :: "string \<Rightarrow> write_opts \<Rightarrow> cmd" where
  "swap_temp path wo =
     Seq (Or (Capture ''t'' (MkTemp [Quoted (dir_of path), Bare ''/.sshkeytx.XXXXXXXX''])) (Exit 1))
       (swap_replace path wo)"

definition swap_mkdir :: "string \<Rightarrow> write_opts \<Rightarrow> cmd" where
  "swap_mkdir path wo =
     (let d = [Quoted (dir_of path)] in
      if o_mkdir wo
      then Seq (IfThen (NotT (IsDir d)) (Or (And (MkDirP d) (Chmod [Bare ''700''] d)) (Exit 1)))
             (swap_temp path wo)
      else swap_temp path wo)"

definition swap_body :: "string \<Rightarrow> write_opts \<Rightarrow> cmd" where
  "swap_body path wo =
     Seq (Umask ''077'')
       (Seq (IfThen (IsLink [Quoted path])
              (Seq (EchoErr (''refusing: '' @ path @ '' is a symlink'')) (Exit 8)))
         (Seq (IfThen (IsLink [Quoted (dir_of path)])
                (Seq (EchoErr ''refusing: parent directory is a symlink'') (Exit 8)))
           (swap_mkdir path wo)))"

definition swap_cmd :: "string \<Rightarrow> write_opts \<Rightarrow> cmd" where
  "swap_cmd path wo =
     (if o_runas wo = [] then swap_body path wo else AsUser (o_runas wo) (swap_body path wo))"

section \<open>Accounts and the transaction directory\<close>

definition lookup_text :: "string \<Rightarrow> string" where
  "lookup_text name =
     ''uid=$(id -u '' @ name @ '') && gid=$(id -g '' @ name @ '') && home=$(eval echo ~'' @ name @
     '') && printf '' @ [SQ] @ ''%s'' @ [CHR 0x5C] @ ''n%s'' @ [CHR 0x5C] @ ''n%s'' @ [CHR 0x5C] @
     ''n'' @ [SQ] @ '' '' @ DQ # ''$uid'' @ DQ # '' '' @ DQ # ''$gid'' @ DQ # '' '' @ DQ # ''$home'' @ [DQ]"

definition lookup_cmd :: "string \<Rightarrow> cmd" where
  "lookup_cmd name =
     And (And (And (Capture ''uid'' (IdU name)) (Capture ''gid'' (IdG name)))
            (Capture ''home'' (EchoHome name)))
       (Printf (''%s'' @ [CHR 0x5C] @ ''n%s'' @ [CHR 0x5C] @ ''n%s'' @ [CHR 0x5C] @ ''n'')
          [[Var ''uid'' []], [Var ''gid'' []], [Var ''home'' []]])"

definition whoami_text :: string where
  "whoami_text = ''id -u''"

definition mktxdir_text :: "string \<Rightarrow> string \<Rightarrow> string" where
  "mktxdir_text tmp_base txid =
     ''umask 077; d=$(mktemp -d '' @ sh_quote tmp_base @ ''/sshkeytx-'' @ txid @
     ''.XXXXXXXX) || exit 1; mkdir '' @ DQ # ''$d/backup'' @ DQ # '' && printf '' @ [SQ] @ ''%s'' @ [SQ] @
     '' '' @ DQ # ''$d'' @ [DQ]"

definition mktxdir_cmd :: "string \<Rightarrow> string \<Rightarrow> cmd" where
  "mktxdir_cmd tmp_base txid =
     Seq (Umask ''077'')
       (Seq (Or (Capture ''d''
                   (MkTempDir [Quoted tmp_base, Bare ''/sshkeytx-'', Bare txid, Bare ''.XXXXXXXX'']))
                (Exit 1))
         (And (MkDir [Var ''d'' ''/backup'']) (Printf ''%s'' [[Var ''d'' []]])))"

definition health_text :: "string \<Rightarrow> string" where
  "health_text txdir =
     ''test -f '' @ sh_quote txdir @ ''/ready && { test ! -f '' @ sh_quote txdir @
     ''/restored || echo RESTORED; }''"

definition health_cmd :: "string \<Rightarrow> cmd" where
  "health_cmd txdir =
     And (TestCmd (IsFile [Quoted txdir, Bare ''/ready'']))
       (Group (Or (TestCmd (NotT (IsFile [Quoted txdir, Bare ''/restored''])))
                  (Echo ''RESTORED'')))"

section \<open>The texts are those of the commands\<close>

lemma sh_quote_plain: "SQ \<notin> set s \<Longrightarrow> sh_quote s = SQ # s @ [SQ]"
proof -
  assume "SQ \<notin> set s"
  then have "concat (map (\<lambda>c. if c = SQ then [SQ, CHR 0x5C, SQ, SQ] else [c]) s) = s"
    by (induction s) auto
  then show ?thesis by (simp add: sh_quote_def)
qed

lemma dec_digit [simp]: "dec 1 = ''1''" "dec 8 = ''8''" "dec 9 = ''9''" "dec (Suc 0) = ''1''"
  by (simp_all add: dec.simps char_of_eq_iff)

lemma simple_texts:
  "render (stat_cmd path) = stat_text path"
  "render (read_cmd path) = read_text path"
  "render (write_cmd path) = write_text path"
  "render (append_cmd path) = append_text path"
  "render (remove_cmd path) = remove_text path"
  "render (rmrf_cmd path) = rmrf_text path"
  "render (lookup_cmd name) = lookup_text name"
  "render IdSelf = whoami_text"
  "render (mktxdir_cmd tmp_base txid) = mktxdir_text tmp_base txid"
  "render (health_cmd txdir) = health_text txdir"
  by (simp_all add: stat_cmd_def stat_text_def read_cmd_def read_text_def write_cmd_def write_text_def
      append_cmd_def append_text_def remove_cmd_def remove_text_def rmrf_cmd_def rmrf_text_def
      lookup_cmd_def lookup_text_def whoami_text_def mktxdir_cmd_def mktxdir_text_def
      health_cmd_def health_text_def render_word_def sh_quote_plain Let_def)

text \<open>
  The text of \<^verbatim>\<open>SwapFile\<close>'s script.  With a single quote in the path the refusal message
  is not the word it is meant to be.
\<close>

lemma render_swap_body:
  assumes "SQ \<notin> set path" and "o_runas wo = []"
  shows "render (swap_body path wo) = swap_text path wo"
  using assms
  by (simp add: swap_body_def swap_text_def swap_mkdir_def swap_temp_def swap_replace_def tvar_def
      drop_privileges_def render_word_def sh_quote_plain Let_def)

lemma swap_text_runas:
  "swap_text path wo =
    drop_privileges (swap_text path (wo\<lparr>o_runas := [], o_uid := (if o_runas wo = [] then o_uid wo else [])\<rparr>))
      (o_runas wo)"
  by (simp add: swap_text_def drop_privileges_def Let_def)

lemma swap_body_runas:
  "swap_body path wo =
    swap_body path (wo\<lparr>o_runas := [], o_uid := (if o_runas wo = [] then o_uid wo else [])\<rparr>)"
  by (simp add: swap_body_def swap_mkdir_def swap_temp_def swap_replace_def Let_def)

lemma render_as_user: "u \<noteq> [] \<Longrightarrow> render (AsUser u c) = drop_privileges (render c) u"
  by (simp add: drop_privileges_def)

lemma render_swap: "SQ \<notin> set path \<Longrightarrow> render (swap_cmd path wo) = swap_text path wo"
proof (cases "o_runas wo = []")
  case False
  assume sq: "SQ \<notin> set path"
  let ?wo = "wo\<lparr>o_runas := [], o_uid := (if o_runas wo = [] then o_uid wo else [])\<rparr>"
  have "render (swap_cmd path wo) = drop_privileges (render (swap_body path ?wo)) (o_runas wo)"
    using False swap_body_runas [of path wo] by (simp add: swap_cmd_def render_as_user del: render.simps)
  also have "render (swap_body path ?wo) = swap_text path ?wo"
    by (rule render_swap_body) (simp_all add: sq)
  finally show ?thesis
    using swap_text_runas [of path wo] by simp
qed (simp add: swap_cmd_def render_swap_body)

lemma drop_privileges_inj:
  assumes "drop_privileges a u = drop_privileges b u"
  shows "a = b"
proof (cases "u = []")
  case False
  let ?tail = "\<lambda>x. ''; else exec su '' @ u @ '' -s /bin/sh -c '' @ sh_quote x @ ''; fi''"
  have "sh_quote a @ ?tail a = sh_quote b @ ?tail b"
    using assms False by (simp add: drop_privileges_def)
  moreover have "sh_word False (sh_quote x @ ?tail x) = Some (x, ?tail x)" for x
    by (rule sh_quote_word) (simp add: word_end_def sh_meta_def)
  ultimately show ?thesis
    by (metis option.inject prod.inject)
qed (use assms in \<open>simp add: drop_privileges_def\<close>)

lemma length_escaped:
  "length (concat (map (\<lambda>c. if c = SQ then [SQ, CHR 0x5C, SQ, SQ] else [c]) s)) =
    length s + 3 * count_list s SQ"
  by (induction s) auto

text \<open>
  C20: the script \<^verbatim>\<open>SwapFile\<close> sends is the modelled command exactly when the path has no
  single quote in it.
\<close>

theorem swap_text_faithful_iff:
  "swap_text path wo = render (swap_cmd path wo) \<longleftrightarrow> SQ \<notin> set path"
proof
  let ?wo = "wo\<lparr>o_runas := [], o_uid := (if o_runas wo = [] then o_uid wo else [])\<rparr>"
  assume eq: "swap_text path wo = render (swap_cmd path wo)"
  have "render (swap_cmd path wo) = drop_privileges (render (swap_body path ?wo)) (o_runas wo)"
    using swap_body_runas [of path wo]
    by (cases "o_runas wo = []") (simp_all add: swap_cmd_def render_as_user drop_privileges_def [of _ "[]"] del: render.simps)
  with eq have "swap_text path ?wo = render (swap_body path ?wo)"
    using swap_text_runas [of path wo] by (metis drop_privileges_inj)
  then have "length (swap_text path ?wo) = length (render (swap_body path ?wo))"
    by simp
  then have "count_list path SQ = 0"
    by (cases "o_mkdir wo"; cases "o_uid wo = []"; cases "o_runas wo = []")
      (simp_all add: swap_body_def swap_text_def swap_mkdir_def swap_temp_def swap_replace_def tvar_def
      drop_privileges_def render_word_def sh_quote_def length_escaped Let_def)
  then show "SQ \<notin> set path"
    by (simp add: count_list_0_iff)
qed (simp add: render_swap)

text \<open>The word \<^verbatim>\<open>echo\<close> is given to print the refusal, as the Go code writes it.\<close>

definition refusal_arg :: "string \<Rightarrow> string" where
  "refusal_arg path = SQ # ''refusing: '' @ path @ '' is a symlink'' @ [SQ]"

lemma swap_text_refusal:
  "contains (swap_text path (wo\<lparr>o_runas := []\<rparr>)) (''echo '' @ refusal_arg path @ '' >&2'')"
proof -
  have "\<exists>x y. swap_text path (wo\<lparr>o_runas := []\<rparr>) = x @ (''echo '' @ refusal_arg path @ '' >&2'') @ y"
    unfolding swap_text_def Let_def drop_privileges_def refusal_arg_def
    by (rule exI [of _ "''umask 077; if [ -L '' @ sh_quote path @ '' ]; then ''"]) simp
  then show ?thesis by (metis contains_append)
qed

lemma sh_word_quoted:
  "SQ \<notin> set a \<Longrightarrow> sh_word True (a @ SQ # r) = map_option (\<lambda>(w, r'). (a @ w, r')) (sh_word False r)"
proof (induction a)
  case Nil
  then show ?case by (cases "sh_word False r") auto
next
  case (Cons c a)
  then show ?case by (cases "sh_word False r") auto
qed

text \<open>
  With a quote in the path the script is not the one intended.  A path \<open>a';b\<close> makes
  the refusal message end after \<open>a\<close>, and the command separator and \<open>b\<close> follow unquoted:
  the rest of the path is shell code.
\<close>

theorem swap_refusal_injects:
  assumes "SQ \<notin> set a" and "o_runas wo = []" and "path = a @ SQ # CHR '';'' # b"
  shows "contains (swap_text path wo) (''echo '' @ refusal_arg path @ '' >&2'') \<and>
    sh_word False (refusal_arg path) = Some (''refusing: '' @ a, CHR '';'' # b @ '' is a symlink'' @ [SQ])"
proof
  have "wo\<lparr>o_runas := []\<rparr> = wo" using assms(2) by simp
  then show "contains (swap_text path wo) (''echo '' @ refusal_arg path @ '' >&2'')"
    using swap_text_refusal [of path wo] by metis
  show "sh_word False (refusal_arg path) = Some (''refusing: '' @ a, CHR '';'' # b @ '' is a symlink'' @ [SQ])"
    using sh_word_quoted [of "''refusing: '' @ a" "CHR '';'' # b @ '' is a symlink'' @ [SQ]"] assms
    by (simp add: refusal_arg_def sh_meta_def)
qed

theorem swap_refusal_injects_witness:
  "sh_word False (refusal_arg (''/x'' @ [SQ] @ ''; fi; touch /pwned; if : '' @ [SQ] @ ''/authorized_keys'')) =
    Some (''refusing: /x'',
      ''; fi; touch /pwned; if : '' @ [SQ] @ ''/authorized_keys is a symlink'' @ [SQ])"
  using swap_refusal_injects [of "''/x''" "\<lparr>o_uid = [], o_gid = [], o_mode = ''600'', o_mkdir = True, o_runas = []\<rparr>"
      "''/x'' @ [SQ] @ ''; fi; touch /pwned; if : '' @ [SQ] @ ''/authorized_keys''"
      "'' fi; touch /pwned; if : '' @ [SQ] @ ''/authorized_keys''"]
  by (simp del: contains.simps)

end
