(* ===== verification/Swap_Contract.thy ===== *)
theory Swap_Contract
  imports Remote_Scripts
begin

text \<open>
  What the scripts of Remote_Scripts do to the file system, proved with the rules of
  Sh_Exec for every choice of faults: which paths each one may change, what a success
  means, and for \<^verbatim>\<open>SwapFile\<close> that the target holds the old node or the new content and
  nothing between.
\<close>

section \<open>Frames\<close>

text \<open>\<open>only P f g\<close>: from \<open>f\<close> to \<open>g\<close> nothing changed outside \<open>P\<close>.\<close>

definition only :: "string set \<Rightarrow> fs \<Rightarrow> fs \<Rightarrow> bool" where
  "only P f g \<longleftrightarrow> (\<forall>q. q \<notin> P \<longrightarrow> g q = f q)"

lemma only_refl [simp, intro]: "only P f f"
  by (simp add: only_def)

lemma only_trans: "only P f g \<Longrightarrow> only P g h \<Longrightarrow> only P f h"
  by (simp add: only_def)

lemma only_mono: "only P f g \<Longrightarrow> P \<subseteq> P' \<Longrightarrow> only P' f g"
  by (auto simp: only_def)

lemma only_upd [simp]: "only P f (f(p := x)) \<longleftrightarrow> p \<in> P \<or> f p = x"
  by (auto simp: only_def)

lemma onlyD: "only P f g \<Longrightarrow> q \<notin> P \<Longrightarrow> g q = f q"
  by (simp add: only_def)

text \<open>\<open>grows f g\<close>: no node of \<open>f\<close> is changed.\<close>

definition grows :: "fs \<Rightarrow> fs \<Rightarrow> bool" where
  "grows f g \<longleftrightarrow> (\<forall>q. f q \<noteq> None \<longrightarrow> g q = f q)"

lemma grows_refl [simp, intro]: "grows f f"
  by (simp add: grows_def)

lemma grows_trans: "grows f g \<Longrightarrow> grows g h \<Longrightarrow> grows f h"
  by (simp add: grows_def)

text \<open>The rest of a script's state that no command of a swap changes.\<close>

definition same_rest :: "shst \<Rightarrow> shst \<Rightarrow> bool" where
  "same_rest s t \<longleftrightarrow> s_vars t = s_vars s \<and> s_in t = s_in s \<and> s_who t = s_who s"

lemma same_rest_simps [simp]:
  "same_rest s s"
  "same_rest s (t\<lparr>s_n := k\<rparr>) = same_rest s t"
  "same_rest s (t\<lparr>s_fs := f\<rparr>) = same_rest s t"
  by (simp_all add: same_rest_def)

section \<open>Writing and reading one file\<close>

lemma write_eff_reg:
  "s_fs s p = Some (Reg c a) \<Longrightarrow>
    write_eff onto p data s = Some (fs_upd s p (Some (Reg ((if onto then c else []) @ data) a)))"
  by (simp add: write_eff_def resolve_no_link)

lemma write_eff_only:
  "\<not> is_link (s_fs s) p \<Longrightarrow> write_eff onto p data s = Some t \<Longrightarrow>
    \<exists>a. t = fs_upd s p (Some (Reg ((case s_fs s p of Some (Reg c _) \<Rightarrow> if onto then c else [] | _ \<Rightarrow> []) @ data) a))"
  by (auto simp: write_eff_def resolve_no_link split: option.splits node.splits if_splits)

lemma write_part_only:
  "\<not> is_link (s_fs s) p \<Longrightarrow>
    write_part e onto p data s = s \<or>
    (\<exists>k a. write_part e onto p data s =
      fs_upd s p (Some (Reg ((case s_fs s p of Some (Reg c _) \<Rightarrow> if onto then c else [] | _ \<Rightarrow> []) @ take k data) a)))"
proof (cases "e_part e")
  case (Some k)
  moreover assume "\<not> is_link (s_fs s) p"
  ultimately show ?thesis
    using write_eff_only [of s p onto "take k data"]
    by (cases "write_eff onto p (take k data) s") (auto simp: write_part_def)
qed (simp add: write_part_def)

lemma write_part_reg:
  "s_fs s p = Some (Reg c a) \<Longrightarrow>
    write_part e onto p data s = s \<or>
    (\<exists>k. write_part e onto p data s = fs_upd s p (Some (Reg ((if onto then c else []) @ take k data) a)))"
  by (auto simp: write_part_def write_eff_reg split: option.splits)

lemma fs_upd_simps [simp]:
  "s_fs (fs_upd s p x) = (s_fs s)(p := x)"
  "s_vars (fs_upd s p x) = s_vars s"
  "s_in (fs_upd s p x) = s_in s"
  "s_out (fs_upd s p x) = s_out s"
  "s_who (fs_upd s p x) = s_who s"
  "s_umask (fs_upd s p x) = s_umask s"
  "same_rest r (fs_upd s p x) = same_rest r s"
  by (simp_all add: fs_upd_def same_rest_def)

lemma attr_eff_reg:
  "s_fs s p = Some (Reg c a) \<Longrightarrow> attr_eff g p s = Some (fs_upd s p (Some (Reg c (g a))))"
  by (simp add: attr_eff_def resolve_no_link node_attrs_def set_attrs_def)

section \<open>The replacement step of a swap\<close>

text \<open>
  While the temporary file is being filled, the state differs from the start only in that
  file.
\<close>

definition filling :: "shst \<Rightarrow> string \<Rightarrow> shst \<Rightarrow> bool" where
  "filling s tmp t \<longleftrightarrow>
     (\<exists>c a. s_fs t tmp = Some (Reg c a)) \<and> only {tmp} (s_fs s) (s_fs t) \<and> same_rest s t"

text \<open>
  A step of the chain \<^verbatim>\<open>a && b && c\<close>: it ends in \<open>P\<close> with status 0, or else, failed or
  killed, with the temporary file still in the filling.
\<close>

definition step_post :: "(shst \<Rightarrow> bool) \<Rightarrow> (shst \<Rightarrow> bool) \<Rightarrow> ctl \<Rightarrow> shst \<Rightarrow> bool" where
  "step_post P F r t \<longleftrightarrow> (if r = Status 0 then P t else (r = Status 1 \<or> r = Killed) \<and> F t)"

lemma step_And:
  assumes "wp e a (step_post P F) s" and "\<And>t. P t \<Longrightarrow> wp e b (step_post P' F) t"
  shows "wp e (And a b) (step_post P' F) s"
  using assms by (auto simp: wp_simps on_ok_def step_post_def elim!: wp_mono)

lemma step_And_last:
  assumes "wp e a (step_post P F) s" and "\<And>t. P t \<Longrightarrow> wp e b Q t"
    and "\<And>r t. r = Status 1 \<or> r = Killed \<Longrightarrow> F t \<Longrightarrow> Q r t"
  shows "wp e (And a b) Q s"
  using assms by (auto simp: wp_simps on_ok_def step_post_def elim!: wp_mono)

definition filled :: "shst \<Rightarrow> string \<Rightarrow> string \<Rightarrow> attrs \<Rightarrow> shst \<Rightarrow> bool" where
  "filled s tmp c a t \<longleftrightarrow> s_fs t = (s_fs s)(tmp := Some (Reg c a)) \<and> same_rest s t"

lemma filled_filling: "filled s tmp c a t \<Longrightarrow> filling s tmp t"
  by (auto simp: filled_def filling_def)

lemma fill_step:
  assumes "filled s tmp c a t" and "s_vars s ''t'' = tmp"
  shows "wp e (CatTo tvar) (step_post (filled s tmp (s_in s) a) (filling s tmp)) t"
proof -
  have tmp: "s_fs t tmp = Some (Reg c a)" using assms by (simp add: filled_def)
  show ?thesis
    using assms write_eff_reg [OF tmp, of False "s_in s"] write_part_reg [OF tmp, of e False "s_in s"]
    unfolding wp_simps
    by (intro wppI) (auto simp: filling_def filled_def step_post_def tvar_def same_rest_def)
qed

lemma attr_step:
  assumes "filled s tmp c a t"
  shows "wpp e (attr_eff g tmp) id (step_post (filled s tmp c (g a)) (filling s tmp)) t"
proof -
  have tmp: "s_fs t tmp = Some (Reg c a)" using assms by (simp add: filled_def)
  show ?thesis
    using assms attr_eff_reg [OF tmp, of g]
    by (intro wppI) (auto simp: filling_def filled_def step_post_def)
qed

lemma filled_var: "filled s tmp c a t \<Longrightarrow> s_vars s ''t'' = tmp \<Longrightarrow> word_val t tvar = tmp"
  by (simp add: filled_def same_rest_def tvar_def)

lemma chmod_step:
  assumes "filled s tmp c a t" and "s_vars s ''t'' = tmp"
  shows "wp e (Chmod [Quoted m] tvar) (step_post (filled s tmp c (a\<lparr>a_mode := m\<rparr>)) (filling s tmp)) t"
  using attr_step [OF assms(1), of e "a_mode_update (\<lambda>_. m)"]
  by (simp add: wp_simps filled_var [OF assms])

lemma chown_step:
  assumes "filled s tmp c a t" and "s_vars s ''t'' = tmp"
  shows "wp e (Chown [Quoted u] [Quoted g] tvar)
    (step_post (filled s tmp c (a\<lparr>a_uid := u, a_gid := g\<rparr>)) (filling s tmp)) t"
  using attr_step [OF assms(1), of e "\<lambda>a. a\<lparr>a_uid := u, a_gid := g\<rparr>"]
  by (simp add: wp_simps filled_var [OF assms])

text \<open>The owner and mode the new file has.\<close>

definition new_file :: "string \<times> string \<Rightarrow> write_opts \<Rightarrow> attrs" where
  "new_file who wo =
     (if o_uid wo \<noteq> [] \<and> o_runas wo = []
      then \<lparr>a_uid = o_uid wo, a_gid = o_gid wo, a_mode = o_mode wo\<rparr>
      else \<lparr>a_uid = fst who, a_gid = snd who, a_mode = o_mode wo\<rparr>)"

text \<open>The state after the rename, and the answers of a swap.\<close>

definition moved :: "shst \<Rightarrow> string \<Rightarrow> string \<Rightarrow> attrs \<Rightarrow> shst \<Rightarrow> bool" where
  "moved s tmp p a t \<longleftrightarrow> s_fs t = (s_fs s)(tmp := None, p := Some (Reg (s_in s) a))"

definition unmoved :: "shst \<Rightarrow> string \<Rightarrow> shst \<Rightarrow> bool" where
  "unmoved s tmp t \<longleftrightarrow> only {tmp} (s_fs s) (s_fs t)"

definition swap_post :: "shst \<Rightarrow> string \<Rightarrow> string \<Rightarrow> attrs \<Rightarrow> ctl \<Rightarrow> shst \<Rightarrow> bool" where
  "swap_post s tmp p a r t \<longleftrightarrow>
     (case r of
        Status n \<Rightarrow> n = 0 \<and> moved s tmp p a t
      | Exited n \<Rightarrow> n \<noteq> 0 \<and> unmoved s tmp t
      | Killed \<Rightarrow> unmoved s tmp t \<or> moved s tmp p a t)"

lemma wp_cleanup:
  assumes "filling s tmp t" and "s_vars s ''t'' = tmp"
  shows "wp e (Group (Seq (Rm tvar) (Exit 1))) (swap_post s tmp p a) t"
  using assms unfolding filling_def
  by (auto simp: wp_simps tvar_def swap_post_def unmoved_def rm_eff_def same_rest_def only_def
      intro!: wppI)

lemma mv_step:
  assumes "filled s tmp (s_in s) a t" and "s_vars s ''t'' = tmp"
    and p: "tmp \<noteq> p" "\<not> is_dir (s_fs s) p" "\<not> is_link (s_fs s) p"
  shows "wp e (Mv tvar [Quoted p])
    (\<lambda>r t. if r = Status 0 then moved s tmp p a t
      else r = Status 1 \<and> filling s tmp t \<or> r = Killed \<and> (filling s tmp t \<or> moved s tmp p a t)) t"
proof -
  have f: "s_fs t = (s_fs s)(tmp := Some (Reg (s_in s) a))"
    using assms(1) by (simp add: filled_def)
  have "\<not> is_dir (s_fs t) p"
    using p by (simp add: f is_dir_def node_at_no_link is_link_def)
  then have "mv_eff tmp p t = Some (t\<lparr>s_fs := (s_fs s)(tmp := None, p := Some (Reg (s_in s) a))\<rparr>)"
    using p by (simp add: mv_eff_def f)
  with filled_filling [OF assms(1)] show ?thesis
    unfolding wp_simps filled_var [OF assms(1,2)]
    by (intro wppI) (auto simp: moved_def filling_def)
qed

lemma wp_swap_replace:
  assumes tmp: "s_vars s ''t'' = tmp" "s_fs s tmp = Some (Reg [] \<lparr>a_uid = fst who, a_gid = snd who, a_mode = m\<rparr>)"
    and p: "tmp \<noteq> p" "\<not> is_dir (s_fs s) p" "\<not> is_link (s_fs s) p"
  shows "wp e (swap_replace p wo) (swap_post s tmp p (new_file who wo)) s"
proof -
  let ?a0 = "\<lparr>a_uid = fst who, a_gid = snd who, a_mode = m\<rparr>"
  let ?fill = "And (CatTo tvar) (Chmod [Quoted (o_mode wo)] tvar)"
  let ?own = "if o_uid wo \<noteq> [] \<and> o_runas wo = []
    then And ?fill (Chown [Quoted (o_uid wo)] [Quoted (o_gid wo)] tvar) else ?fill"
  have start: "filled s tmp [] ?a0 s"
    using tmp(2) by (auto simp: filled_def fun_upd_idem)
  have fill: "wp e ?fill (step_post (filled s tmp (s_in s) (?a0\<lparr>a_mode := o_mode wo\<rparr>)) (filling s tmp)) s"
    by (rule step_And [OF fill_step [OF start tmp(1)] chmod_step]) (simp_all add: tmp(1))
  have own: "wp e ?own (step_post (filled s tmp (s_in s) (new_file who wo)) (filling s tmp)) s"
  proof (cases "o_uid wo \<noteq> [] \<and> o_runas wo = []")
    case True
    show ?thesis
      unfolding if_P [OF True]
      by (rule step_And [OF fill]) (use chown_step [OF _ tmp(1)] True in \<open>force simp: new_file_def\<close>)
  next
    case False
    then show ?thesis
      using fill by (auto simp: new_file_def)
  qed
  let ?Q = "swap_post s tmp p (new_file who wo)"
  let ?clean = "Group (Seq (Rm tvar) (Exit 1))"
  have bad: "on_bad (wp e ?clean ?Q) ?Q r t" if "r = Status 1 \<or> r = Killed" "filling s tmp t" for r t
    using that wp_cleanup [OF that(2) tmp(1)]
    by (auto simp: swap_post_def unmoved_def filling_def)
  have "wp e (And ?own (Mv tvar [Quoted p])) (on_bad (wp e ?clean ?Q) ?Q) s"
  proof (rule step_And_last [OF own _ bad])
    fix t assume "filled s tmp (s_in s) (new_file who wo) t"
    from mv_step [OF this tmp(1) p] show "wp e (Mv tvar [Quoted p]) (on_bad (wp e ?clean ?Q) ?Q) t"
    proof (rule wp_mono)
      fix r t'
      assume a: "if r = Status 0 then moved s tmp p (new_file who wo) t'
        else r = Status 1 \<and> filling s tmp t' \<or> r = Killed \<and> (filling s tmp t' \<or> moved s tmp p (new_file who wo) t')"
      show "on_bad (wp e ?clean ?Q) ?Q r t'"
      proof (cases "r = Status 0 \<or> r = Killed \<and> moved s tmp p (new_file who wo) t'")
        case True
        then show ?thesis using a by (auto simp: swap_post_def)
      next
        case False
        with a have "r = Status 1 \<or> r = Killed" "filling s tmp t'"
          by (auto split: if_splits)
        then show ?thesis by (rule bad)
      qed
    qed
  qed
  then show ?thesis
    unfolding swap_replace_def Let_def wp_Or .
qed


section \<open>The whole swap\<close>

definition swap_tmp :: "shenv \<Rightarrow> string \<Rightarrow> string" where
  "swap_tmp e path = dir_of path @ ''/.sshkeytx.'' @ e_fresh e"

definition swap_dirs :: "string \<Rightarrow> write_opts \<Rightarrow> string set" where
  "swap_dirs path wo = (if o_mkdir wo then set (ancestors (dir_of path)) else {})"

text \<open>
  Whatever happens, only the target, the temporary file and (with \<^verbatim>\<open>MkdirFor\<close>) missing
  parent directories change, and nothing that existed besides the target.
\<close>

definition swap_frame :: "shenv \<Rightarrow> string \<Rightarrow> write_opts \<Rightarrow> fs \<Rightarrow> fs \<Rightarrow> bool" where
  "swap_frame e p wo f g \<longleftrightarrow>
     only (insert p (insert (swap_tmp e p) (swap_dirs p wo))) f g \<and> grows (f(p := None)) (g(p := None))"

definition swap_outcome ::
  "shenv \<Rightarrow> string \<Rightarrow> write_opts \<Rightarrow> string \<Rightarrow> attrs \<Rightarrow> fs \<Rightarrow> ctl \<Rightarrow> fs \<Rightarrow> bool" where
  "swap_outcome e p wo content a f r g \<longleftrightarrow>
     swap_frame e p wo f g \<and>
     (case r of
        Status n \<Rightarrow> n = 0 \<and> g p = Some (Reg content a)
      | Exited n \<Rightarrow> n \<noteq> 0 \<and> g p = f p
      | Killed \<Rightarrow> g p = f p \<or> g p = Some (Reg content a))"

text \<open>The state a script has reached after making directories.\<close>

definition prepared :: "string \<Rightarrow> write_opts \<Rightarrow> shst \<Rightarrow> shst \<Rightarrow> bool" where
  "prepared p wo s t \<longleftrightarrow>
     only (swap_dirs p wo) (s_fs s) (s_fs t) \<and> grows (s_fs s) (s_fs t) \<and> s_fs t p = s_fs s p \<and>
     s_in t = s_in s \<and> s_who t = s_who s"

lemma swap_post_outcome:
  assumes post: "swap_post u (swap_tmp e p) p a r t"
    and u: "only {swap_tmp e p} (s_fs s') (s_fs u)" "s_in u = s_in s" and prep: "prepared p wo s s'"
    and tmp: "s_fs s' (swap_tmp e p) = None" "swap_tmp e p \<noteq> p"
  shows "swap_outcome e p wo (s_in s) a (s_fs s) r (s_fs t)"
proof -
  let ?tmp = "swap_tmp e p"
  have free: "s_fs s ?tmp = None"
    using prep tmp(1) unfolding prepared_def grows_def by metis
  have frame: "swap_frame e p wo (s_fs s) (s_fs t)" if off: "only {?tmp, p} (s_fs s') (s_fs t)"
    using prep off free unfolding prepared_def only_def grows_def swap_frame_def
    by (auto, metis option.distinct(1))
  have old: "only {?tmp, p} (s_fs s') (s_fs t) \<and> s_fs t p = s_fs s p" if "unmoved u ?tmp t"
    using that u(1) prep tmp(2) by (auto simp: unmoved_def prepared_def only_def)
  have new: "only {?tmp, p} (s_fs s') (s_fs t) \<and> s_fs t p = Some (Reg (s_in s) a)" if "moved u ?tmp p a t"
    using that u by (auto simp: moved_def only_def)
  show ?thesis
    using post old new frame by (cases r) (auto simp: swap_post_def swap_outcome_def)
qed

lemma swap_outcome_early:
  assumes prep: "prepared p wo s t" and r: "r = Killed \<or> (\<exists>n. r = Exited (Suc n))"
    and u: "s_fs u = s_fs t \<or> s_fs u = (s_fs t)(swap_tmp e p := x) \<and> s_fs t (swap_tmp e p) = None"
    and tmp: "swap_tmp e p \<noteq> p"
  shows "swap_outcome e p wo (s_in s) a (s_fs s) r (s_fs u)"
proof -
  have "s_fs s (swap_tmp e p) = None" if "s_fs t (swap_tmp e p) = None"
    using prep that unfolding prepared_def grows_def by metis
  with prep u tmp have "swap_frame e p wo (s_fs s) (s_fs u)" "s_fs u p = s_fs s p"
    by (auto simp: swap_frame_def prepared_def only_def grows_def)
  with r show ?thesis by (auto simp: swap_outcome_def)
qed

lemma wp_swap_temp:
  assumes prep: "prepared p wo s t" and fresh: "fresh_ok (e_fresh e)" and tmp: "swap_tmp e p \<noteq> p"
    and p: "\<not> is_dir (s_fs t) p" "\<not> is_link (s_fs t) p"
  shows "wp e (swap_temp p wo)
    (\<lambda>r g. swap_outcome e p wo (s_in s) (new_file (s_who s) wo) (s_fs s) r (s_fs g)) t"
    (is "wp e _ ?Q t")
proof -
  let ?tmp = "swap_tmp e p"
  have early: "?Q r u" if "s_fs u = s_fs t" "r = Killed \<or> r = Exited (Suc 0)" for r u
    by (rule swap_outcome_early [OF prep _ _ tmp]) (use that in auto)
  have late: "?Q Killed u" if "s_fs u = (s_fs t)(?tmp := x)" "s_fs t ?tmp = None" for u x
    by (rule swap_outcome_early [OF prep _ _ tmp]) (use that in auto)
  have strip: "strip_nl (?tmp @ [NL]) = ?tmp"
    using strip_nl_fresh [OF fresh, of "dir_of p @ ''/.sshkeytx.''"] by (simp add: swap_tmp_def)
  have name: "temp_name e (dir_of p @ ''/.sshkeytx.XXXXXXXX'') = ?tmp"
    using temp_name_X [of e "dir_of p @ ''/.sshkeytx.''"] by (simp add: swap_tmp_def)
  have run: "wp e (swap_replace p wo) ?Q u"
    if u: "s_fs u = (s_fs t)(?tmp := Some (Reg [] (new_attrs t ''600'')))" "s_vars u ''t'' = ?tmp"
      "s_in u = s_in t" and free: "s_fs t ?tmp = None" for u
  proof (rule wp_mono [OF wp_swap_replace])
    show "s_fs u ?tmp = Some (Reg [] \<lparr>a_uid = fst (s_who s), a_gid = snd (s_who s), a_mode = ''600''\<rparr>)"
      using prep by (simp add: u prepared_def new_attrs_def)
    show "\<not> is_dir (s_fs u) p" "\<not> is_link (s_fs u) p"
      using p tmp by (simp_all add: u is_dir_def node_at_no_link is_link_def)
    fix r g assume "swap_post u ?tmp p (new_file (s_who s) wo) r g"
    then show "?Q r g"
      by (rule swap_post_outcome) (use u prep free tmp in \<open>auto simp: prepared_def\<close>)
  qed (use u tmp in simp_all)
  show ?thesis
    unfolding swap_temp_def wp_simps
    by (rule wppI)
      (auto simp: captured_def name strip wp_simps mktemp_eff_def Let_def early new_attrs_def
        split: if_splits intro!: run early late)
qed


lemma mkdirp_prepared:
  assumes "mkdirp_eff d t = Some u" and "\<not> is_dir (s_fs t) d" and d: "d = dir_of p" "o_mkdir wo"
    and p: "p \<notin> swap_dirs p wo"
  shows "prepared p wo t u" and "\<exists>a. s_fs u d = Some (Dir a)" and "s_fs t d = None"
proof -
  have self: "d \<in> set (ancestors d)" by (simp add: ancestors_def)
  then show free: "s_fs t d = None"
    using assms(1,2) by (auto simp: mkdirp_eff_def split: if_splits)
  show "prepared p wo t u"
    using assms(1) p by (auto simp: mkdirp_eff_def prepared_def only_def grows_def swap_dirs_def d split: if_splits)
  show "\<exists>a. s_fs u d = Some (Dir a)"
    using assms(1) self free by (auto simp: mkdirp_eff_def split: if_splits)
qed

lemma chmod_prepared:
  assumes "prepared p wo s t" and "s_fs s d = None" and "s_fs t d = Some (Dir a)" and "d \<noteq> p"
    and "d \<in> swap_dirs p wo" and "attr_eff g d t = Some u"
  shows "prepared p wo s u"
proof -
  have u: "u = fs_upd t d (Some (Dir (g a)))"
    using assms(3,6) by (auto simp: attr_eff_def resolve_no_link node_attrs_def set_attrs_def)
  show ?thesis
    using assms by (auto simp: u prepared_def only_def grows_def)
qed

lemma prepared_refl: "prepared p wo s s"
  by (simp add: prepared_def)

lemma prepared_simps [simp]:
  "prepared p wo s (t\<lparr>s_n := n\<rparr>) = prepared p wo s t"
  "prepared p wo (s\<lparr>s_umask := m\<rparr>) t = prepared p wo s t"
  "prepared p wo s (t\<lparr>s_umask := m\<rparr>) = prepared p wo s t"
  by (simp_all add: prepared_def)

lemma wp_swap_mkdir:
  assumes fresh: "fresh_ok (e_fresh e)" and tmp: "swap_tmp e p \<noteq> p" and dirs: "p \<notin> swap_dirs p wo"
    and p: "\<And>a. s_fs s p \<noteq> Some (Dir a)" "\<not> is_link (s_fs s) p"
  shows "wp e (swap_mkdir p wo)
    (\<lambda>r g. swap_outcome e p wo (s_in s) (new_file (s_who s) wo) (s_fs s) r (s_fs g)) s"
    (is "wp e _ ?Q s")
proof -
  have go: "wp e (swap_temp p wo) ?Q t" if "prepared p wo s t" for t
  proof (rule wp_swap_temp [OF that fresh tmp])
    have "s_fs t p = s_fs s p" using that by (simp add: prepared_def)
    then show "\<not> is_dir (s_fs t) p" "\<not> is_link (s_fs t) p"
      using p by (auto simp: is_dir_def is_link_def node_at_no_link split: option.splits node.splits)
  qed
  have stop: "?Q r t" if "prepared p wo s t" "r = Killed \<or> r = Exited (Suc 0)" for r t
    by (rule swap_outcome_early [OF that(1) _ _ tmp]) (use that(2) in auto)
  show ?thesis
  proof (cases "o_mkdir wo")
    case False
    then show ?thesis
      using go [OF prepared_refl] by (simp add: swap_mkdir_def Let_def)
  next
    case True
    let ?d = "dir_of p"
    let ?Q' = "on_status (wp e (swap_temp p wo) ?Q) ?Q"
    have dmem: "?d \<in> swap_dirs p wo"
      by (simp add: swap_dirs_def True ancestors_def)
    let ?stop = "on_bad (wp e (Exit 1) ?Q') ?Q'"
    have chmod: "wp e (Chmod [Bare ''700''] [Quoted ?d]) ?stop t"
      if t: "prepared p wo s t" "\<exists>a. s_fs t ?d = Some (Dir a)" and free: "s_fs s ?d = None" for t
    proof -
      from t(2) obtain a where a: "s_fs t ?d = Some (Dir a)" by blast
      have "?d \<noteq> p" using dmem dirs by metis
      note pr = chmod_prepared [OF t(1) free a this dmem]
      show ?thesis
        unfolding wp_simps
        by (rule wppI) (auto intro!: stop go dest: pr simp: t(1) wp_simps)
    qed
    have "wp e (MkDirP [Quoted ?d]) (on_ok (wp e (Chmod [Bare ''700''] [Quoted ?d]) ?stop) ?stop) s"
      if nd: "\<not> is_dir (s_fs s) ?d"
    proof -
      note mk = mkdirp_prepared [OF _ nd refl True dirs]
      show ?thesis
        unfolding wp_access
        by (rule wppI)
          (auto intro!: stop chmod [unfolded wp_access, simplified] prepared_refl intro: mk simp: wp_misc)
    qed
    then show ?thesis
      using go [OF prepared_refl] True
      by (simp add: swap_mkdir_def Let_def wp_simps)
  qed
qed

text \<open>The credentials the write happens with.\<close>

definition writer :: "shenv \<Rightarrow> write_opts \<Rightarrow> string \<times> string \<Rightarrow> string \<times> string" where
  "writer e wo who =
     (if o_runas wo = [] then who
      else (case e_users e (o_runas wo) of None \<Rightarrow> who | Some (u, g, h) \<Rightarrow> (u, g)))"

lemma wp_swap_body:
  assumes fresh: "fresh_ok (e_fresh e)" and tmp: "swap_tmp e p \<noteq> p" and dirs: "p \<notin> swap_dirs p wo"
    and p: "\<And>a. s_fs s p \<noteq> Some (Dir a)"
  shows "wp e (swap_body p wo)
    (\<lambda>r g. swap_outcome e p wo (s_in s) (new_file (s_who s) wo) (s_fs s) r (s_fs g)) s"
    (is "wp e _ ?Q s")
proof -
  have refuse: "?Q (Exited 8) t" if "s_fs t = s_fs s" for t
    using that by (simp add: swap_outcome_def swap_frame_def)
  show ?thesis
    using wp_swap_mkdir [OF fresh tmp dirs, of "s\<lparr>s_umask := ''077''\<rparr>"] p refuse
    by (auto simp: swap_body_def wp_simps)
qed

definition ctl_ok :: "ctl \<Rightarrow> bool" where
  "ctl_ok r \<longleftrightarrow> r = Status 0 \<or> r = Exited 0"

text \<open>
  C5: the swap is atomic, for every choice of failures and of the moment the script is
  killed: a success leaves the whole new content with the decided owner and mode, a
  failure leaves the target alone, and a killed script leaves one or the other.  Nothing
  else that existed changes, and what is new is the temporary file or a parent directory.
\<close>

theorem swap_atomic:
  assumes "fresh_ok (e_fresh e)" and "swap_tmp e p \<noteq> p" and "p \<notin> swap_dirs p wo"
    and "\<forall>a. s_fs s p \<noteq> Some (Dir a)" and run: "exec e (swap_cmd p wo) s = (r, t)"
  shows "swap_frame e p wo (s_fs s) (s_fs t) \<and>
    (if ctl_ok r then s_fs t p = Some (Reg (s_in s) (new_file (writer e wo (s_who s)) wo))
     else if r = Killed then s_fs t p \<in> {s_fs s p, Some (Reg (s_in s) (new_file (writer e wo (s_who s)) wo))}
     else s_fs t p = s_fs s p)"
proof (cases "o_runas wo = []")
  case True
  have "swap_outcome e p wo (s_in s) (new_file (writer e wo (s_who s)) wo) (s_fs s) r (s_fs t)"
    using wp_swap_body [OF assms(1-3), of s] assms(4) run True
    by (simp add: wp_def swap_cmd_def writer_def)
  then show ?thesis
    by (cases r) (auto simp: swap_outcome_def ctl_ok_def)
next
  case False
  show ?thesis
  proof (cases "e_users e (o_runas wo)")
    case None
    with False run show ?thesis by (auto simp: swap_cmd_def ctl_ok_def swap_frame_def)
  next
    case (Some x)
    then obtain u g h where users: "e_users e (o_runas wo) = Some (u, g, h)" by (cases x) auto
    obtain r' t' where body: "exec e (swap_body p wo) (s\<lparr>s_who := (u, g), s_n := Suc (s_n s)\<rparr>) = (r', t')"
      by fastforce
    have "swap_outcome e p wo (s_in s) (new_file (u, g) wo) (s_fs s) r' (s_fs t')"
      using wp_swap_body [OF assms(1-3), of "s\<lparr>s_who := (u, g), s_n := Suc (s_n s)\<rparr>"] assms(4) body
      by (simp add: wp_def)
    with run False body users show ?thesis
      by (cases r')
        (auto simp: swap_cmd_def prim_def swap_outcome_def ctl_ok_def writer_def swap_frame_def
          split: if_splits)
  qed
qed


definition example_env :: shenv where
  "example_env =
     \<lparr>e_users = (\<lambda>u. if u = ''bob'' then Some (''1001'', ''100'', ''/h'') else None),
      e_gnu = True, e_fresh = ''abcdEFGH'', e_fails = (\<lambda>n. n = 5), e_cut = None, e_part = Some 1,
      e_late = False\<rparr>"

definition example_state :: shst where
  "example_state =
     \<lparr>s_fs = [''/h'' \<mapsto> Dir \<lparr>a_uid = ''1001'', a_gid = ''100'', a_mode = ''755''\<rparr>,
              ''/h/k'' \<mapsto> Reg ''old'' \<lparr>a_uid = ''1001'', a_gid = ''100'', a_mode = ''600''\<rparr>],
      s_vars = (\<lambda>_. []), s_in = ''new'', s_out = [], s_who = (''0'', ''0''), s_umask = ''022'', s_n = 0\<rparr>"

definition example_opts :: write_opts where
  "example_opts = \<lparr>o_uid = [], o_gid = [], o_mode = ''640'', o_mkdir = False, o_runas = ''bob''\<rparr>"

theorem swap_atomic_witness:
  "s_fs (snd (exec example_env (swap_cmd ''/h/k'' example_opts) example_state)) ''/h/k'' =
    Some (Reg ''new'' \<lparr>a_uid = ''1001'', a_gid = ''100'', a_mode = ''640''\<rparr>)"
proof -
  have run: "ctl_ok (fst (exec example_env (swap_cmd ''/h/k'' example_opts) example_state))"
    by code_simp
  have "fresh_ok (e_fresh example_env)" by code_simp
  moreover have "swap_tmp example_env ''/h/k'' \<noteq> ''/h/k''" by code_simp
  moreover have "''/h/k'' \<notin> swap_dirs ''/h/k'' example_opts" by code_simp
  moreover have "\<forall>a. s_fs example_state ''/h/k'' \<noteq> Some (Dir a)" by (simp add: example_state_def)
  ultimately have "s_fs (snd (exec example_env (swap_cmd ''/h/k'' example_opts) example_state)) ''/h/k'' =
    Some (Reg (s_in example_state)
      (new_file (writer example_env example_opts (s_who example_state)) example_opts))"
    using swap_atomic [OF _ _ _ _ surjective_pairing] run by simp
  then show ?thesis
    by (simp add: example_state_def new_file_def writer_def example_env_def example_opts_def)
qed

end
