(* ===== verification/Script_Contracts.thy ===== *)
theory Script_Contracts
  imports Swap_Contract
begin

text \<open>
  What the other scripts do: the ones that read change nothing and report what is there;
  the ones that write one file change only that file, and leave its old content, all of
  the new or a prefix of it.
\<close>

section \<open>Scripts that read\<close>

primrec reads_only :: "cmd \<Rightarrow> bool" where
  "reads_only (Umask m) = True"
| "reads_only (Bracket t) = True"
| "reads_only (TestCmd t) = True"
| "reads_only (Exit n) = True"
| "reads_only (EchoErr x) = True"
| "reads_only (Echo x) = True"
| "reads_only (Printf f ws) = True"
| "reads_only (Capture v c) = reads_only c"
| "reads_only (Cat w) = True"
| "reads_only (CatTo w) = False"
| "reads_only (CatOnto w) = False"
| "reads_only (StatGnu w) = True"
| "reads_only (StatBsd w) = True"
| "reads_only (MkTemp w) = False"
| "reads_only (MkTempDir w) = False"
| "reads_only (Chmod m w) = False"
| "reads_only (Chown u g w) = False"
| "reads_only (Mv a b) = False"
| "reads_only (Rm w) = False"
| "reads_only (RmRf w) = False"
| "reads_only (MkDir w) = False"
| "reads_only (MkDirP w) = False"
| "reads_only (IdU n) = True"
| "reads_only (IdG n) = True"
| "reads_only IdSelf = True"
| "reads_only (EchoHome n) = True"
| "reads_only (And a b) = (reads_only a \<and> reads_only b)"
| "reads_only (Or a b) = (reads_only a \<and> reads_only b)"
| "reads_only (Seq a b) = (reads_only a \<and> reads_only b)"
| "reads_only (Group c) = reads_only c"
| "reads_only (Subshell c) = reads_only c"
| "reads_only (IfThen t c) = reads_only c"
| "reads_only (IfElse t c d) = (reads_only c \<and> reads_only d)"
| "reads_only (IfElif t c u d d') = (reads_only c \<and> reads_only d \<and> reads_only d')"
| "reads_only (AsUser u c) = reads_only c"

lemma prim_reads:
  assumes "prim e eff id s = (r, t)" and "\<And>t. eff s = Some t \<Longrightarrow> s_fs t = s_fs s"
  shows "s_fs t = s_fs s"
  using assms by (auto simp: prim_def split: option.splits if_splits)

lemma reads_effs:
  "read_eff p s = Some t \<Longrightarrow> s_fs t = s_fs s"
  "stat_eff p s = Some t \<Longrightarrow> s_fs t = s_fs s"
  "out_eff x s = Some t \<Longrightarrow> s_fs t = s_fs s"
  by (auto simp: read_eff_def stat_eff_def out_eff_def split: option.splits node.splits)

lemmas prim_reads_effs =
  prim_reads [OF _ reads_effs(1)] prim_reads [OF _ reads_effs(2)] prim_reads [OF _ reads_effs(3)]

lemma exec_reads: "reads_only c \<Longrightarrow> exec e c s = (r, t) \<Longrightarrow> s_fs t = s_fs s"
proof (induction c arbitrary: s r t)
  case (Capture v c)
  have "exec e c (s\<lparr>s_out := []\<rparr>) = (r', t') \<Longrightarrow> s_fs t' = s_fs s" for r' t'
    using Capture.IH [of "s\<lparr>s_out := []\<rparr>" r' t'] Capture.prems by simp
  then show ?case using Capture.prems by (auto split: prod.splits ctl.splits)
next
  case (And a b)
  obtain r' t' where a: "exec e a s = (r', t')" by fastforce
  show ?case
    using And.IH(1) [OF _ a] And.IH(2) [of t' r t] And.prems a
    by (auto split: ctl.splits nat.splits)
next
  case (Or a b)
  obtain r' t' where a: "exec e a s = (r', t')" by fastforce
  show ?case
    using Or.IH(1) [OF _ a] Or.IH(2) [of t' r t] Or.prems a
    by (auto split: ctl.splits nat.splits)
next
  case (Seq a b)
  obtain r' t' where a: "exec e a s = (r', t')" by fastforce
  show ?case
    using Seq.IH(1) [OF _ a] Seq.IH(2) [of t' r t] Seq.prems a
    by (auto split: ctl.splits nat.splits)
next
  case (Subshell c)
  obtain r' t' where a: "exec e c s = (r', t')" by fastforce
  show ?case
    using Subshell.IH [OF _ a] Subshell.prems a by (auto split: ctl.splits)
next
  case (AsUser u c)
  show ?case
  proof (cases "e_users e u")
    case None
    with AsUser.prems show ?thesis by simp
  next
    case (Some x)
    obtain uid gid h where x: "x = (uid, gid, h)" by (cases x)
    obtain r0 t0 where p: "prim e (\<lambda>t. Some (t\<lparr>s_who := (uid, gid)\<rparr>)) id s = (r0, t0)" by fastforce
    obtain r1 t1 where c: "exec e c t0 = (r1, t1)" by fastforce
    have "s_fs t0 = s_fs s" by (rule prim_reads [OF p]) auto
    with AsUser.IH [OF _ c] AsUser.prems Some x p c show ?thesis
      by (auto split: ctl.splits nat.splits)
  qed
qed (auto split: option.splits if_splits dest: prim_reads_effs)

lemma reading_scripts [simp]:
  "reads_only (stat_cmd p)" "reads_only (read_cmd p)" "reads_only (health_cmd p)"
  "reads_only (lookup_cmd u)"
  by (simp_all add: stat_cmd_def read_cmd_def health_cmd_def lookup_cmd_def Let_def)

lemma read_cmd_result:
  assumes "exec e (read_cmd p) s = (r, t)" and "s_out s = []"
  shows "ctl_ok r \<Longrightarrow> \<exists>a. node_at (s_fs s) p = Some (Reg (s_out t) a)"
    and "r = Exited 9 \<Longrightarrow> node_at (s_fs s) p = None"
    and "r = Status n \<Longrightarrow> n < 2"
    and "r = Exited n \<Longrightarrow> n = 9"
  using assms
  by (auto simp: read_cmd_def prim_def read_eff_def ctl_ok_def split: if_splits option.splits node.splits)

lemma stat_cmd_result:
  assumes "exec e (stat_cmd p) s = (r, t)" and "s_out s = []"
  shows "ctl_ok r \<Longrightarrow> \<exists>nd a. s_fs s p = Some nd \<and> node_attrs nd = Some a \<and>
      s_out t = a_uid a @ '' '' @ a_gid a @ '' '' @ a_mode a @ [NL]"
    and "r = Exited 8 \<Longrightarrow> is_link (s_fs s) p"
    and "r = Exited 9 \<Longrightarrow> s_fs s p = None"
    and "r = Status n \<Longrightarrow> n < 2"
  using assms node_at_no_link [of "s_fs s" p]
  by (auto simp: stat_cmd_def prim_def stat_eff_def ctl_ok_def Let_def
      split: if_splits option.splits node.splits prod.splits ctl.splits nat.splits)

section \<open>Scripts that write one file\<close>

definition old_content :: "fs \<Rightarrow> string \<Rightarrow> string" where
  "old_content f p = (case f p of Some (Reg c _) \<Rightarrow> c | _ \<Rightarrow> [])"

lemma exec_write_cmd:
  assumes "exec e (write_cmd p) s = (r, t)" and "\<not> is_link (s_fs s) p"
  shows "only {p} (s_fs s) (s_fs t)"
    and "s_fs t p = s_fs s p \<or> (\<exists>k a. s_fs t p = Some (Reg (take k (s_in s)) a))"
    and "ctl_ok r \<Longrightarrow> \<exists>a. s_fs t p = Some (Reg (s_in s) a)"
proof -
  let ?s = "s\<lparr>s_umask := ''077''\<rparr>"
  have link: "\<not> is_link (s_fs ?s) p" using assms(2) by simp
  note ok = write_eff_only [OF link, of False "s_in s"]
  note part = write_part_only [OF link, of e False "s_in s"]
  have all: "s_in s = take (length (s_in s)) (s_in s)" by simp
  show "only {p} (s_fs s) (s_fs t)"
    and "s_fs t p = s_fs s p \<or> (\<exists>k a. s_fs t p = Some (Reg (take k (s_in s)) a))"
    and "ctl_ok r \<Longrightarrow> \<exists>a. s_fs t p = Some (Reg (s_in s) a)"
    using assms(1) part ok
    by (auto simp: write_cmd_def prim_def ctl_ok_def split: if_splits option.splits node.splits)
       (metis all)+
qed

lemma exec_append_cmd:
  assumes "exec e (append_cmd p) s = (r, t)" and "\<not> is_link (s_fs s) p"
  shows "only {p} (s_fs s) (s_fs t)"
    and "s_fs t p = s_fs s p \<or>
      (\<exists>k a. s_fs t p = Some (Reg (old_content (s_fs s) p @ take k (s_in s)) a))"
    and "ctl_ok r \<Longrightarrow> \<exists>a. s_fs t p = Some (Reg (old_content (s_fs s) p @ s_in s) a)"
proof -
  let ?s = "s\<lparr>s_umask := ''077''\<rparr>"
  have link: "\<not> is_link (s_fs ?s) p" using assms(2) by simp
  have old: "(case s_fs ?s p of Some (Reg c _) \<Rightarrow> if True then c else [] | _ \<Rightarrow> []) = old_content (s_fs s) p"
    by (auto simp: old_content_def split: option.splits node.splits)
  note ok = write_eff_only [OF link, of True "s_in s", unfolded old]
  note part = write_part_only [OF link, of e True "s_in s", unfolded old]
  have all: "s_in s = take (length (s_in s)) (s_in s)" by simp
  show "only {p} (s_fs s) (s_fs t)"
    and "s_fs t p = s_fs s p \<or>
      (\<exists>k a. s_fs t p = Some (Reg (old_content (s_fs s) p @ take k (s_in s)) a))"
    and "ctl_ok r \<Longrightarrow> \<exists>a. s_fs t p = Some (Reg (old_content (s_fs s) p @ s_in s) a)"
    using assms(1) part ok
    by (auto simp: append_cmd_def prim_def ctl_ok_def split: if_splits option.splits)
       (metis all)+
qed

lemma exec_remove_cmd:
  assumes "exec e (remove_cmd p) s = (r, t)"
  shows "s_fs t = s_fs s \<or> s_fs t = (s_fs s)(p := None)"
    and "ctl_ok r \<Longrightarrow> s_fs t p = None"
  using assms
  by (auto simp: remove_cmd_def prim_def rm_eff_def ctl_ok_def split: if_splits option.splits node.splits)

lemma exec_rmrf_cmd:
  assumes "exec e (rmrf_cmd p) s = (r, t)"
  shows "only {q. below p q} (s_fs s) (s_fs t)"
  using assms
  by (auto simp: rmrf_cmd_def prim_def rmrf_eff_def only_def split: if_splits)

section \<open>The transaction directory\<close>

definition tx_name :: "shenv \<Rightarrow> string \<Rightarrow> string \<Rightarrow> string" where
  "tx_name e base txid = base @ ''/sshkeytx-'' @ txid @ ''.'' @ e_fresh e"

lemma exec_mktxdir_cmd:
  assumes run: "exec e (mktxdir_cmd base txid) s = (r, t)" and fresh: "fresh_ok (e_fresh e)"
    and out: "s_out s = []"
  defines "d \<equiv> tx_name e base txid"
  shows "only {d, d @ ''/backup''} (s_fs s) (s_fs t)" and "grows (s_fs s) (s_fs t)"
    and "ctl_ok r \<Longrightarrow> s_out t = d \<and> s_fs s d = None \<and>
      (\<exists>a. s_fs t d = Some (Dir a)) \<and> (\<exists>a. s_fs t (d @ ''/backup'') = Some (Dir a))"
proof -
  have strip: "strip_nl (d @ [NL]) = d"
    using strip_nl_fresh [OF fresh, of "base @ ''/sshkeytx-'' @ txid @ ''.''"]
    by (simp add: d_def tx_name_def)
  have name: "temp_name e (base @ ''/sshkeytx-'' @ txid @ ''.XXXXXXXX'') = d"
    using temp_name_X [of e "base @ ''/sshkeytx-'' @ txid @ ''.''"] by (simp add: d_def tx_name_def)
  note name = name [unfolded append_Cons append_Nil]
  note facts = run [unfolded mktxdir_cmd_def] out
  show "only {d, d @ ''/backup''} (s_fs s) (s_fs t)"
    using facts
    by (auto simp: name strip prim_def mktemp_eff_def mkdir_eff_def new_attrs_def Let_def fs_upd_def only_def
        split: if_splits option.splits)
  show "grows (s_fs s) (s_fs t)"
    using facts
    by (auto simp: name strip prim_def mktemp_eff_def mkdir_eff_def new_attrs_def Let_def fs_upd_def grows_def
        split: if_splits option.splits)
  show "ctl_ok r \<Longrightarrow> s_out t = d \<and> s_fs s d = None \<and>
      (\<exists>a. s_fs t d = Some (Dir a)) \<and> (\<exists>a. s_fs t (d @ ''/backup'') = Some (Dir a))"
    using facts
    by (auto simp: name strip prim_def mktemp_eff_def mkdir_eff_def new_attrs_def Let_def fs_upd_def ctl_ok_def
        split: if_splits option.splits)
qed

end
