(* ===== verification/Guard_Trap.thy ===== *)
theory Guard_Trap
  imports Script_Contracts
begin

text \<open>
  The dead-man switch of guard.go: the guard script, the manifest it reads, and what its
  trap restores.  A manifest line is \<^verbatim>\<open>F\<close>, the backup and the target, or \<^verbatim>\<open>A\<close>, a dash and
  the target, separated by tabs; ensureCAS of tx.go writes it.
\<close>

section \<open>The script\<close>

definition guard_ready_token :: string where
  "guard_ready_token = ''SSHKEYTX_GUARD_READY''"

definition guard_text :: "string \<Rightarrow> string" where
  "guard_text txdir =
     (let q = (\<lambda>s. DQ # s @ [DQ]); sq = (\<lambda>s. SQ # s @ [SQ]) in
      join [NL]
       [''TX='' @ sh_quote txdir,
        ''restore_all() {'',
        ''  [ -f '' @ q ''$TX/commit'' @ '' ] && return 0'',
        ''  if [ -f '' @ q ''$TX/manifest'' @ '' ]; then'',
        ''    while IFS='' @ sq [TAB] @ '' read -r typ bak dst; do'',
        ''      case '' @ q ''$typ'' @ '' in'',
        ''        F) if [ -L '' @ q ''$dst'' @ '' ] || [ -L '' @ DQ # ''$(dirname '' @ q ''$dst'' @ '')'' @ [DQ] @ '' ]; then'',
        ''             printf '' @ sq (''%s'' @ [CHR 0x5C] @ ''n'') @ '' '' @ q ''$dst'' @ '' >> '' @ q ''$TX/restore-refused'',
        ''           elif [ -f '' @ q ''$bak'' @ '' ]; then cat '' @ q ''$bak'' @ '' > '' @ q ''$dst'' @ ''; fi ;;'',
        ''        A) [ -L '' @ q ''$dst'' @ '' ] && printf '' @ sq (''%s'' @ [CHR 0x5C] @ ''n'') @ '' '' @ q ''$dst'' @ '' >> '' @ q ''$TX/restore-refused'' @ '' || rm -f '' @ q ''$dst'' @ '' ;;'',
        ''      esac'',
        ''    done < '' @ q ''$TX/manifest'',
        ''    : > '' @ q ''$TX/restored'',
        ''  fi'',
        ''  return 0'',
        ''}'',
        ''trap restore_all EXIT'',
        ''trap '' @ sq ''restore_all; trap - EXIT; exit 129'' @ '' HUP'',
        ''trap '' @ sq ''restore_all; trap - EXIT; exit 130'' @ '' INT'',
        ''trap '' @ sq ''restore_all; trap - EXIT; exit 143'' @ '' TERM'',
        '': > '' @ q ''$TX/ready'',
        ''echo '' @ guard_ready_token,
        ''cat > /dev/null''])"

section \<open>The manifest\<close>

datatype entry = FEntry string string | AEntry string

fun entry_dst :: "entry \<Rightarrow> string" where
  "entry_dst (FEntry bak dst) = dst"
| "entry_dst (AEntry dst) = dst"

text \<open>The line ensureCAS appends.\<close>

fun manifest_line :: "entry \<Rightarrow> string" where
  "manifest_line (FEntry bak dst) = ''F'' @ [TAB] @ bak @ [TAB] @ dst @ [NL]"
| "manifest_line (AEntry dst) = ''A'' @ [TAB] @ ''-'' @ [TAB] @ dst @ [NL]"

definition manifest_text :: "entry list \<Rightarrow> string" where
  "manifest_text es = concat (map manifest_line es)"

text \<open>
  \<^verbatim>\<open>while IFS=<tab> read -r typ bak dst\<close>: only lines that end in a newline are read; tabs
  are white space to \<^verbatim>\<open>read\<close>, so a run of them separates once and the last variable
  takes the rest without its final tabs.
\<close>

definition complete_lines :: "string \<Rightarrow> string list" where
  "complete_lines content = butlast (split_on NL content)"

definition read_field :: "string \<Rightarrow> string \<times> string" where
  "read_field s =
     (let t = dropWhile (\<lambda>c. c = TAB) s in
      (takeWhile (\<lambda>c. c \<noteq> TAB) t, dropWhile (\<lambda>c. c \<noteq> TAB) t))"

definition read_rest :: "string \<Rightarrow> string" where
  "read_rest s = rev (dropWhile (\<lambda>c. c = TAB) (rev (dropWhile (\<lambda>c. c = TAB) s)))"

definition read_entry :: "string \<Rightarrow> string \<times> string \<times> string" where
  "read_entry l =
     (let (typ, r) = read_field l; (bak, r') = read_field r in (typ, bak, read_rest r'))"

section \<open>Restoring\<close>

text \<open>\<^verbatim>\<open>dirname\<close>: trailing slashes do not count.\<close>

definition strip_slashes :: "string \<Rightarrow> string" where
  "strip_slashes p = rev (dropWhile (\<lambda>c. c = CHR ''/'') (rev p))"

definition posix_dirname :: "string \<Rightarrow> string" where
  "posix_dirname p =
     (let q = strip_slashes p in
      if q = [] then (if p = [] then ''.'' else ''/'')
      else (case last_index CHR ''/'' q of
              None \<Rightarrow> ''.''
            | Some i \<Rightarrow> (case strip_slashes (take i q) of [] \<Rightarrow> ''/'' | d \<Rightarrow> d)))"

text \<open>\<^verbatim>\<open>printf '%s\n' "$dst" >> "$TX/restore-refused"\<close>\<close>

definition refuse :: "shenv \<Rightarrow> string \<Rightarrow> string \<Rightarrow> shst \<Rightarrow> ctl \<times> shst" where
  "refuse e tx dst s =
     (let f = tx @ ''/restore-refused''; d = dst @ [NL] in
      prim e (write_eff True f d) (write_part e True f d) s)"

text \<open>\<^verbatim>\<open>cat "$bak" > "$dst"\<close>\<close>

definition copy_eff :: "string \<Rightarrow> string \<Rightarrow> shst \<Rightarrow> shst option" where
  "copy_eff bak dst s =
     (case node_at (s_fs s) bak of Some (Reg c _) \<Rightarrow> write_eff False dst c s | _ \<Rightarrow> None)"

definition copy_part :: "shenv \<Rightarrow> string \<Rightarrow> string \<Rightarrow> shst \<Rightarrow> shst" where
  "copy_part e bak dst s =
     (case node_at (s_fs s) bak of Some (Reg c _) \<Rightarrow> write_part e False dst c s | _ \<Rightarrow> s)"

definition restore_entry :: "shenv \<Rightarrow> string \<Rightarrow> string \<times> string \<times> string \<Rightarrow> shst \<Rightarrow> ctl \<times> shst" where
  "restore_entry e tx en s =
     (case en of (typ, bak, dst) \<Rightarrow>
        if typ = ''F'' then
          (if is_link (s_fs s) dst \<or> is_link (s_fs s) (posix_dirname dst) then refuse e tx dst s
           else if is_file (s_fs s) bak then prim e (copy_eff bak dst) (copy_part e bak dst) s
           else (Status 0, s))
        else if typ = ''A'' then
          (if is_link (s_fs s) dst
           then (case refuse e tx dst s of
                   (Status (Suc n), t) \<Rightarrow> prim e (rm_eff dst) id t
                 | r \<Rightarrow> r)
           else prim e (rm_eff dst) id s)
        else (Status 0, s))"

primrec restore_entries :: "shenv \<Rightarrow> string \<Rightarrow> (string \<times> string \<times> string) list \<Rightarrow> shst \<Rightarrow> ctl \<times> shst" where
  "restore_entries e tx [] s = (Status 0, s)"
| "restore_entries e tx (en # es) s =
     (case restore_entry e tx en s of
        (Killed, t) \<Rightarrow> (Killed, t)
      | (_, t) \<Rightarrow> restore_entries e tx es t)"

definition restore_all :: "shenv \<Rightarrow> string \<Rightarrow> shst \<Rightarrow> ctl \<times> shst" where
  "restore_all e tx s =
     (if is_file (s_fs s) (tx @ ''/commit'') then (Status 0, s)
      else if is_file (s_fs s) (tx @ ''/manifest'') then
        (let done = prim e (write_eff False (tx @ ''/restored'') []) id in
         case prim e (read_eff (tx @ ''/manifest'')) id (s\<lparr>s_out := []\<rparr>) of
           (Status 0, t) \<Rightarrow>
             (case restore_entries e tx (map read_entry (complete_lines (s_out t))) t of
                (Killed, u) \<Rightarrow> (Killed, u)
              | (_, u) \<Rightarrow> done u)
         | (Killed, t) \<Rightarrow> (Killed, t)
         | (_, t) \<Rightarrow> done t)
      else (Status 0, s))"

section \<open>The manifest round trip\<close>

definition plain_path :: "string \<Rightarrow> bool" where
  "plain_path p \<longleftrightarrow> p \<noteq> [] \<and> TAB \<notin> set p \<and> NL \<notin> set p"

fun plain_entry :: "entry \<Rightarrow> bool" where
  "plain_entry (FEntry bak dst) = (plain_path bak \<and> plain_path dst)"
| "plain_entry (AEntry dst) = plain_path dst"

fun entry_fields :: "entry \<Rightarrow> string \<times> string \<times> string" where
  "entry_fields (FEntry bak dst) = (''F'', bak, dst)"
| "entry_fields (AEntry dst) = (''A'', ''-'', dst)"

lemma dropWhile_plain: "plain_path p \<Longrightarrow> dropWhile (\<lambda>c. c = TAB) (p @ s) = p @ s"
  by (cases p) (auto simp: plain_path_def)

lemma span_tab:
  "TAB \<notin> set p \<Longrightarrow> takeWhile (\<lambda>c. c \<noteq> TAB) (p @ TAB # s) = p"
  "TAB \<notin> set p \<Longrightarrow> dropWhile (\<lambda>c. c \<noteq> TAB) (p @ TAB # s) = TAB # s"
  by (induction p) auto

lemma read_field_plain: "plain_path p \<Longrightarrow> read_field (p @ TAB # s) = (p, TAB # s)"
  by (auto simp: read_field_def dropWhile_plain Let_def plain_path_def span_tab)

lemma read_field_tab: "read_field (TAB # s) = read_field s"
  by (simp add: read_field_def)

lemma read_rest_plain: "plain_path p \<Longrightarrow> read_rest (TAB # p) = p"
proof -
  assume p: "plain_path p"
  then have "plain_path (rev p)" by (simp add: plain_path_def)
  with dropWhile_plain [OF p, of "[]"] dropWhile_plain [of "rev p" "[]"] show ?thesis
    by (simp add: read_rest_def)
qed

lemma read_entry_fields:
  assumes "plain_path typ" and "plain_path bak" and "plain_path dst"
  shows "read_entry (typ @ TAB # bak @ TAB # dst) = (typ, bak, dst)"
  using assms by (simp add: read_entry_def read_field_plain read_field_tab read_rest_plain)

lemma split_manifest:
  "list_all plain_entry es \<Longrightarrow>
    map read_entry (butlast (split_on NL (manifest_text es @ w))) =
      map entry_fields es @ map read_entry (butlast (split_on NL w))"
proof (induction es)
  case (Cons en es)
  have p: "plain_path ''F''" "plain_path ''A''" "plain_path ''-''"
    by (simp_all add: plain_path_def)
  have "\<exists>l. manifest_line en = l @ [NL] \<and> NL \<notin> set l \<and> read_entry l = entry_fields en"
  proof (cases en)
    case (FEntry bak dst)
    with Cons.prems read_entry_fields [OF p(1), of bak dst] show ?thesis
      by (intro exI [of _ "''F'' @ [TAB] @ bak @ [TAB] @ dst"]) (auto simp: plain_path_def)
  next
    case (AEntry dst)
    with Cons.prems read_entry_fields [OF p(2,3), of dst] show ?thesis
      by (intro exI [of _ "''A'' @ [TAB] @ ''-'' @ [TAB] @ dst"]) (auto simp: plain_path_def)
  qed
  then obtain l where "manifest_line en = l @ [NL]" "NL \<notin> set l" "read_entry l = entry_fields en"
    by blast
  moreover have "split_on NL (manifest_text es @ w) \<noteq> []" by simp
  ultimately show ?case
    using Cons by (simp add: manifest_text_def split_on_append)
qed (simp add: manifest_text_def)

text \<open>
  C24: the trap reads from the manifest the entries that were appended to it; what an
  interrupted append left of one more line is not read.
\<close>

theorem manifest_roundtrip:
  assumes "list_all plain_entry es" and "NL \<notin> set torn"
  shows "map read_entry (complete_lines (manifest_text es @ torn)) = map entry_fields es"
  using split_manifest [OF assms(1), of torn] assms(2)
  by (simp add: complete_lines_def split_on_id)

theorem manifest_roundtrip_witness:
  "map read_entry (complete_lines
      (manifest_text [FEntry ''/tmp/t/backup/bob'' ''/home/bob/.ssh/authorized_keys'', AEntry ''/etc/k''] @ ''F'' @ [TAB] @ ''/tmp'')) =
    [(''F'', ''/tmp/t/backup/bob'', ''/home/bob/.ssh/authorized_keys''), (''A'', ''-'', ''/etc/k'')]"
  using manifest_roundtrip [of "[FEntry ''/tmp/t/backup/bob'' ''/home/bob/.ssh/authorized_keys'', AEntry ''/etc/k'']"
      "''F'' @ [TAB] @ ''/tmp''"]
  by (simp add: plain_path_def)


section \<open>What a trap that runs without faults restores\<close>

definition no_faults :: "shenv \<Rightarrow> bool" where
  "no_faults e \<longleftrightarrow> e_cut e = None \<and> (\<forall>n. \<not> e_fails e n)"

lemma prim_no_faults:
  "no_faults e \<Longrightarrow> eff s = Some t \<Longrightarrow> prim e eff partial s = (Status 0, t\<lparr>s_n := Suc (s_n s)\<rparr>)"
  by (simp add: no_faults_def prim_def)

text \<open>An entry can be restored: its backup is there and no symbolic link is in the way.\<close>

fun restorable :: "fs \<Rightarrow> entry \<Rightarrow> bool" where
  "restorable f (FEntry bak dst) =
     ((\<exists>c a. f bak = Some (Reg c a)) \<and> (\<exists>c a. f dst = Some (Reg c a)) \<and> \<not> is_link f (posix_dirname dst))"
| "restorable f (AEntry dst) = (f dst = None \<or> (\<exists>c a. f dst = Some (Reg c a)))"

text \<open>The target holds what the entry stands for.\<close>

fun restored_to :: "fs \<Rightarrow> fs \<Rightarrow> entry \<Rightarrow> bool" where
  "restored_to f g (FEntry bak dst) =
     (\<exists>c a b d. f bak = Some (Reg c a) \<and> f dst = Some (Reg d b) \<and> g dst = Some (Reg c b))"
| "restored_to f g (AEntry dst) = (g dst = None)"

fun entry_baks :: "entry \<Rightarrow> string set" where
  "entry_baks (FEntry bak dst) = {bak}"
| "entry_baks (AEntry dst) = {}"

lemma restore_entry_clean:
  assumes clean: "no_faults e" and "restorable (s_fs s) en"
  shows "\<exists>t. restore_entry e tx (entry_fields en) s = (Status 0, t) \<and>
    only {entry_dst en} (s_fs s) (s_fs t) \<and> restored_to (s_fs s) (s_fs t) en \<and>
    (\<forall>q. is_link (s_fs t) q \<longrightarrow> is_link (s_fs s) q)"
proof (cases en)
  case (FEntry bak dst)
  with assms(2) obtain c a d b where n: "s_fs s bak = Some (Reg c a)" "s_fs s dst = Some (Reg d b)"
    "\<not> is_link (s_fs s) (posix_dirname dst)"
    by auto
  then have "copy_eff bak dst s = Some (fs_upd s dst (Some (Reg c b)))"
    by (simp add: copy_eff_def node_at_no_link write_eff_reg)
  from prim_no_faults [OF clean, where eff = "copy_eff bak dst", OF this] n show ?thesis
    by (auto simp: FEntry restore_entry_def is_file_def node_at_no_link is_link_def split: if_splits)
next
  case (AEntry dst)
  with assms(2) have "rm_eff dst s = Some (fs_upd s dst None)" "\<not> is_link (s_fs s) dst"
    by (auto simp: rm_eff_def is_link_def)
  with prim_no_faults [OF clean, where eff = "rm_eff dst" and s = s] show ?thesis
    by (auto simp: AEntry restore_entry_def is_link_def split: if_splits)
qed

lemma restorable_step:
  assumes "only {d} f g" and "\<forall>q. is_link g q \<longrightarrow> is_link f q" and "restorable f en"
    and "d \<notin> entry_baks en" and "d \<noteq> entry_dst en"
  shows "restorable g en" and "restored_to g h en = restored_to f h en"
  using assms by (cases en; auto simp: only_def)+

lemma restore_entries_clean:
  assumes clean: "no_faults e"
  shows "(\<forall>en \<in> set es. restorable (s_fs s) en) \<Longrightarrow> distinct (map entry_dst es) \<Longrightarrow>
    (\<forall>en \<in> set es. entry_baks en \<inter> entry_dst ` set es = {}) \<Longrightarrow>
    \<exists>t. restore_entries e tx (map entry_fields es) s = (Status 0, t) \<and>
      only (entry_dst ` set es) (s_fs s) (s_fs t) \<and> (\<forall>en \<in> set es. restored_to (s_fs s) (s_fs t) en)"
proof (induction es arbitrary: s)
  case (Cons en es)
  obtain u where u: "restore_entry e tx (entry_fields en) s = (Status 0, u)"
    "only {entry_dst en} (s_fs s) (s_fs u)" "restored_to (s_fs s) (s_fs u) en"
    "\<forall>q. is_link (s_fs u) q \<longrightarrow> is_link (s_fs s) q"
    using restore_entry_clean [OF clean, of s en tx] Cons.prems(1) by auto
  note step = restorable_step [OF u(2,4)]
  have rest: "restorable (s_fs u) en'" "restored_to (s_fs u) h en' = restored_to (s_fs s) h en'"
    if "en' \<in> set es" for en' h
  proof -
    have "restorable (s_fs s) en'" "entry_dst en \<notin> entry_baks en'" "entry_dst en \<noteq> entry_dst en'"
      using Cons.prems that by force+
    from step [OF this] show "restorable (s_fs u) en'"
      "restored_to (s_fs u) h en' = restored_to (s_fs s) h en'" by auto
  qed
  have "\<exists>t. restore_entries e tx (map entry_fields es) u = (Status 0, t) \<and>
      only (entry_dst ` set es) (s_fs u) (s_fs t) \<and> (\<forall>en \<in> set es. restored_to (s_fs u) (s_fs t) en)"
    by (rule Cons.IH) (use Cons.prems rest in auto)
  then obtain t where t: "restore_entries e tx (map entry_fields es) u = (Status 0, t)"
    "only (entry_dst ` set es) (s_fs u) (s_fs t)" "\<forall>en \<in> set es. restored_to (s_fs u) (s_fs t) en"
    by blast
  have same: "s_fs t (entry_dst en) = s_fs u (entry_dst en)"
    using t(2) Cons.prems(2) by (auto simp: only_def)
  have "restored_to (s_fs s) (s_fs t) en"
    using u(3) same by (cases en) auto
  moreover have "\<forall>en' \<in> set es. restored_to (s_fs s) (s_fs t) en'"
    using t(3) rest(2) by auto
  ultimately show ?case
    using u(1,2) t(1,2) by (auto simp: only_def)
qed auto

text \<open>What the trap needs of the transaction directory.\<close>

definition trap_armed :: "fs \<Rightarrow> string \<Rightarrow> entry list \<Rightarrow> bool" where
  "trap_armed f tx es \<longleftrightarrow>
     (\<exists>torn a. f (tx @ ''/manifest'') = Some (Reg (manifest_text es @ torn) a) \<and> NL \<notin> set torn) \<and>
     list_all plain_entry es \<and> distinct (map entry_dst es) \<and>
     (\<forall>en \<in> set es. restorable f en \<and> entry_baks en \<inter> entry_dst ` set es = {} \<and>
        \<not> below tx (entry_dst en)) \<and>
     is_dir f tx \<and> \<not> is_link f tx \<and> (f (tx @ ''/restored'') = None \<or> (\<exists>c a. f (tx @ ''/restored'') = Some (Reg c a)))"

lemma below_self [simp]: "below tx tx"
  by (simp add: below_def)

lemma below_child [simp]: "below tx (tx @ CHR ''/'' # x)"
  by (simp add: below_def has_prefix_iff) 

lemma dir_of_child: "CHR ''/'' \<notin> set x \<Longrightarrow> tx \<noteq> [] \<Longrightarrow> dir_of (tx @ CHR ''/'' # x) = tx"
  by (simp add: dir_of_def last_index_append)


lemma write_restored:
  assumes "is_dir (s_fs s) tx" and "\<not> is_link (s_fs s) tx" and "tx \<noteq> []"
    and "s_fs s (tx @ ''/restored'') = None \<or> (\<exists>c a. s_fs s (tx @ ''/restored'') = Some (Reg c a))"
  obtains v b where "write_eff False (tx @ ''/restored'') [] s = Some v"
    "s_fs v = (s_fs s)(tx @ ''/restored'' := Some (Reg [] b))"
proof (cases "s_fs s (tx @ ''/restored'')")
  case None
  then have "\<exists>v. write_eff False (tx @ ''/restored'') [] s = Some v \<and>
      (\<exists>b. s_fs v = (s_fs s)(tx @ ''/restored'' := Some (Reg [] b)))"
    using assms dir_of_child [of "''restored''" tx] by (simp add: write_eff_def resolve_no_link) (rule exI, rule refl)
  then show thesis using that by blast
next
  case (Some nd)
  with assms(4) obtain c b where "s_fs s (tx @ ''/restored'') = Some (Reg c b)" by auto
  from write_eff_reg [OF this, of False "[]"] that show thesis by auto
qed

lemma restore_all_runs:
  assumes clean: "no_faults e" and armed: "trap_armed (s_fs s) tx es" and tx: "tx \<noteq> []"
    and commit: "\<not> is_file (s_fs s) (tx @ ''/commit'')"
  shows "\<exists>f t. restore_all e tx s = (Status 0, t) \<and> s_fs t = f(tx @ ''/restored'' := s_fs t (tx @ ''/restored'')) \<and>
    (\<exists>a. s_fs t (tx @ ''/restored'') = Some (Reg [] a)) \<and>
    only (entry_dst ` set es) (s_fs s) f \<and> (\<forall>en \<in> set es. restored_to (s_fs s) f en)"
proof -
  from armed obtain torn a where mf: "s_fs s (tx @ ''/manifest'') = Some (Reg (manifest_text es @ torn) a)"
    and torn: "NL \<notin> set torn" and plain: "list_all plain_entry es"
    by (auto simp: trap_armed_def)
  let ?s = "s\<lparr>s_out := manifest_text es @ torn, s_n := Suc (s_n s)\<rparr>"
  have lines: "map read_entry (complete_lines (manifest_text es @ torn)) = map entry_fields es"
    using split_manifest [OF plain, of torn] torn by (simp add: complete_lines_def split_on_id)
  have read: "prim e (read_eff (tx @ ''/manifest'')) id (s\<lparr>s_out := []\<rparr>) = (Status 0, ?s)"
    using mf by (subst prim_no_faults [OF clean]) (auto simp: read_eff_def node_at_no_link)
  obtain u where u: "restore_entries e tx (map entry_fields es) ?s = (Status 0, u)"
    "only (entry_dst ` set es) (s_fs s) (s_fs u)" "\<forall>en \<in> set es. restored_to (s_fs s) (s_fs u) en"
    using restore_entries_clean [OF clean, of es ?s tx] armed by (auto simp: trap_armed_def)
  have out: "tx \<notin> entry_dst ` set es" "tx @ ''/restored'' \<notin> entry_dst ` set es"
    using armed below_child [of tx "''restored''"] below_self [of tx]
    by (auto simp: trap_armed_def simp del: below_child below_self)
  then have dir: "is_dir (s_fs u) tx"
    using armed u(2) by (auto simp: trap_armed_def is_dir_def node_at_no_link is_link_def only_def)
  have old: "s_fs u (tx @ ''/restored'') = s_fs s (tx @ ''/restored'')"
    using onlyD [OF u(2) out(2)] .
  have "s_fs u (tx @ ''/restored'') = None \<or> (\<exists>c a. s_fs u (tx @ ''/restored'') = Some (Reg c a))"
    "\<not> is_link (s_fs u) tx"
    using armed u(2) out by (auto simp: trap_armed_def old is_link_def only_def)
  then obtain v b where v: "write_eff False (tx @ ''/restored'') [] u = Some v"
    "s_fs v = (s_fs u)(tx @ ''/restored'' := Some (Reg [] b))"
    using write_restored [OF dir _ tx] by blast
  have mfile: "is_file (s_fs s) (tx @ ''/manifest'')"
    using mf by (simp add: is_file_def node_at_no_link)
  have "restore_all e tx s = (Status 0, v\<lparr>s_n := Suc (s_n u)\<rparr>)"
    using prim_no_faults [OF clean, where eff = "write_eff False (tx @ ''/restored'') []", OF v(1)] commit read u(1)
    by (simp add: restore_all_def mfile Let_def lines)
  with v(2) u(2,3) show ?thesis
    by - (rule exI [of _ "s_fs u"], rule exI [of _ "v\<lparr>s_n := Suc (s_n u)\<rparr>"], simp)
qed

text \<open>
  C8: a trap that fires before the commit marker and meets no fault puts back every file of the
  manifest: an existing one gets the content of its backup and keeps owner and mode, one
  that was absent is absent again, and nothing else on the host changes but its marker.
\<close>

theorem trap_restores:
  assumes "no_faults e" and "trap_armed (s_fs s) tx es" and "tx \<noteq> []"
    and "\<not> is_file (s_fs s) (tx @ ''/commit'')"
  shows "(\<forall>en \<in> set es. restored_to (s_fs s) (s_fs (snd (restore_all e tx s))) en) \<and>
    only (insert (tx @ ''/restored'') (entry_dst ` set es)) (s_fs s) (s_fs (snd (restore_all e tx s))) \<and>
    is_file (s_fs (snd (restore_all e tx s))) (tx @ ''/restored'')"
proof -
  obtain f t where t: "restore_all e tx s = (Status 0, t)"
    "s_fs t = f(tx @ ''/restored'' := s_fs t (tx @ ''/restored''))"
    "\<exists>a. s_fs t (tx @ ''/restored'') = Some (Reg [] a)"
    "only (entry_dst ` set es) (s_fs s) f" "\<forall>en \<in> set es. restored_to (s_fs s) f en"
    using restore_all_runs [OF assms] by blast
  have "restored_to (s_fs s) (s_fs t) en" if "en \<in> set es" for en
  proof -
    have "entry_dst en \<noteq> tx @ ''/restored''"
      using assms(2) that by (auto simp: trap_armed_def)
    with t(2) have "s_fs t (entry_dst en) = f (entry_dst en)" by (metis fun_upd_other)
    then show ?thesis using t(5) that by (cases en) fastforce+
  qed
  moreover have "only (insert (tx @ ''/restored'') (entry_dst ` set es)) (s_fs s) (s_fs t)"
    unfolding only_def
  proof (intro allI impI)
    fix q assume q: "q \<notin> insert (tx @ ''/restored'') (entry_dst ` set es)"
    then have "s_fs t q = f q" using t(2) by (metis fun_upd_other insertI1)
    then show "s_fs t q = s_fs s q" using t(4) q by (simp add: only_def)
  qed
  moreover have "is_file (s_fs t) (tx @ ''/restored'')"
    using t(3) by (auto simp: is_file_def node_at_no_link)
  ultimately show ?thesis by (simp add: t(1))
qed

text \<open>
  Once the commit marker is there the trap does nothing, however it ends.
\<close>

theorem trap_disarmed:
  assumes "is_file (s_fs s) (tx @ ''/commit'')"
  shows "restore_all e tx s = (Status 0, s)"
  using assms by (simp add: restore_all_def)


definition armed_example :: shst where
  "armed_example =
     (let a = \<lparr>a_uid = ''0'', a_gid = ''0'', a_mode = ''600''\<rparr> in
      \<lparr>s_fs = [''/t'' \<mapsto> Dir a, ''/t/b'' \<mapsto> Reg ''old'' a,
               ''/t/manifest'' \<mapsto> Reg (manifest_text [FEntry ''/t/b'' ''/h/k'', AEntry ''/h/n''] @ ''F'') a,
               ''/h/k'' \<mapsto> Reg ''new'' a, ''/h/n'' \<mapsto> Reg ''new'' a],
       s_vars = (\<lambda>_. []), s_in = [], s_out = [], s_who = (''0'', ''0''), s_umask = ''022'', s_n = 0\<rparr>)"

lemma armed_example_ok: "trap_armed (s_fs armed_example) ''/t'' [FEntry ''/t/b'' ''/h/k'', AEntry ''/h/n'']"
  unfolding trap_armed_def
  by (intro conjI exI [of _ "''F''"])
    (simp_all add: armed_example_def Let_def plain_path_def posix_dirname_def strip_slashes_def
      is_link_def is_dir_def node_at_no_link below_def has_prefix_def)

theorem trap_restores_witness:
  "s_fs (snd (restore_all (example_env\<lparr>e_fails := (\<lambda>_. False)\<rparr>) ''/t'' armed_example)) ''/h/n'' = None"
proof -
  note armed_example_ok
  moreover have "\<not> is_file (s_fs armed_example) (''/t'' @ ''/commit'')"
    by (simp add: armed_example_def Let_def is_file_def node_at_no_link)
  ultimately show ?thesis
    using trap_restores [of "example_env\<lparr>e_fails := (\<lambda>_. False)\<rparr>" armed_example "''/t''"
        "[FEntry ''/t/b'' ''/h/k'', AEntry ''/h/n'']"]
    by (simp add: no_faults_def example_env_def)
qed

theorem trap_disarmed_witness:
  "restore_all example_env ''/t''
      (armed_example\<lparr>s_fs := (s_fs armed_example)(''/t/commit'' := s_fs armed_example ''/t/b'')\<rparr>) =
    (Status 0, armed_example\<lparr>s_fs := (s_fs armed_example)(''/t/commit'' := s_fs armed_example ''/t/b'')\<rparr>)"
  by (rule trap_disarmed) (simp add: armed_example_def Let_def is_file_def node_at_no_link)

end
