(* ===== verification/Go_Path.thy ===== *)
theory Go_Path
  imports Go_Base
begin

text \<open>
  The lexical path functions of Go's \<^verbatim>\<open>path\<close> and, on Unix, \<^verbatim>\<open>path/filepath\<close> that the program
  uses: \<^verbatim>\<open>Clean\<close>, \<^verbatim>\<open>Join\<close>, \<^verbatim>\<open>Base\<close> and \<^verbatim>\<open>Dir\<close>.
\<close>

fun clean_parts :: "bool \<Rightarrow> string list \<Rightarrow> string list \<Rightarrow> string list" where
  "clean_parts rooted st [] = rev st"
| "clean_parts rooted st (p # ps) =
     (if p = [] \<or> p = ''.'' then clean_parts rooted st ps
      else if p = ''..'' then
        (case st of
           [] \<Rightarrow> clean_parts rooted (if rooted then [] else [p]) ps
         | x # xs \<Rightarrow> clean_parts rooted (if x = ''..'' then p # st else xs) ps)
      else clean_parts rooted (p # st) ps)"

definition path_clean :: "string \<Rightarrow> string" where
  "path_clean s =
     (let rooted = has_prefix s ''/''; ps = join ''/'' (clean_parts rooted [] (split_on CHR ''/'' s)) in
      if rooted then CHR ''/'' # ps else if ps = [] then ''.'' else ps)"

definition path_join :: "string list \<Rightarrow> string" where
  "path_join ps =
     (let qs = filter (\<lambda>p. p \<noteq> []) ps in if qs = [] then [] else path_clean (join ''/'' qs))"

definition strip_slash :: "string \<Rightarrow> string" where
  "strip_slash s = rev (dropWhile (\<lambda>c. c = CHR ''/'') (rev s))"

definition path_base :: "string \<Rightarrow> string" where
  "path_base s =
     (if s = [] then ''.''
      else (let t = strip_slash s;
                b = (case last_index CHR ''/'' t of None \<Rightarrow> t | Some i \<Rightarrow> drop (Suc i) t)
            in if b = [] then ''/'' else b))"

definition path_dir :: "string \<Rightarrow> string" where
  "path_dir s =
     path_clean (case last_index CHR ''/'' s of None \<Rightarrow> [] | Some i \<Rightarrow> take (Suc i) s)"

text \<open>A path without empty, dot or dot-dot parts is already clean.\<close>

definition plain_part :: "string \<Rightarrow> bool" where
  "plain_part p \<longleftrightarrow> p \<noteq> [] \<and> p \<noteq> ''.'' \<and> p \<noteq> ''..'' \<and> CHR ''/'' \<notin> set p"

lemma clean_parts_plain: "list_all plain_part ps \<Longrightarrow> clean_parts rooted st ps = rev st @ ps"
  by (induction ps arbitrary: st) (auto simp: plain_part_def)

lemma path_clean_plain:
  assumes "list_all plain_part ps" and "ps \<noteq> []"
  shows "path_clean (CHR ''/'' # join ''/'' ps) = CHR ''/'' # join ''/'' ps"
proof -
  have "split_on CHR ''/'' (join ''/'' ps) = ps"
    using assms by (intro split_on_join) (auto simp: list_all_iff plain_part_def)
  then show ?thesis
    using clean_parts_plain [OF assms(1), of True "[]"] by (simp add: path_clean_def Let_def)
qed

end
