(* ===== verification/Remote_Ops.thy ===== *)
theory Remote_Ops
  imports Guard_Trap Sshx Go_Path
begin

text \<open>
  The client side of package \<^verbatim>\<open>internal/remote\<close> and of the guard session: \<^verbatim>\<open>Run\<close> and the
  operations built on it, as computations on a world that holds the host's file system.

  What the host and the network do is a parameter of type \<open>host\<close>.  Every remote command
  has a number, its tick, and the host says for each tick: whether the session opens,
  which accesses of the script fail, whether and where the script is killed, and whether its
  answer comes back.  Between two commands the guard session may end, with its trap or, killed hard,
  without.  A command whose answer is lost has ended before the next one starts.
\<close>

section \<open>The host\<close>

record fault =
  ft_opens :: bool
  ft_answers :: bool
  ft_signal :: "nat option"
  ft_fails :: "nat \<Rightarrow> bool"
  ft_cut :: "nat option"
  ft_part :: "nat option"
  ft_late :: bool
  ft_fresh :: string

datatype guard_event = Stays | Ends shenv | KilledHard

datatype close_event = Exits nat shenv | Hangs

record host =
  h_users :: "string \<Rightarrow> (string \<times> string \<times> string) option"
  h_gnu :: bool
  h_who :: "string \<times> string"
  h_fault :: "nat \<Rightarrow> fault"
  h_guard :: "nat \<Rightarrow> guard_event"
  h_close :: "nat \<Rightarrow> close_event"
  h_noticed :: "nat \<Rightarrow> bool"
  h_watchdog :: "nat \<Rightarrow> bool"
  h_shell :: "nat \<Rightarrow> string \<Rightarrow> string \<Rightarrow> fs \<Rightarrow> ctl \<times> fs"
  h_login :: bool
  h_query :: "nat \<Rightarrow> fs \<Rightarrow> target \<Rightarrow> pubkey \<Rightarrow> dial_result"
  h_auth :: "nat \<Rightarrow> fs \<Rightarrow> target \<Rightarrow> pubkey \<Rightarrow> dial_result"
  h_disk :: "nat \<Rightarrow> bool"
  h_home :: "string option"
  h_xdg :: string

datatype guard_state = NoGuard | Armed string | Gone

record world =
  w_fs :: fs
  w_tick :: nat
  w_guard :: guard_state
  w_local :: "string \<rightharpoonup> string"

definition script_env :: "host \<Rightarrow> fault \<Rightarrow> shenv" where
  "script_env h ft =
     \<lparr>e_users = h_users h, e_gnu = h_gnu h, e_fresh = ft_fresh ft, e_fails = ft_fails ft,
      e_cut = ft_cut ft, e_part = ft_part ft, e_late = ft_late ft\<rparr>"

definition script_start :: "host \<Rightarrow> fs \<Rightarrow> string \<Rightarrow> shst" where
  "script_start h f stdin =
     \<lparr>s_fs = f, s_vars = (\<lambda>_. []), s_in = stdin, s_out = [], s_who = h_who h,
      s_umask = ''022'', s_n = 0\<rparr>"

text \<open>The guard session ends and its trap runs.\<close>

definition fire :: "host \<Rightarrow> shenv \<Rightarrow> string \<Rightarrow> 'z world_scheme \<Rightarrow> 'z world_scheme" where
  "fire h e tx w =
     w\<lparr>w_fs := s_fs (snd (restore_all e tx (script_start h (w_fs w) []))), w_guard := Gone\<rparr>"

definition guard_step :: "host \<Rightarrow> 'z world_scheme \<Rightarrow> 'z world_scheme" where
  "guard_step h w =
     (case w_guard w of
        Armed tx \<Rightarrow>
          (case h_guard h (w_tick w) of
             Stays \<Rightarrow> w
           | Ends e \<Rightarrow> fire h e tx w
           | KilledHard \<Rightarrow> w\<lparr>w_guard := Gone\<rparr>)
      | _ \<Rightarrow> w)"

section \<open>\<^verbatim>\<open>Run\<close>\<close>

datatype remote_error =
    ExitError nat
  | NoSession
  | NoAnswer
  | BadOpts opts_error
  | BadUser string
  | Unparseable string

text \<open>
  What \<^verbatim>\<open>Run\<close> returns.  The SSH library's \<^verbatim>\<open>ExitError\<close> stands for a nonzero exit status
  and, with status 128 plus the number, for a death by signal.
\<close>

definition answer :: "fault \<Rightarrow> ctl \<Rightarrow> string \<Rightarrow> remote_error + string" where
  "answer ft r out =
     (if \<not> ft_answers ft then Inl NoAnswer
      else (case r of
              Status n \<Rightarrow> if n = 0 then Inr out else Inl (ExitError n)
            | Exited n \<Rightarrow> if n = 0 then Inr out else Inl (ExitError n)
            | Killed \<Rightarrow> (case ft_signal ft of Some k \<Rightarrow> Inl (ExitError (128 + k)) | None \<Rightarrow> Inl NoAnswer)))"

definition run_with ::
  "host \<Rightarrow> (nat \<Rightarrow> fault \<Rightarrow> fs \<Rightarrow> ctl \<times> fs \<times> string) \<Rightarrow> ('z world_scheme, remote_error, string) comp" where
  "run_with h script w =
     (let w = guard_step h w; n = w_tick w; ft = h_fault h n; w' = w\<lparr>w_tick := Suc n\<rparr> in
      if \<not> ft_opens ft then (Inl NoSession, w')
      else (case script n ft (w_fs w) of
              (r, f, out) \<Rightarrow> (answer ft r out, w'\<lparr>w_fs := f\<rparr>)))"

definition script_of :: "host \<Rightarrow> cmd \<Rightarrow> string \<Rightarrow> nat \<Rightarrow> fault \<Rightarrow> fs \<Rightarrow> ctl \<times> fs \<times> string" where
  "script_of h c stdin n ft f =
     (case exec (script_env h ft) c (script_start h f stdin) of (r, t) \<Rightarrow> (r, s_fs t, s_out t))"

definition run :: "host \<Rightarrow> cmd \<Rightarrow> string \<Rightarrow> ('z world_scheme, remote_error, string) comp" where
  "run h c stdin = run_with h (script_of h c stdin)"

text \<open>A script the model of the shell does not cover: the host's own shell decides.\<close>

definition raw_script :: "host \<Rightarrow> string \<Rightarrow> string \<Rightarrow> nat \<Rightarrow> fault \<Rightarrow> fs \<Rightarrow> ctl \<times> fs \<times> string" where
  "raw_script h txt stdin n ft f = (case h_shell h n txt stdin f of (r, g) \<Rightarrow> (r, g, []))"

section \<open>The operations of remote.go\<close>

definition stat :: "host \<Rightarrow> string \<Rightarrow> ('z world_scheme, remote_error, file_info) comp" where
  "stat h path =
     andThen (attempt (run h (stat_cmd path) [])) (\<lambda>r.
       case r of
         Inl e \<Rightarrow>
           if e = ExitError 8 then ret symlink_info
           else if e = ExitError 9 then ret absent_info
           else throw e
       | Inr out \<Rightarrow>
           (case Go_Base.fields out of
              [u, g, m] \<Rightarrow> ret \<lparr>i_exists = True, i_symlink = False, i_uid = u, i_gid = g, i_mode = m\<rparr>
            | _ \<Rightarrow> throw (Unparseable out)))"

definition read_file :: "host \<Rightarrow> string \<Rightarrow> ('z world_scheme, remote_error, string \<times> bool) comp" where
  "read_file h path =
     andThen (attempt (run h (read_cmd path) [])) (\<lambda>r.
       case r of
         Inl e \<Rightarrow> if e = ExitError 9 then ret ([], False) else throw e
       | Inr out \<Rightarrow> ret (out, True))"

definition swap_file ::
  "host \<Rightarrow> string \<Rightarrow> string \<Rightarrow> write_opts \<Rightarrow> ('z world_scheme, remote_error, unit) comp" where
  "swap_file h path content opts =
     (let opts = (if o_mode opts = [] then opts\<lparr>o_mode := ''600''\<rparr> else opts) in
      case validate_opts opts of
        Some err \<Rightarrow> throw (BadOpts err)
      | None \<Rightarrow>
          andThen
            (if SQ \<in> set path then run_with h (raw_script h (swap_text path opts) content)
             else run h (swap_cmd path opts) content)
            (\<lambda>_. ret ()))"

definition write_file :: "host \<Rightarrow> string \<Rightarrow> string \<Rightarrow> ('z world_scheme, remote_error, unit) comp" where
  "write_file h path content = andThen (run h (write_cmd path) content) (\<lambda>_. ret ())"

definition append_file :: "host \<Rightarrow> string \<Rightarrow> string \<Rightarrow> ('z world_scheme, remote_error, unit) comp" where
  "append_file h path content = andThen (run h (append_cmd path) content) (\<lambda>_. ret ())"

definition remove_path :: "host \<Rightarrow> string \<Rightarrow> ('z world_scheme, remote_error, unit) comp" where
  "remove_path h path = andThen (run h (remove_cmd path) []) (\<lambda>_. ret ())"

definition rm_rf :: "host \<Rightarrow> string \<Rightarrow> ('z world_scheme, remote_error, unit) comp" where
  "rm_rf h path = andThen (run h (rmrf_cmd path) []) (\<lambda>_. ret ())"

definition lookup_user ::
  "host \<Rightarrow> string \<Rightarrow> ('z world_scheme, remote_error, string \<times> string \<times> string) comp" where
  "lookup_user h name =
     (if \<not> valid_username name then throw (BadUser name)
      else andThen (run h (lookup_cmd name) []) (\<lambda>out.
        case split_on NL (trim_space out) of
          [u, g, home] \<Rightarrow>
            if home = [] \<or> \<not> has_prefix home ''/'' then throw (Unparseable out) else ret (u, g, home)
        | _ \<Rightarrow> throw (Unparseable out)))"

definition whoami :: "host \<Rightarrow> ('z world_scheme, remote_error, string) comp" where
  "whoami h = andThen (run h IdSelf []) (\<lambda>out. ret (trim_space out))"

definition mk_txdir :: "host \<Rightarrow> string \<Rightarrow> string \<Rightarrow> ('z world_scheme, remote_error, string) comp" where
  "mk_txdir h tmp_base txid =
     andThen (run h (mktxdir_cmd tmp_base txid) []) (\<lambda>out.
       let dir = trim_space out in
       if has_prefix dir ''/'' then ret dir else throw (Unparseable dir))"

section \<open>The guard session\<close>

datatype guard_error = GuardNotStarted | GuardExited nat | GuardHangs

text \<open>
  \<^verbatim>\<open>startGuard\<close>: the script sets its traps, creates \<^verbatim>\<open>$TX/ready\<close> (a shell exits when that
  fails) and prints the token the client waits for.
\<close>

definition start_guard :: "host \<Rightarrow> string \<Rightarrow> ('z world_scheme, guard_error, unit) comp" where
  "start_guard h tx w =
     (let n = w_tick w; ft = h_fault h n; w' = w\<lparr>w_tick := Suc n\<rparr> in
      if \<not> ft_opens ft then (Inl GuardNotStarted, w')
      else (let e = script_env h ft; f = tx @ ''/ready'' in
            case prim e (write_eff False f []) id (script_start h (w_fs w) []) of
              (r, t) \<Rightarrow>
                if r = Status 0 \<and> ft_answers ft
                then (Inr (), w'\<lparr>w_fs := s_fs t, w_guard := Armed tx\<rparr>)
                else (Inl GuardNotStarted, w'\<lparr>w_fs := s_fs t\<rparr>)))"

text \<open>\<^verbatim>\<open>alive\<close>: the client sees the end of the session some time after it happened.\<close>

definition guard_alive :: "host \<Rightarrow> 'z world_scheme \<Rightarrow> bool" where
  "guard_alive h w \<longleftrightarrow> \<not> (w_guard w = Gone \<and> h_noticed h (w_tick w))"

text \<open>
  \<^verbatim>\<open>closeGraceful\<close>: closing the guard's input ends its script, and the trap runs; or the
  session does not end in time and is abandoned.
\<close>

definition close_graceful :: "host \<Rightarrow> ('z world_scheme, guard_error, unit) comp" where
  "close_graceful h w =
     (let ev = h_close h (w_tick w); w' = w\<lparr>w_tick := Suc (w_tick w)\<rparr> in
      case ev of
        Hangs \<Rightarrow> (Inl GuardHangs, w')
      | Exits k e \<Rightarrow>
          (if k = 0 then Inr () else Inl (GuardExited k),
           case w_guard w of Armed tx \<Rightarrow> fire h e tx w' | _ \<Rightarrow> w'))"

end
