(* ===== verification/Tx_Model.thy ===== *)
theory Tx_Model
  imports Remote_Ops
begin

text \<open>
  The transaction of tx.go, as computations on the world of Remote_Ops extended with the
  fields of \<^verbatim>\<open>T\<close> (\<open>txn\<close>).  One definition per function, in the order of the file.  Log
  lines and time stamps are left out.
\<close>

section \<open>Requests, configuration and state\<close>

datatype action = AddKey | RemoveKey

record op =
  op_user :: string
  op_action :: action
  op_spec :: string
  op_matcher :: matcher
  op_key :: "pubkey option"
  op_comment :: string
  op_options :: "string list"

record config =
  c_target :: target
  c_ops :: "op list"
  c_template :: string
  c_signers :: "pubkey list"
  c_tmp :: string
  c_backup_root :: string
  c_dry :: bool
  c_txid :: string
  c_lib :: sshlib
  c_sha :: "string \<Rightarrow> string"

datatype outcome = Committed | DryRun | AbortedReverted | RevertUnverified | NothingChanged

record user_file =
  u_user :: string
  u_path :: string
  u_uid :: string
  u_gid :: string
  u_home :: string
  u_info :: file_info
  u_dirinfo :: file_info
  u_orig :: string
  u_orig_exists :: bool
  u_work :: keyfile
  u_dirty :: bool
  u_manifested :: bool
  u_unconfirmed :: bool
  u_bak :: string

record meta_op =
  mo_user :: string
  mo_action :: action
  mo_spec :: string

record meta_file =
  mf_user :: string
  mf_path :: string
  mf_existed :: bool
  mf_uid :: string
  mf_gid :: string
  mf_mode :: string
  mf_sha :: string
  mf_local :: string

record meta =
  m_txid :: string
  m_target :: string
  m_outcome :: outcome
  m_ops :: "meta_op list"
  m_files :: "meta_file list"

record txn = world +
  x_ops :: "op list"
  x_rootly :: bool
  x_txdir :: string
  x_localdir :: string
  x_guarded :: bool
  x_files :: "string \<rightharpoonup> user_file"
  x_order :: "string list"
  x_meta :: "meta option"

datatype tx_error =
    NoOperations
  | InvalidUsername string
  | AddNeedsKey string string
  | SelfCancelling string string string string
  | LocalFailed
  | DialFailed
  | WhoamiFailed remote_error
  | TxDirFailed remote_error
  | GuardFailed guard_error
  | ConnectionLost
  | GuardSessionExited
  | HealthProbeFailed remote_error
  | TrapAlreadyFired
  | LookupFailed string remote_error
  | StatFailed string remote_error
  | TargetIsSymlink string
  | ParentIsSymlink string
  | HandoverRefused string handover
  | ReadFailed string remote_error
  | BackupFailed string remote_error
  | ManifestFailed string remote_error
  | ForensicFailed string remote_error
  | SwapFailed string remote_error
  | StillPresent string string
  | ControlError string probe_error
  | ControlFailed string
  | ProbeFailed probe_error
  | StillAccepted string pubkey
  | NotAccepted string pubkey
  | WouldLeaveNoKeys string
  | AccessError string probe_error
  | NoKeyAccepted string
  | MarkerFailed remote_error
  | NilPointer

record result =
  r_outcome :: outcome
  r_local :: string
  r_err :: "tx_error option"

type_synonym 'a tx = "(txn, tx_error, 'a) comp"

section \<open>Validation\<close>

text \<open>\<^verbatim>\<open>rejectSelfCancellingOps\<close>: the first addition a removal for the same user undoes.\<close>

definition cancels :: "sshlib \<Rightarrow> op \<Rightarrow> op \<Rightarrow> bool" where
  "cancels L a r \<longleftrightarrow>
     op_action r = RemoveKey \<and> op_user r = op_user a \<and>
     (case op_key a of None \<Rightarrow> False | Some k \<Rightarrow> matches_key L (op_matcher r) k)"

fun reject_self_cancelling :: "sshlib \<Rightarrow> op list \<Rightarrow> op list \<Rightarrow> tx_error option" where
  "reject_self_cancelling L ops [] = None"
| "reject_self_cancelling L ops (a # as) =
     (case op_key a of
        Some k \<Rightarrow>
          if op_action a = AddKey
          then (case find (cancels L a) ops of
                  Some r \<Rightarrow> Some (SelfCancelling (fingerprint L k) (op_spec a) (op_spec r) (op_user a))
                | None \<Rightarrow> reject_self_cancelling L ops as)
          else reject_self_cancelling L ops as
      | None \<Rightarrow> reject_self_cancelling L ops as)"

fun validate_ops :: "op list \<Rightarrow> tx_error option" where
  "validate_ops [] = None"
| "validate_ops (a # as) =
     (if \<not> valid_username (op_user a) then Some (InvalidUsername (op_user a))
      else if op_action a = AddKey \<and> op_key a = None then Some (AddNeedsKey (op_user a) (op_spec a))
      else validate_ops as)"

definition validate :: "config \<Rightarrow> tx_error option" where
  "validate c =
     (if c_ops c = [] then Some NoOperations
      else (case validate_ops (c_ops c) of
              Some err \<Rightarrow> Some err
            | None \<Rightarrow> reject_self_cancelling (c_lib c) (c_ops c) (c_ops c)))"

section \<open>Access to the state\<close>

definition with_file :: "string \<Rightarrow> (user_file \<Rightarrow> 'a tx) \<Rightarrow> 'a tx" where
  "with_file u k = andThen (gets (\<lambda>t. x_files t u))
     (\<lambda>z. case z of None \<Rightarrow> throw NilPointer | Some uf \<Rightarrow> k uf)"

definition set_file :: "string \<Rightarrow> user_file \<Rightarrow> unit tx" where
  "set_file u uf = modify (\<lambda>t. t\<lparr>x_files := (x_files t)(u \<mapsto> uf)\<rparr>)"

text \<open>\<^verbatim>\<open>os.MkdirAll\<close> and \<^verbatim>\<open>os.WriteFile\<close> on the local disk.\<close>

definition local_mkdir :: "host \<Rightarrow> unit tx" where
  "local_mkdir h = (\<lambda>t. (if h_disk h (w_tick t) then Inl LocalFailed else Inr (), t\<lparr>w_tick := Suc (w_tick t)\<rparr>))"

definition local_write :: "host \<Rightarrow> string \<Rightarrow> string \<Rightarrow> unit tx" where
  "local_write h path content = (\<lambda>t.
     if h_disk h (w_tick t) then (Inl LocalFailed, t\<lparr>w_tick := Suc (w_tick t)\<rparr>)
     else (Inr (), t\<lparr>w_tick := Suc (w_tick t), w_local := (w_local t)(path \<mapsto> content)\<rparr>))"

text \<open>Where backups go: the configured root, or the user's state directory.\<close>

definition backup_root :: "host \<Rightarrow> config \<Rightarrow> string option" where
  "backup_root h c =
     (if c_backup_root c \<noteq> [] then Some (c_backup_root c)
      else (case h_home h of
              None \<Rightarrow> None
            | Some home \<Rightarrow>
                Some (if h_xdg h \<noteq> [] then path_join [h_xdg h, ''sshkeytx'']
                      else path_join [home, ''.local'', ''state'', ''sshkeytx''])))"

definition setup_local :: "host \<Rightarrow> config \<Rightarrow> unit tx" where
  "setup_local h c =
     (case backup_root h c of
        None \<Rightarrow> throw LocalFailed
      | Some root \<Rightarrow>
          andThen (modify (\<lambda>t. t\<lparr>x_localdir := path_join [root, c_txid c]\<rparr>)) (\<lambda>_. local_mkdir h))"

section \<open>Step 1: connect\<close>

definition check_health :: "host \<Rightarrow> unit tx" where
  "check_health h =
     andThen (gets (\<lambda>t. h_watchdog h (w_tick t))) (\<lambda>lost.
     if lost then throw ConnectionLost else
     andThen (gets (guard_alive h)) (\<lambda>alive.
     if \<not> alive then throw GuardSessionExited else
     andThen (gets x_txdir) (\<lambda>tx.
     andThen (wrap_err HealthProbeFailed (run h (health_cmd tx) [])) (\<lambda>out.
     if contains out ''RESTORED'' then throw TrapAlreadyFired else ret ()))))"

text \<open>The deferred cleanup of \<^verbatim>\<open>connect\<close>; closing the connection ends nothing more here.\<close>

definition connect_cleanup :: "host \<Rightarrow> unit tx" where
  "connect_cleanup h =
     andThen (gets x_guarded) (\<lambda>g.
     andThen (if g then andThen (attempt (close_graceful h)) (\<lambda>_. ret ()) else ret ()) (\<lambda>_.
     andThen (gets x_txdir) (\<lambda>tx.
     if tx \<noteq> [] then andThen (attempt (rm_rf h tx)) (\<lambda>_. ret ()) else ret ())))"

definition connect_steps :: "host \<Rightarrow> config \<Rightarrow> unit tx" where
  "connect_steps h c =
     andThen (wrap_err WhoamiFailed (whoami h)) (\<lambda>uid.
     andThen (modify (\<lambda>t. t\<lparr>x_rootly := (uid = ''0'')\<rparr>)) (\<lambda>_.
     andThen (wrap_err TxDirFailed (mk_txdir h (c_tmp c) (c_txid c))) (\<lambda>tx.
     andThen (modify (\<lambda>t. t\<lparr>x_txdir := tx\<rparr>)) (\<lambda>_.
     andThen (wrap_err GuardFailed (start_guard h tx)) (\<lambda>_.
     andThen (modify (\<lambda>t. t\<lparr>x_guarded := True\<rparr>)) (\<lambda>_.
     check_health h))))))"

definition connect :: "host \<Rightarrow> config \<Rightarrow> unit tx" where
  "connect h c =
     (if \<not> h_login h then throw DialFailed
      else andThen (attempt (connect_steps h c)) (\<lambda>r.
        case r of
          Inr _ \<Rightarrow> ret ()
        | Inl err \<Rightarrow> andThen (connect_cleanup h) (\<lambda>_. throw err)))"

section \<open>Loading\<close>

definition target_of :: "bool \<Rightarrow> config \<Rightarrow> string \<Rightarrow> string \<Rightarrow> string \<Rightarrow> file_info \<Rightarrow> file_info \<Rightarrow> write_target" where
  "target_of rootly c user uid gid info dir =
     \<lparr>t_root = rootly, t_guard_user = tg_user (c_target c), t_user = user, t_uid = uid, t_gid = gid,
      t_file = info, t_dir = dir\<rparr>"

definition load_file :: "host \<Rightarrow> config \<Rightarrow> string \<Rightarrow> unit tx" where
  "load_file h c u =
     andThen (wrap_err (LookupFailed u) (lookup_user h u)) (\<lambda>(uid, gid, home).
     let path = expand_template u home (c_template c) in
     andThen (wrap_err (StatFailed path) (stat h path)) (\<lambda>info.
     if i_symlink info then throw (TargetIsSymlink path) else
     andThen (wrap_err (StatFailed path) (stat h (dir_of path))) (\<lambda>dir.
     if i_symlink dir then throw (ParentIsSymlink path) else
     andThen (gets x_rootly) (\<lambda>rootly.
     case check_write_target (target_of rootly c u uid gid info dir) of
       Some ho \<Rightarrow> throw (HandoverRefused path ho)
     | None \<Rightarrow>
     andThen (wrap_err (ReadFailed path) (read_file h path)) (\<lambda>(content, ex).
     modify (\<lambda>t. t\<lparr>x_files := (x_files t)(u \<mapsto>
         \<lparr>u_user = u, u_path = path, u_uid = uid, u_gid = gid, u_home = home, u_info = info,
          u_dirinfo = dir, u_orig = content, u_orig_exists = ex, u_work = parse_file (c_lib c) content,
          u_dirty = False, u_manifested = False, u_unconfirmed = False, u_bak = []\<rparr>),
        x_order := x_order t @ [u]\<rparr>))))))"

definition user_names :: "op list \<Rightarrow> string list" where
  "user_names ops = sort (remdups (map op_user ops))"

definition load_files :: "host \<Rightarrow> config \<Rightarrow> unit tx" where
  "load_files h c = for_each (load_file h c) (user_names (c_ops c))"

section \<open>Copy and swap\<close>

definition local_path :: "txn \<Rightarrow> user_file \<Rightarrow> string" where
  "local_path t uf = path_join [x_localdir t, ''files'', u_user uf, ''authorized_keys'']"

definition backup_path :: "string \<Rightarrow> user_file \<Rightarrow> string" where
  "backup_path tx uf = tx @ ''/backup/'' @ u_user uf"

definition entry_of :: "string \<Rightarrow> user_file \<Rightarrow> entry" where
  "entry_of tx uf = (if u_orig_exists uf then FEntry (backup_path tx uf) (u_path uf) else AEntry (u_path uf))"

definition first_copy :: "host \<Rightarrow> string \<Rightarrow> user_file \<Rightarrow> unit tx" where
  "first_copy h u uf =
     andThen (local_mkdir h) (\<lambda>_.
     andThen (gets (\<lambda>t. local_path t uf)) (\<lambda>lp.
     andThen (if u_orig_exists uf then local_write h lp (u_orig uf) else ret ()) (\<lambda>_.
     andThen (gets x_txdir) (\<lambda>tx.
     let uf' = uf\<lparr>u_bak := backup_path tx uf\<rparr> in
     andThen (set_file u uf') (\<lambda>_.
     andThen (if u_orig_exists uf
              then wrap_err (BackupFailed (u_path uf)) (write_file h (u_bak uf') (u_orig uf))
              else ret ()) (\<lambda>_.
     andThen (wrap_err (ManifestFailed (u_path uf))
               (append_file h (tx @ ''/manifest'') (manifest_line (entry_of tx uf)))) (\<lambda>_.
     set_file u (uf'\<lparr>u_manifested := True\<rparr>))))))))"

definition later_copy :: "host \<Rightarrow> string \<Rightarrow> user_file \<Rightarrow> unit tx" where
  "later_copy h phase uf =
     (let snap = u_bak uf @ ''.pre-'' @ phase in
      andThen (wrap_err (ForensicFailed (u_path uf)) (read_file h (u_path uf))) (\<lambda>(content, ex).
      if \<not> ex then ret () else
      andThen (wrap_err (ForensicFailed (u_path uf)) (write_file h snap content)) (\<lambda>_.
      andThen (gets (\<lambda>t. local_path t uf)) (\<lambda>lp.
      local_write h (lp @ ''.pre-'' @ phase) content))))"

definition ensure_cas :: "host \<Rightarrow> string \<Rightarrow> string \<Rightarrow> unit tx" where
  "ensure_cas h u phase =
     with_file u (\<lambda>uf. if \<not> u_manifested uf then first_copy h u uf else later_copy h phase uf)"

definition tx_opts :: "config \<Rightarrow> bool \<Rightarrow> user_file \<Rightarrow> write_opts" where
  "tx_opts c rootly uf =
     decide_write_opts
       (target_of rootly c (u_user uf) (u_uid uf) (u_gid uf) (u_info uf) (u_dirinfo uf))"

definition is_exit_error :: "remote_error \<Rightarrow> bool" where
  "is_exit_error err = (case err of ExitError _ \<Rightarrow> True | _ \<Rightarrow> False)"

definition swap :: "host \<Rightarrow> config \<Rightarrow> string \<Rightarrow> unit tx" where
  "swap h c u =
     with_file u (\<lambda>uf.
     andThen (set_file u (uf\<lparr>u_dirty := True\<rparr>)) (\<lambda>_.
     andThen (gets x_rootly) (\<lambda>rootly.
     andThen (attempt (swap_file h (u_path uf) (render_file (u_work uf)) (tx_opts c rootly uf))) (\<lambda>r.
     case r of
       Inr _ \<Rightarrow> ret ()
     | Inl err \<Rightarrow>
         andThen (set_file u (if is_exit_error err then uf\<lparr>u_dirty := False\<rparr>
                              else uf\<lparr>u_dirty := True, u_unconfirmed := True\<rparr>))
           (\<lambda>_. throw (SwapFailed (u_path uf) err))))))"

section \<open>Step 4: removals\<close>

definition ops_by :: "action \<Rightarrow> op list \<Rightarrow> string \<Rightarrow> op list" where
  "ops_by a ops u = filter (\<lambda>p. op_action p = a \<and> op_user p = u) ops"

text \<open>The loop over one file's removals: edited copy, operations with their keys, changed or not.\<close>

fun remove_ops :: "sshlib \<Rightarrow> op list \<Rightarrow> keyfile \<Rightarrow> op list \<times> keyfile \<times> bool" where
  "remove_ops L [] f = ([], f, False)"
| "remove_ops L (p # ps) f =
     (let (f', removed) = remove_keys L (op_matcher p) f;
          p' = (case removed of
                  [] \<Rightarrow> p
                | l # _ \<Rightarrow> if op_key p = None \<and> l_key l \<noteq> None then p\<lparr>op_key := l_key l\<rparr> else p);
          (ps', f'', changed) = remove_ops L ps f'
      in (p' # ps', f'', removed \<noteq> [] \<or> changed))"

definition remove_from :: "host \<Rightarrow> config \<Rightarrow> string \<Rightarrow> op list \<Rightarrow> op list tx" where
  "remove_from h c u ops =
     with_file u (\<lambda>uf.
     if ops = [] then ret [] else
     (let (ops', work, changed) = remove_ops (c_lib c) ops (u_work uf) in
      andThen (set_file u (uf\<lparr>u_work := work\<rparr>)) (\<lambda>_.
      if \<not> changed then ret ops' else
      andThen (ensure_cas h u ''remove'') (\<lambda>_.
      andThen (swap h c u) (\<lambda>_. ret ops')))))"

primrec remove_files ::
  "host \<Rightarrow> config \<Rightarrow> string list \<Rightarrow> (string \<Rightarrow> op list) \<Rightarrow> (string \<Rightarrow> op list) tx" where
  "remove_files h c [] removals = ret removals"
| "remove_files h c (u # us) removals =
     andThen (remove_from h c u (removals u)) (\<lambda>ops. remove_files h c us (removals(u := ops)))"

definition enrich_op :: "(string \<Rightarrow> op list) \<Rightarrow> op \<Rightarrow> op" where
  "enrich_op removals p =
     (if op_action p \<noteq> RemoveKey \<or> op_key p \<noteq> None then p
      else foldl (\<lambda>q e. if op_spec e = op_spec p \<and> op_key e \<noteq> None then q\<lparr>op_key := op_key e\<rparr> else q)
             p (removals (op_user p)))"

definition phase_remove :: "host \<Rightarrow> config \<Rightarrow> unit tx" where
  "phase_remove h c =
     andThen (gets x_ops) (\<lambda>ops.
     if \<not> (\<exists>p \<in> set ops. op_action p = RemoveKey) then ret () else
     andThen (check_health h) (\<lambda>_.
     andThen (gets x_order) (\<lambda>order.
     andThen (remove_files h c order (ops_by RemoveKey ops)) (\<lambda>removals.
     modify (\<lambda>t. t\<lparr>x_ops := map (enrich_op removals) (x_ops t)\<rparr>)))))"

section \<open>Probing\<close>

text \<open>
  A fresh connection is one tick; sshd sees the file system of that moment.  The guard
  session may end before it as before any command.
\<close>

definition dial ::
  "host \<Rightarrow> (target \<Rightarrow> dial_result \<Rightarrow> probe_error + probe_result) \<Rightarrow>
    (nat \<Rightarrow> fs \<Rightarrow> target \<Rightarrow> pubkey \<Rightarrow> dial_result) \<Rightarrow> target \<Rightarrow> pubkey \<Rightarrow> ('z world_scheme, probe_error, probe_result) comp" where
  "dial h verdict server t k w =
     (let w = guard_step h w in
      (verdict t (server (w_tick w) (w_fs w) t k), w\<lparr>w_tick := Suc (w_tick w)\<rparr>))"

definition probe_attempts :: nat where
  "probe_attempts = 3"

primrec retry :: "nat \<Rightarrow> ('z world_scheme, probe_error, probe_result) comp \<Rightarrow> ('z world_scheme, probe_error, probe_result) comp" where
  "retry 0 m = m"
| "retry (Suc n) m =
     andThen (attempt m) (\<lambda>r. case r of Inr res \<Rightarrow> ret res | Inl _ \<Rightarrow> retry n m)"

definition probe_verdict :: "('z world_scheme, probe_error, probe_result) comp \<Rightarrow> ('z world_scheme, probe_error, probe_result) comp" where
  "probe_verdict m = retry (probe_attempts - 1) m"

definition probe :: "host \<Rightarrow> config \<Rightarrow> string \<Rightarrow> pubkey \<Rightarrow> (txn, probe_error, probe_result) comp" where
  "probe h c u k = probe_verdict (dial h probe_key (h_query h) (with_user (c_target c) u) k)"

text \<open>\<^verbatim>\<open>someKeyAccepted\<close>: \<open>lerr\<close> is the last connection-level error seen.\<close>

fun some_key_accepted ::
  "host \<Rightarrow> config \<Rightarrow> string \<Rightarrow> probe_error option \<Rightarrow> pubkey list \<Rightarrow> (txn, probe_error, bool) comp" where
  "some_key_accepted h c u lerr [] =
     (case lerr of Some err \<Rightarrow> throw err | None \<Rightarrow> ret False)"
| "some_key_accepted h c u lerr (k # ks) =
     andThen (attempt (probe h c u k)) (\<lambda>r.
     case r of
       Inl err \<Rightarrow> some_key_accepted h c u (Some err) ks
     | Inr res \<Rightarrow> if accepted res then ret True else some_key_accepted h c u lerr ks)"

section \<open>Step 5: removed keys are refused\<close>

fun control_users :: "string list \<Rightarrow> op list \<Rightarrow> string list" where
  "control_users done [] = []"
| "control_users done (p # ps) =
     (if op_action p \<noteq> RemoveKey \<or> op_user p \<in> set done then control_users done ps
      else op_user p # control_users (op_user p # done) ps)"

definition positive_control :: "host \<Rightarrow> config \<Rightarrow> string \<Rightarrow> unit tx" where
  "positive_control h c u =
     with_file u (\<lambda>uf.
     if live_keys (u_work uf) = [] then ret () else
     andThen (wrap_err (ControlError u) (some_key_accepted h c u None (live_keys (u_work uf)))) (\<lambda>ok.
     if ok then ret () else throw (ControlFailed u)))"

definition verify_removed :: "host \<Rightarrow> config \<Rightarrow> op \<Rightarrow> unit tx" where
  "verify_removed h c p =
     (if op_action p \<noteq> RemoveKey then ret ()
      else (case op_key p of
        None \<Rightarrow>
          with_file (op_user p) (\<lambda>uf.
          if find_keys (c_lib c) (op_matcher p) (u_work uf) \<noteq> []
          then throw (StillPresent (op_user p) (matcher_string (c_lib c) (op_matcher p))) else ret ())
      | Some k \<Rightarrow>
          andThen (wrap_err ProbeFailed (probe h c (op_user p) k)) (\<lambda>res.
          if accepted res then throw (StillAccepted (op_user p) k) else ret ())))"

definition phase_verify_removed :: "host \<Rightarrow> config \<Rightarrow> unit tx" where
  "phase_verify_removed h c =
     andThen (gets x_ops) (\<lambda>ops.
     if \<not> (\<exists>p \<in> set ops. op_action p = RemoveKey) then ret () else
     andThen (check_health h) (\<lambda>_.
     andThen (for_each (positive_control h c) (control_users [] ops)) (\<lambda>_.
     for_each (verify_removed h c) ops)))"

section \<open>Steps 2 and 3: additions\<close>

text \<open>The loop over one file's additions; validation has made sure that each has its key.\<close>

fun add_ops :: "sshlib \<Rightarrow> op list \<Rightarrow> keyfile \<Rightarrow> keyfile \<times> bool" where
  "add_ops L [] f = (f, False)"
| "add_ops L (p # ps) f =
     (case op_key p of
        None \<Rightarrow> add_ops L ps f
      | Some k \<Rightarrow>
          (let (f', added) = add_key L k (op_comment p) (op_options p) f;
               (f'', changed) = add_ops L ps f'
           in (f'', added \<or> changed)))"

definition add_to :: "host \<Rightarrow> config \<Rightarrow> op list \<Rightarrow> string \<Rightarrow> unit tx" where
  "add_to h c all u =
     (let ops = ops_by AddKey all u in
      if ops = [] then ret () else
      andThen (ensure_cas h u ''add'') (\<lambda>_.
      with_file u (\<lambda>uf.
      (let (work, changed) = add_ops (c_lib c) ops (u_work uf) in
       andThen (set_file u (uf\<lparr>u_work := work\<rparr>)) (\<lambda>_.
       if changed then swap h c u else ret ())))))"

definition phase_add :: "host \<Rightarrow> config \<Rightarrow> unit tx" where
  "phase_add h c =
     andThen (gets x_ops) (\<lambda>ops.
     if \<not> (\<exists>p \<in> set ops. op_action p = AddKey) then ret () else
     andThen (check_health h) (\<lambda>_.
     andThen (gets x_order) (\<lambda>order. for_each (add_to h c ops) order)))"

definition match_signer :: "pubkey list \<Rightarrow> pubkey \<Rightarrow> pubkey option" where
  "match_signer signers k = find (\<lambda>s. key_blob s = key_blob k) signers"

definition verify_added :: "host \<Rightarrow> config \<Rightarrow> op \<Rightarrow> unit tx" where
  "verify_added h c p =
     (if op_action p \<noteq> AddKey then ret ()
      else (case op_key p of
        None \<Rightarrow> throw NilPointer
      | Some k \<Rightarrow>
          andThen (wrap_err ProbeFailed
            (case match_signer (c_signers c) k of
               Some s \<Rightarrow> probe_verdict (dial h verify_auth (h_auth h) (with_user (c_target c) (op_user p)) s)
             | None \<Rightarrow> probe h c (op_user p) k)) (\<lambda>res.
          if accepted res then ret () else throw (NotAccepted (op_user p) k))))"

definition phase_verify_added :: "host \<Rightarrow> config \<Rightarrow> unit tx" where
  "phase_verify_added h c =
     andThen (gets x_ops) (\<lambda>ops.
     if \<not> (\<exists>p \<in> set ops. op_action p = AddKey) then ret () else
     andThen (check_health h) (\<lambda>_. for_each (verify_added h c) ops))"

section \<open>Step 6: commit\<close>

definition prove_access_for :: "host \<Rightarrow> config \<Rightarrow> string \<Rightarrow> unit tx" where
  "prove_access_for h c u =
     with_file u (\<lambda>uf.
     if \<not> u_dirty uf then ret ()
     else if live_keys (u_work uf) = [] then throw (WouldLeaveNoKeys (u_path uf))
     else andThen (wrap_err (AccessError u) (some_key_accepted h c u None (live_keys (u_work uf)))) (\<lambda>ok.
       if ok then ret () else throw (NoKeyAccepted (u_path uf))))"

definition prove_access :: "host \<Rightarrow> config \<Rightarrow> unit tx" where
  "prove_access h c = andThen (gets x_order) (\<lambda>order. for_each (prove_access_for h c) order)"

definition commit :: "host \<Rightarrow> config \<Rightarrow> unit tx" where
  "commit h c =
     andThen (check_health h) (\<lambda>_.
     andThen (prove_access h c) (\<lambda>_.
     andThen (gets x_txdir) (\<lambda>tx.
     andThen (wrap_err MarkerFailed (write_file h (tx @ ''/commit'') (c_txid c @ [NL]))) (\<lambda>_.
     andThen (attempt (close_graceful h)) (\<lambda>_.
     andThen (attempt (rm_rf h tx)) (\<lambda>_. ret ()))))))"

definition release_guard_no_changes :: "host \<Rightarrow> unit tx" where
  "release_guard_no_changes h = connect_cleanup h"

section \<open>Abort\<close>

text \<open>Whether the revert of one file failed or could not be verified.\<close>

definition revert_file :: "host \<Rightarrow> config \<Rightarrow> user_file \<Rightarrow> bool tx" where
  "revert_file h c uf =
     andThen (gets x_rootly) (\<lambda>rootly.
     andThen (attempt (if u_orig_exists uf
                       then swap_file h (u_path uf) (u_orig uf) (tx_opts c rootly uf)
                       else remove_path h (u_path uf))) (\<lambda>r.
     case r of
       Inl _ \<Rightarrow> ret True
     | Inr _ \<Rightarrow>
         andThen (attempt (read_file h (u_path uf))) (\<lambda>got.
         case got of
           Inl _ \<Rightarrow> ret True
         | Inr (content, ex) \<Rightarrow>
             if u_orig_exists uf then ret (\<not> ex \<or> content \<noteq> u_orig uf) else ret ex)))"

primrec revert_files :: "host \<Rightarrow> config \<Rightarrow> string list \<Rightarrow> bool \<Rightarrow> bool tx" where
  "revert_files h c [] failed = ret failed"
| "revert_files h c (u # us) failed =
     with_file u (\<lambda>uf.
     if \<not> u_dirty uf then revert_files h c us failed
     else andThen (revert_file h c uf) (\<lambda>f. revert_files h c us (failed \<or> f)))"

definition meta_of :: "config \<Rightarrow> txn \<Rightarrow> outcome \<Rightarrow> meta" where
  "meta_of c t out =
     \<lparr>m_txid = c_txid c, m_target = target_string (c_target c), m_outcome = out,
      m_ops = map (\<lambda>p. \<lparr>mo_user = op_user p, mo_action = op_action p, mo_spec = op_spec p\<rparr>) (x_ops t),
      m_files = List.map_filter (\<lambda>u. map_option (\<lambda>uf.
         \<lparr>mf_user = u_user uf, mf_path = u_path uf, mf_existed = u_orig_exists uf,
          mf_uid = (if i_exists (u_info uf) then i_uid (u_info uf) else []),
          mf_gid = (if i_exists (u_info uf) then i_gid (u_info uf) else []),
          mf_mode = (if i_exists (u_info uf) then i_mode (u_info uf) else []),
          mf_sha = (if u_orig_exists uf then c_sha c (u_orig uf) else []),
          mf_local = (if u_orig_exists uf then local_path t uf else [])\<rparr>) (x_files t u)) (x_order t)\<rparr>"

text \<open>The record is written if the disk takes it; a failure is ignored.\<close>

definition finish_meta :: "host \<Rightarrow> config \<Rightarrow> outcome \<Rightarrow> unit tx" where
  "finish_meta h c out = (\<lambda>t.
     (Inr (), if h_disk h (w_tick t) then t else t\<lparr>x_meta := Some (meta_of c t out)\<rparr>))"

definition finish :: "host \<Rightarrow> config \<Rightarrow> outcome \<Rightarrow> tx_error option \<Rightarrow> result tx" where
  "finish h c out err =
     andThen (finish_meta h c out) (\<lambda>_.
     andThen (gets x_localdir) (\<lambda>d. ret \<lparr>r_outcome = out, r_local = d, r_err = err\<rparr>))"

definition abort :: "host \<Rightarrow> config \<Rightarrow> tx_error \<Rightarrow> result tx" where
  "abort h c cause =
     andThen (gets x_order) (\<lambda>order.
     andThen (revert_files h c order False) (\<lambda>failed.
     if failed then finish h c RevertUnverified (Some cause) else
     andThen (gets x_txdir) (\<lambda>tx.
     andThen (attempt (write_file h (tx @ ''/commit'') (''aborted-reverted'' @ [NL]))) (\<lambda>_.
     andThen (gets x_guarded) (\<lambda>g.
     andThen (if g then andThen (attempt (close_graceful h)) (\<lambda>_. ret ()) else ret ()) (\<lambda>_.
     finish h c AbortedReverted (Some cause)))))))"

section \<open>The plan and the run\<close>

text \<open>What a dry run prints: for each file and operation, the lines that match.\<close>

definition plan_only :: "config \<Rightarrow> txn \<Rightarrow> (string \<times> op \<times> nat) list" where
  "plan_only c t =
     concat (map (\<lambda>u.
       case x_files t u of
         None \<Rightarrow> []
       | Some uf \<Rightarrow>
           map (\<lambda>p. (u_path uf, p,
                     length (find_keys (c_lib c)
                       (case op_action p of
                          RemoveKey \<Rightarrow> op_matcher p
                        | AddKey \<Rightarrow> \<lparr>m_key = op_key p, m_fp = []\<rparr>) (u_work uf))))
             (filter (\<lambda>p. op_user p = u) (x_ops t))) (x_order t))"

definition phases :: "host \<Rightarrow> config \<Rightarrow> unit tx" where
  "phases h c =
     andThen (phase_add h c) (\<lambda>_.
     andThen (phase_verify_added h c) (\<lambda>_.
     andThen (phase_remove h c) (\<lambda>_.
     andThen (phase_verify_removed h c) (\<lambda>_.
     commit h c))))"

definition with_defaults :: "config \<Rightarrow> config" where
  "with_defaults c =
     c\<lparr>c_template := (if c_template c = [] then ''%h/.ssh/authorized_keys'' else c_template c),
       c_tmp := (if c_tmp c = [] then ''/tmp'' else c_tmp c)\<rparr>"

definition run_tx :: "host \<Rightarrow> config \<Rightarrow> result tx" where
  "run_tx h c0 =
     (let c = with_defaults c0 in
      case validate c of
        Some err \<Rightarrow> ret \<lparr>r_outcome = NothingChanged, r_local = [], r_err = Some err\<rparr>
      | None \<Rightarrow>
      andThen (attempt (setup_local h c)) (\<lambda>r.
      case r of
        Inl err \<Rightarrow> ret \<lparr>r_outcome = NothingChanged, r_local = [], r_err = Some err\<rparr>
      | Inr _ \<Rightarrow>
      andThen (attempt (connect h c)) (\<lambda>r.
      case r of
        Inl err \<Rightarrow> finish h c NothingChanged (Some err)
      | Inr _ \<Rightarrow>
      andThen (attempt (load_files h c)) (\<lambda>r.
      case r of
        Inl err \<Rightarrow> andThen (release_guard_no_changes h) (\<lambda>_. finish h c NothingChanged (Some err))
      | Inr _ \<Rightarrow>
      if c_dry c
      then andThen (release_guard_no_changes h) (\<lambda>_. finish h c DryRun None)
      else
        andThen (attempt (phases h c)) (\<lambda>r.
        case r of
          Inl err \<Rightarrow> abort h c err
        | Inr _ \<Rightarrow> finish h c Committed None)))))"

definition start_txn :: "world \<Rightarrow> config \<Rightarrow> txn" where
  "start_txn w c =
     \<lparr>w_fs = w_fs w, w_tick = w_tick w, w_guard = NoGuard, w_local = w_local w, x_ops = c_ops c,
      x_rootly = False, x_txdir = [], x_localdir = [], x_guarded = False, x_files = Map.empty,
      x_order = [], x_meta = None\<rparr>"

text \<open>
  When the program is gone its connection closes: a guard session still there ends, and
  its trap runs.
\<close>

definition settle :: "host \<Rightarrow> shenv \<Rightarrow> 'z world_scheme \<Rightarrow> 'z world_scheme" where
  "settle h e w = (case w_guard w of Armed tx \<Rightarrow> fire h e tx w | _ \<Rightarrow> w)"

end
