(* ===== verification/Cli.thy ===== *)
theory Cli
  imports Tx_Model
begin

text \<open>
  Package \<^verbatim>\<open>internal/cli\<close> (cli.go) and main.go: the flags, the \<^verbatim>\<open>user=KEY\<close> arguments, the
  commands and the exit code.  A command is a computation on the world of Remote_Ops, with
  the local disk in it, extended with the lines printed so far.  Cobra's parsing of the
  command line, the local machine beyond its disk, and the JSON form of a transaction's
  record are parameters.
\<close>

section \<open>Flags and the local machine\<close>

record root_flags =
  rf_target :: string
  rf_identities :: "string list"
  rf_no_agent :: bool
  rf_known_hosts :: "string list"
  rf_host_key_fp :: string
  rf_insecure :: bool
  rf_path :: string
  rf_tmp :: string

definition default_flags :: root_flags where
  "default_flags =
     \<lparr>rf_target = [], rf_identities = [], rf_no_agent = False, rf_known_hosts = [], rf_host_key_fp = [],
      rf_insecure = False, rf_path = ''%h/.ssh/authorized_keys'', rf_tmp = ''/tmp''\<rparr>"

text \<open>
  Of the local machine: which files cannot be read, which paths are directories, what a
  private key file holds, the agent, and whether \<^verbatim>\<open>knownhosts.New\<close> takes a list of files.
  A signer is named by its public key.
\<close>

record machine =
  l_lib :: sshlib
  l_denied :: "string \<Rightarrow> bool"
  l_isdir :: "string \<Rightarrow> bool"
  l_private :: "string \<Rightarrow> pubkey key_file"
  l_sock :: string
  l_agent_up :: "string \<Rightarrow> bool"
  l_agent_keys :: "string \<Rightarrow> pubkey list option"
  l_known_ok :: "string list \<Rightarrow> bool"
  l_parse_meta :: "string \<Rightarrow> meta option"
  l_render_meta :: "meta \<Rightarrow> string"
  l_sha :: "string \<Rightarrow> string"
  l_txid :: string

type_synonym disk = "string \<rightharpoonup> string"

definition read_local :: "machine \<Rightarrow> disk \<Rightarrow> string \<Rightarrow> string option" where
  "read_local m d p = (if l_denied m p then None else d p)"

definition stat_local :: "machine \<Rightarrow> disk \<Rightarrow> string \<Rightarrow> bool" where
  "stat_local m d p \<longleftrightarrow> l_isdir m p \<or> d p \<noteq> None"

definition read_private :: "machine \<Rightarrow> disk \<Rightarrow> string \<Rightarrow> pubkey key_file" where
  "read_private m d p = (case read_local m d p of None \<Rightarrow> Unreadable | Some pem \<Rightarrow> l_private m pem)"

definition default_known_hosts :: "host \<Rightarrow> string list" where
  "default_known_hosts h = (case h_home h of None \<Rightarrow> [] | Some home \<Rightarrow> [home @ ''/.ssh/known_hosts''])"

section \<open>Errors and exit codes\<close>

datatype spec_fault = NoEquals string | SpecUser string string | KeyFileUnreadable string | SpecKey string spec_error

datatype usage =
    NoTarget
  | TargetBad target_error
  | NothingToDo
  | SpecBad spec_fault
  | NeedsFullKey string string
  | HostKeyBad policy_error
  | AuthBad auth_error
  | SignerBad string
  | NoFrom
  | MetaUnreadable string
  | MetaMalformed
  | OtherHost string string
  | MetaUser string
  | MetaRelative string
  | MetaNotAuthorizedKeys string
  | BackupUnreadable string
  | Panicked tx_error

datatype cause =
    TxAborted "tx_error option"
  | DialRefused
  | RemoteFailed remote_error
  | ProbeInconclusive probe_error
  | Violations nat
  | Rejections nat
  | SymlinkInPath string
  | HandoverFor string handover

datatype cli_error = Usage usage | ExitWith nat cause

definition ExitOK :: nat where "ExitOK = 0"
definition ExitAbortedReverted :: nat where "ExitAbortedReverted = 1"
definition ExitUsage :: nat where "ExitUsage = 2"
definition ExitRevertUnverified :: nat where "ExitRevertUnverified = 3"
definition ExitPreflight :: nat where "ExitPreflight = 4"

definition as_exit_error :: "cli_error \<Rightarrow> (nat \<times> cause) option" where
  "as_exit_error err = (case err of ExitWith n c \<Rightarrow> Some (n, c) | Usage _ \<Rightarrow> None)"

definition exit_code :: "cli_error + unit \<Rightarrow> nat" where
  "exit_code r =
     (case r of
        Inr _ \<Rightarrow> ExitOK
      | Inl err \<Rightarrow> (case as_exit_error err of Some (code, _) \<Rightarrow> code | None \<Rightarrow> ExitUsage))"

definition lift_sum :: "('e \<Rightarrow> 'f) \<Rightarrow> 'e + 'a \<Rightarrow> ('s, 'f, 'a) comp" where
  "lift_sum g r = (case r of Inl e \<Rightarrow> throw (g e) | Inr x \<Rightarrow> ret x)"

section \<open>The flags' values\<close>

definition target_or_err :: "root_flags \<Rightarrow> usage + target" where
  "target_or_err rf =
     (if rf_target rf = [] then Inl NoTarget
      else (case parse_target (rf_target rf) of Inl e \<Rightarrow> Inl (TargetBad e) | Inr t \<Rightarrow> Inr t))"

definition host_key :: "machine \<Rightarrow> host \<Rightarrow> disk \<Rightarrow> root_flags \<Rightarrow> policy_error + host_key_callback" where
  "host_key m h d rf =
     policy_callback (stat_local m d) (l_known_ok m)
       \<lparr>known_hosts_files = (if rf_known_hosts rf = [] then default_known_hosts h else rf_known_hosts rf),
        pinned_sha256 = rf_host_key_fp rf, insecure = rf_insecure rf\<rparr>"

definition cli_auth_methods :: "machine \<Rightarrow> disk \<Rightarrow> root_flags \<Rightarrow> auth_error + pubkey auth_method list" where
  "cli_auth_methods m d rf =
     auth_methods (read_private m d) (l_sock m) (l_agent_up m) (rf_identities rf) (rf_no_agent rf)"

section \<open>\<^verbatim>\<open>user=KEY\<close> arguments\<close>

record user_spec =
  us_user :: string
  us_spec :: string
  us_matcher :: matcher
  us_key :: "pubkey option"
  us_comment :: string
  us_options :: "string list"

definition spec_value :: "machine \<Rightarrow> disk \<Rightarrow> string \<Rightarrow> string option" where
  "spec_value m d spec =
     (if stat_local m d spec \<and> \<not> l_isdir m spec then map_option trim_space (read_local m d spec)
      else Some spec)"

definition parse_user_spec :: "machine \<Rightarrow> disk \<Rightarrow> string \<Rightarrow> spec_fault + user_spec" where
  "parse_user_spec m d arg =
     (case index_of CHR ''='' arg of
        None \<Rightarrow> Inl (NoEquals arg)
      | Some eq \<Rightarrow>
          if eq = 0 then Inl (NoEquals arg)
          else (let user = take eq arg; spec = drop (Suc eq) arg in
                if \<not> valid_username user then Inl (SpecUser user arg)
                else (case spec_value m d spec of
                        None \<Rightarrow> Inl (KeyFileUnreadable spec)
                      | Some v \<Rightarrow>
                          (case parse_key_spec (l_lib m) v of
                             Inl e \<Rightarrow> Inl (SpecKey arg e)
                           | Inr (mt, comment, options) \<Rightarrow>
                               Inr \<lparr>us_user = user, us_spec = spec, us_matcher = mt, us_key = m_key mt,
                                 us_comment = comment, us_options = options\<rparr>))))"

primrec parse_user_specs :: "machine \<Rightarrow> disk \<Rightarrow> string list \<Rightarrow> spec_fault + user_spec list" where
  "parse_user_specs m d [] = Inr []"
| "parse_user_specs m d (a # as) =
     (case parse_user_spec m d a of
        Inl e \<Rightarrow> Inl e
      | Inr us \<Rightarrow> (case parse_user_specs m d as of Inl e \<Rightarrow> Inl e | Inr rest \<Rightarrow> Inr (us # rest)))"

primrec verify_files :: "machine \<Rightarrow> disk \<Rightarrow> string list \<Rightarrow> string + pubkey list" where
  "verify_files m d [] = Inr []"
| "verify_files m d (f # fs) =
     (case read_private m d f of
        Signer k \<Rightarrow> (case verify_files m d fs of Inl e \<Rightarrow> Inl e | Inr ks \<Rightarrow> Inr (k # ks))
      | _ \<Rightarrow> Inl f)"

definition verify_signers :: "machine \<Rightarrow> disk \<Rightarrow> string list \<Rightarrow> bool \<Rightarrow> string + pubkey list" where
  "verify_signers m d files no_agent =
     (case verify_files m d files of
        Inl e \<Rightarrow> Inl e
      | Inr ks \<Rightarrow>
          Inr (ks @ (if \<not> no_agent \<and> l_sock m \<noteq> [] \<and> l_agent_up m (l_sock m)
                     then (case l_agent_keys m (l_sock m) of Some as \<Rightarrow> as | None \<Rightarrow> [])
                     else [])))"

section \<open>What the commands print\<close>

datatype report =
    PresentOk string matcher
  | PresentFail string matcher string
  | AbsentOk string matcher
  | AbsentFail string matcher nat string
  | Verdict bool string string string
  | WouldRestore string string string
  | WouldRemove string
  | RestoredFrom string string
  | RestoredRemoved string
  | CommittedTx string string
  | DryRunTx string
  | VersionLine string

record console = world +
  k_out :: "report list"

type_synonym 'a cli = "(console, cli_error, 'a) comp"

definition say :: "report \<Rightarrow> unit cli" where
  "say l = modify (\<lambda>t. t\<lparr>k_out := k_out t @ [l]\<rparr>)"

definition usage_or :: "('e \<Rightarrow> usage) \<Rightarrow> 'e + 'a \<Rightarrow> 'a cli" where
  "usage_or g = lift_sum (\<lambda>e. Usage (g e))"

definition preflight :: "('e \<Rightarrow> cause) \<Rightarrow> (console, 'e, 'a) comp \<Rightarrow> 'a cli" where
  "preflight g = wrap_err (\<lambda>e. ExitWith ExitPreflight (g e))"

text \<open>The flags that precede a connection, in the order every command takes them.\<close>

definition credentials :: "machine \<Rightarrow> host \<Rightarrow> root_flags \<Rightarrow> unit cli" where
  "credentials m h rf =
     andThen (gets w_local) (\<lambda>d.
     andThen (usage_or HostKeyBad (host_key m h d rf)) (\<lambda>_.
     andThen (usage_or AuthBad (cli_auth_methods m d rf)) (\<lambda>_. ret ())))"

definition dial_client :: "host \<Rightarrow> unit cli" where
  "dial_client h = (if h_login h then ret () else throw (ExitWith ExitPreflight DialRefused))"

section \<open>apply\<close>

definition op_of :: "action \<Rightarrow> user_spec \<Rightarrow> op" where
  "op_of a us =
     \<lparr>op_user = us_user us, op_action = a, op_spec = us_spec us, op_matcher = us_matcher us,
      op_key = us_key us, op_comment = us_comment us, op_options = us_options us\<rparr>"

definition apply_config ::
  "machine \<Rightarrow> root_flags \<Rightarrow> target \<Rightarrow> op list \<Rightarrow> pubkey list \<Rightarrow> string \<Rightarrow> bool \<Rightarrow> config" where
  "apply_config m rf t ops signers backup dry =
     \<lparr>c_target = t, c_ops = ops, c_template = rf_path rf, c_signers = signers, c_tmp = rf_tmp rf,
      c_backup_root = backup, c_dry = dry, c_txid = l_txid m, c_lib = l_lib m, c_sha = l_sha m\<rparr>"

text \<open>
  The call of \<^verbatim>\<open>tx.Run\<close>: the transaction starts from the world as it is, and leaves the host, the
  local disk and its record, a file of the backup directory.
\<close>

definition absorb :: "machine \<Rightarrow> txn \<Rightarrow> console \<Rightarrow> console" where
  "absorb m t w =
     w\<lparr>w_fs := w_fs t, w_tick := w_tick t, w_guard := w_guard t,
       w_local := (case x_meta t of
          None \<Rightarrow> w_local t
        | Some mt \<Rightarrow> (w_local t)(path_join [x_localdir t, ''meta.json''] \<mapsto> l_render_meta m mt))\<rparr>"

definition call_run :: "machine \<Rightarrow> host \<Rightarrow> config \<Rightarrow> result cli" where
  "call_run m h c w =
     (case run_tx h c (start_txn (world.truncate w) c) of
        (Inl e, t) \<Rightarrow> (Inl (Usage (Panicked e)), absorb m t w)
      | (Inr res, t) \<Rightarrow> (Inr res, absorb m t w))"

definition apply_result :: "config \<Rightarrow> result \<Rightarrow> unit cli" where
  "apply_result c res =
     (case r_outcome res of
        Committed \<Rightarrow> say (CommittedTx (c_txid c) (r_local res))
      | DryRun \<Rightarrow> say (DryRunTx (c_txid c))
      | AbortedReverted \<Rightarrow> throw (ExitWith ExitAbortedReverted (TxAborted (r_err res)))
      | RevertUnverified \<Rightarrow> throw (ExitWith ExitRevertUnverified (TxAborted (r_err res)))
      | NothingChanged \<Rightarrow> throw (ExitWith ExitPreflight (TxAborted (r_err res))))"

record apply_flags =
  af_removes :: "string list"
  af_adds :: "string list"
  af_verify :: "string list"
  af_backup :: string
  af_dry :: bool

definition apply_cmd :: "machine \<Rightarrow> host \<Rightarrow> root_flags \<Rightarrow> apply_flags \<Rightarrow> unit cli" where
  "apply_cmd m h rf af =
     andThen (usage_or id (target_or_err rf)) (\<lambda>t.
     if af_removes af = [] \<and> af_adds af = [] then throw (Usage NothingToDo) else
     andThen (gets w_local) (\<lambda>d.
     andThen (usage_or SpecBad (parse_user_specs m d (af_removes af))) (\<lambda>rs.
     andThen (usage_or SpecBad (parse_user_specs m d (af_adds af))) (\<lambda>as.
     case find (\<lambda>us. us_key us = None) as of
       Some us \<Rightarrow> throw (Usage (NeedsFullKey (us_user us) (us_spec us)))
     | None \<Rightarrow>
     andThen (credentials m h rf) (\<lambda>_.
     andThen (usage_or SignerBad (verify_signers m d (af_verify af) (rf_no_agent rf))) (\<lambda>signers.
     let c = apply_config m rf t (map (op_of RemoveKey) rs @ map (op_of AddKey) as) signers
               (af_backup af) (af_dry af) in
     andThen (call_run m h c) (apply_result c)))))))"

section \<open>check\<close>

type_synonym loaded = "string \<rightharpoonup> keyfile \<times> string"

definition check_load :: "machine \<Rightarrow> host \<Rightarrow> root_flags \<Rightarrow> loaded \<Rightarrow> string \<Rightarrow> (keyfile \<times> string) cli" where
  "check_load m h rf files user =
     (case files user of
        Some fp \<Rightarrow> ret fp
      | None \<Rightarrow>
          andThen (preflight RemoteFailed (lookup_user h user)) (\<lambda>(_, _, home).
          let path = expand_template user home (rf_path rf) in
          andThen (preflight RemoteFailed (read_file h path)) (\<lambda>(content, _).
          ret (parse_file (l_lib m) content, path))))"

text \<open>One assertion: the line printed, and whether it is violated.\<close>

definition check_one :: "sshlib \<Rightarrow> bool \<Rightarrow> user_spec \<Rightarrow> keyfile \<times> string \<Rightarrow> report \<times> bool" where
  "check_one L present us fp =
     (let hits = length (find_keys L (us_matcher us) (fst fp)) in
      if present
      then (if hits = 0 then (PresentFail (us_user us) (us_matcher us) (snd fp), True)
            else (PresentOk (us_user us) (us_matcher us), False))
      else (if hits > 0 then (AbsentFail (us_user us) (us_matcher us) hits (snd fp), True)
            else (AbsentOk (us_user us) (us_matcher us), False)))"

text \<open>One loop of \<^verbatim>\<open>check\<close>: the files loaded so far and the number of violations go through it.\<close>

fun check_specs ::
  "machine \<Rightarrow> host \<Rightarrow> root_flags \<Rightarrow> bool \<Rightarrow> user_spec list \<Rightarrow> loaded \<Rightarrow> nat \<Rightarrow> (loaded \<times> nat) cli" where
  "check_specs m h rf present [] files n = ret (files, n)"
| "check_specs m h rf present (us # rest) files n =
     andThen (check_load m h rf files (us_user us)) (\<lambda>fp.
     let (line, violated) = check_one (l_lib m) present us fp in
     andThen (say line) (\<lambda>_.
     check_specs m h rf present rest (files(us_user us \<mapsto> fp)) (if violated then Suc n else n)))"

definition check_assertions :: "machine \<Rightarrow> host \<Rightarrow> root_flags \<Rightarrow> user_spec list \<Rightarrow> user_spec list \<Rightarrow> unit cli" where
  "check_assertions m h rf ps as =
     andThen (check_specs m h rf True ps Map.empty 0) (\<lambda>(files, n).
     andThen (check_specs m h rf False as files n) (\<lambda>(_, n).
     if n > 0 then throw (ExitWith ExitAbortedReverted (Violations n)) else ret ()))"

definition check_cmd :: "machine \<Rightarrow> host \<Rightarrow> root_flags \<Rightarrow> string list \<Rightarrow> string list \<Rightarrow> unit cli" where
  "check_cmd m h rf present absent =
     andThen (usage_or id (target_or_err rf)) (\<lambda>_.
     andThen (gets w_local) (\<lambda>d.
     andThen (usage_or SpecBad (parse_user_specs m d present)) (\<lambda>ps.
     andThen (usage_or SpecBad (parse_user_specs m d absent)) (\<lambda>as.
     if ps = [] \<and> as = [] then throw (Usage NothingToDo) else
     andThen (credentials m h rf) (\<lambda>_.
     andThen (dial_client h) (\<lambda>_.
     check_assertions m h rf ps as))))))"

section \<open>probe\<close>

fun probe_specs :: "machine \<Rightarrow> host \<Rightarrow> target \<Rightarrow> user_spec list \<Rightarrow> nat \<Rightarrow> nat cli" where
  "probe_specs m h t [] n = ret n"
| "probe_specs m h t (us # rest) n =
     (case us_key us of
        None \<Rightarrow> throw (Usage (NeedsFullKey (us_user us) (us_spec us)))
      | Some k \<Rightarrow>
          andThen (preflight ProbeInconclusive (dial h probe_key (h_query h) (with_user t (us_user us)) k)) (\<lambda>res.
          andThen (say (Verdict (accepted res) (us_user us) (fingerprint (l_lib m) k) (detail res))) (\<lambda>_.
          probe_specs m h t rest (if accepted res then n else Suc n))))"

definition probe_cmd :: "machine \<Rightarrow> host \<Rightarrow> root_flags \<Rightarrow> string list \<Rightarrow> unit cli" where
  "probe_cmd m h rf args =
     andThen (usage_or id (target_or_err rf)) (\<lambda>t.
     andThen (gets w_local) (\<lambda>d.
     andThen (usage_or SpecBad (parse_user_specs m d args)) (\<lambda>specs.
     andThen (usage_or HostKeyBad (host_key m h d rf)) (\<lambda>_.
     andThen (probe_specs m h t specs 0) (\<lambda>n.
     if n > 0 then throw (ExitWith ExitAbortedReverted (Rejections n)) else ret ())))))"

section \<open>restore\<close>

text \<open>Which entries of a record restore accepts at all.\<close>

definition meta_path_ok :: "string \<Rightarrow> string \<Rightarrow> bool" where
  "meta_path_ok user p \<longleftrightarrow>
     path_base p = ''authorized_keys'' \<or>
     (path_base (path_dir p) = ''authorized_keys.d'' \<and> path_base p = user)"

fun vet_meta :: "meta_file list \<Rightarrow> usage option" where
  "vet_meta [] = None"
| "vet_meta (f # fs) =
     (if \<not> valid_username (mf_user f) then Some (MetaUser (mf_user f))
      else if \<not> has_prefix (mf_path f) ''/'' then Some (MetaRelative (mf_path f))
      else if \<not> meta_path_ok (mf_user f) (mf_path f) then Some (MetaNotAuthorizedKeys (mf_path f))
      else vet_meta fs)"

definition restore_plan :: "string \<Rightarrow> meta_file \<Rightarrow> report" where
  "restore_plan from_dir f =
     (if mf_existed f then WouldRestore (mf_path f) (mf_mode f) from_dir else WouldRemove (mf_path f))"

text \<open>
  The target of the write policy: everything is taken live, but for the mode of a file that
  is gone.  The entry user's ids stay empty.
\<close>

definition restore_target :: "target \<Rightarrow> string \<Rightarrow> meta_file \<Rightarrow> file_info \<Rightarrow> file_info \<Rightarrow> write_target" where
  "restore_target t uid f info dir =
     \<lparr>t_root = (uid = ''0''), t_guard_user = tg_user t, t_user = mf_user f, t_uid = [], t_gid = [],
      t_file = (if i_exists info then info
                else \<lparr>i_exists = True, i_symlink = False, i_uid = [], i_gid = [], i_mode = mf_mode f\<rparr>),
      t_dir = dir\<rparr>"

definition restore_opts :: "write_target \<Rightarrow> meta_file \<Rightarrow> write_opts" where
  "restore_opts tgt f = (decide_write_opts tgt)\<lparr>o_mode := mf_mode f, o_mkdir := False\<rparr>"

definition backup_file :: "string \<Rightarrow> string \<Rightarrow> string" where
  "backup_file from_dir user = path_join [from_dir, ''files'', user, ''authorized_keys'']"

definition restore_content :: "host \<Rightarrow> target \<Rightarrow> string \<Rightarrow> string \<Rightarrow> meta_file \<Rightarrow> string \<Rightarrow> unit cli" where
  "restore_content h t uid from_dir f content =
     andThen (preflight RemoteFailed (stat h (dir_of (mf_path f)))) (\<lambda>dir.
     andThen (preflight RemoteFailed (stat h (mf_path f))) (\<lambda>info.
     if i_symlink info \<or> i_symlink dir then throw (ExitWith ExitPreflight (SymlinkInPath (mf_path f))) else
     let tgt = restore_target t uid f info dir in
     case check_write_target tgt of
       Some ho \<Rightarrow> throw (ExitWith ExitPreflight (HandoverFor (mf_path f) ho))
     | None \<Rightarrow>
     andThen (preflight RemoteFailed (swap_file h (mf_path f) content (restore_opts tgt f))) (\<lambda>_.
     say (RestoredFrom (mf_path f) from_dir))))"

definition restore_file :: "machine \<Rightarrow> host \<Rightarrow> target \<Rightarrow> string \<Rightarrow> string \<Rightarrow> meta_file \<Rightarrow> unit cli" where
  "restore_file m h t uid from_dir f =
     (if \<not> mf_existed f then
        andThen (preflight RemoteFailed (remove_path h (mf_path f))) (\<lambda>_. say (RestoredRemoved (mf_path f)))
      else
        andThen (gets w_local) (\<lambda>d.
        case read_local m d (backup_file from_dir (mf_user f)) of
          None \<Rightarrow> throw (Usage (BackupUnreadable (mf_user f)))
        | Some content \<Rightarrow> restore_content h t uid from_dir f content))"

record restore_flags =
  rs_from :: string
  rs_force :: bool
  rs_dry :: bool

text \<open>From the record on: its checks, the dry run, the connection and the files.\<close>

definition restore_recorded :: "machine \<Rightarrow> host \<Rightarrow> root_flags \<Rightarrow> restore_flags \<Rightarrow> target \<Rightarrow> meta \<Rightarrow> unit cli" where
  "restore_recorded m h rf rs t mt =
     (if m_target mt \<noteq> [] \<and> m_target mt \<noteq> target_string t \<and> \<not> rs_force rs
      then throw (Usage (OtherHost (m_target mt) (target_string t))) else
      case vet_meta (m_files mt) of
        Some u \<Rightarrow> throw (Usage u)
      | None \<Rightarrow>
      if rs_dry rs then for_each (\<lambda>f. say (restore_plan (rs_from rs) f)) (m_files mt) else
      andThen (credentials m h rf) (\<lambda>_.
      andThen (dial_client h) (\<lambda>_.
      andThen (preflight RemoteFailed (whoami h)) (\<lambda>uid.
      for_each (restore_file m h t uid (rs_from rs)) (m_files mt)))))"

definition restore_cmd :: "machine \<Rightarrow> host \<Rightarrow> root_flags \<Rightarrow> restore_flags \<Rightarrow> unit cli" where
  "restore_cmd m h rf rs =
     andThen (usage_or id (target_or_err rf)) (\<lambda>t.
     if rs_from rs = [] then throw (Usage NoFrom) else
     andThen (gets w_local) (\<lambda>d.
     case read_local m d (path_join [rs_from rs, ''meta.json'']) of
       None \<Rightarrow> throw (Usage (MetaUnreadable (rs_from rs)))
     | Some raw \<Rightarrow>
     (case l_parse_meta m raw of
        None \<Rightarrow> throw (Usage MetaMalformed)
      | Some mt \<Rightarrow> restore_recorded m h rf rs t mt)))"

section \<open>The program\<close>

datatype command =
    Apply apply_flags
  | Check "string list" "string list"
  | Probe "string list"
  | Restore restore_flags
  | Version

definition run_command :: "machine \<Rightarrow> host \<Rightarrow> root_flags \<Rightarrow> command \<Rightarrow> unit cli" where
  "run_command m h rf cmd =
     (case cmd of
        Apply af \<Rightarrow> apply_cmd m h rf af
      | Check present absent \<Rightarrow> check_cmd m h rf present absent
      | Probe args \<Rightarrow> probe_cmd m h rf args
      | Restore rs \<Rightarrow> restore_cmd m h rf rs
      | Version \<Rightarrow> say (VersionLine ''sshkeytx dev''))"

text \<open>\<^verbatim>\<open>Main\<close> and \<^verbatim>\<open>main\<close>: the exit code and what is left of the world.\<close>

definition main :: "machine \<Rightarrow> host \<Rightarrow> root_flags \<Rightarrow> command \<Rightarrow> console \<Rightarrow> nat \<times> console" where
  "main m h rf cmd w = (case run_command m h rf cmd w of (r, w') \<Rightarrow> (exit_code r, w'))"

end
