(* ===== verification/Remote_Contracts.thy ===== *)
theory Remote_Contracts
  imports Tx_Model
begin

text \<open>
  Rules for the remote operations: the rule of \<open>run_with\<close>, what each operation of remote.go
  means when it succeeds, and the interface \<open>observer\<close> shared by everything in a
  transaction that only looks at the host.
\<close>

section \<open>The rule of \<^verbatim>\<open>Run\<close>\<close>

lemma hoare_run_with:
  assumes guard: "\<And>w. P w \<Longrightarrow> P' (guard_step h w)"
    and closed: "\<And>w. P' w \<Longrightarrow> E NoSession (w\<lparr>w_tick := Suc (w_tick w)\<rparr>)"
    and ran: "\<And>w r f out. P' w \<Longrightarrow> script (w_tick w) (h_fault h (w_tick w)) (w_fs w) = (r, f, out) \<Longrightarrow>
      (case answer (h_fault h (w_tick w)) r out of
         Inl e \<Rightarrow> E e (w\<lparr>w_tick := Suc (w_tick w), w_fs := f\<rparr>)
       | Inr x \<Rightarrow> Q x (w\<lparr>w_tick := Suc (w_tick w), w_fs := f\<rparr>))"
  shows "hoare P (run_with h script) Q E"
  unfolding hoare_def
proof (intro allI impI)
  fix w :: "'a world_scheme" assume "P w"
  define v where "v = guard_step h w"
  have v: "P' v" unfolding v_def by (rule guard [OF \<open>P w\<close>])
  obtain r f out where s: "script (w_tick v) (h_fault h (w_tick v)) (w_fs v) = (r, f, out)"
    by (cases "script (w_tick v) (h_fault h (w_tick v)) (w_fs v)") auto
  show "case run_with h script w of (Inl e, w') \<Rightarrow> E e w' | (Inr x, w') \<Rightarrow> Q x w'"
    using closed [OF v] ran [OF v s] s
    by (simp add: run_with_def Let_def v_def split: sum.splits)
qed

text \<open>What an answer says of the way the script ended.\<close>

lemma answer_Inr: "answer ft r out = Inr x \<Longrightarrow> ctl_ok r \<and> x = out"
  by (auto simp: answer_def ctl_ok_def split: ctl.splits if_splits option.splits)

lemma answer_exit:
  assumes "answer ft r out = Inl (ExitError n)"
  shows "n \<noteq> 0 \<and> (r = Status n \<or> r = Exited n) \<or> (r = Killed \<and> 128 \<le> n \<and> ft_signal ft \<noteq> None)"
  using assms by (auto simp: answer_def split: ctl.splits if_splits option.splits)

lemma answer_exit_unsignalled:
  assumes "answer ft r out = Inl err" and "is_exit_error err" and "ft_signal ft = None"
  shows "r \<noteq> Killed \<and> \<not> ctl_ok r"
  using assms by (auto simp: answer_def is_exit_error_def ctl_ok_def split: ctl.splits if_splits remote_error.splits)

lemma script_of_exec:
  "script_of h c stdin n ft f = (r, g, out) \<longleftrightarrow>
    (\<exists>t. exec (script_env h ft) c (script_start h f stdin) = (r, t) \<and> g = s_fs t \<and> out = s_out t)"
  by (auto simp: script_of_def split: prod.splits)

lemma script_start_simps [simp]:
  "s_fs (script_start h f x) = f" "s_in (script_start h f x) = x" "s_out (script_start h f x) = []"
  "s_who (script_start h f x) = h_who h"
  by (simp_all add: script_start_def)

lemma script_env_simps [simp]:
  "e_fresh (script_env h ft) = ft_fresh ft" "e_users (script_env h ft) = h_users h"
  by (simp_all add: script_env_def)

section \<open>Observers\<close>

text \<open>
  A predicate on the state that neither time nor the end of the guard session can break
  is kept by every operation that only reads: stat, reading, looking up, the health
  check, probing and verifying.
\<close>

locale watcher =
  fixes h :: host and J :: "'z world_scheme \<Rightarrow> bool"
  assumes J_guard: "J t \<Longrightarrow> J (guard_step h t)"
    and J_tick: "J t \<Longrightarrow> J (t\<lparr>w_tick := n\<rparr>)"
begin

lemma J_fs: "J t \<Longrightarrow> J (t\<lparr>w_tick := n, w_fs := w_fs t\<rparr>)"
  using J_tick [of t n] by (cases t) simp

lemma run_reads: "reads_only c \<Longrightarrow> keeps J (run h c stdin)"
  unfolding run_def
proof (rule hoare_run_with [where P' = J])
  fix w r f out
  assume c: "reads_only c" and "J w"
    and s: "script_of h c stdin (w_tick w) (h_fault h (w_tick w)) (w_fs w) = (r, f, out)"
  have "f = w_fs w"
    using s exec_reads [OF c] by (auto simp: script_of_exec)
  then show "case answer (h_fault h (w_tick w)) r out of
      Inl e \<Rightarrow> J (w\<lparr>w_tick := Suc (w_tick w), w_fs := f\<rparr>) | Inr x \<Rightarrow> J (w\<lparr>w_tick := Suc (w_tick w), w_fs := f\<rparr>)"
    using J_fs [OF \<open>J w\<close>] by (simp split: sum.splits)
qed (rule J_guard J_tick; assumption)+

lemma attempt_keeps: "keeps J m \<Longrightarrow> keeps J (attempt m)"
  by (rule hoare_attempt) simp

lemma wrap_keeps: "keeps J m \<Longrightarrow> keeps J (wrap_err g m)"
  by (rule hoare_wrap_err) simp

lemma stat_keeps: "keeps J (stat h p)"
  unfolding stat_def
  by (intro keeps_andThen attempt_keeps run_reads)
    (auto intro!: hoare_rules split: sum.splits list.splits)

lemma read_file_keeps: "keeps J (read_file h p)"
  unfolding read_file_def
  by (intro keeps_andThen attempt_keeps run_reads) (auto intro!: hoare_rules split: sum.splits)

lemma lookup_user_keeps: "keeps J (lookup_user h u)"
  unfolding lookup_user_def
  by (auto intro!: hoare_rules keeps_andThen run_reads split: list.splits)

lemma whoami_keeps: "keeps J (whoami h)"
  unfolding whoami_def by (rule keeps_andThen [OF run_reads hoare_ret]) simp_all

end

text \<open>On the state of a transaction there is more that only reads.\<close>

locale observer = watcher h J for h :: host and J :: "txn \<Rightarrow> bool"
begin

lemma check_health_keeps: "keeps J (check_health h)"
  unfolding check_health_def
  by (intro hoare_if keeps_andThen wrap_keeps run_reads hoare_gets hoare_throw hoare_ret)
    (auto intro!: hoare_rules keeps_andThen wrap_keeps run_reads)

lemma dial_keeps: "keeps J (dial h v srv t k)"
  by (rule keepsI) (simp add: dial_def Let_def J_tick J_guard)

lemma retry_keeps: "keeps J m \<Longrightarrow> keeps J (retry n m)"
  by (induction n) (auto intro!: keeps_andThen attempt_keeps hoare_rules split: sum.splits)

lemma probe_verdict_keeps: "keeps J m \<Longrightarrow> keeps J (probe_verdict m)"
  unfolding probe_verdict_def by (rule retry_keeps)

lemma probe_keeps: "keeps J (probe h c u k)"
  unfolding probe_def by (intro probe_verdict_keeps dial_keeps)

lemma some_key_accepted_keeps: "keeps J (some_key_accepted h c u lerr ks)"
proof (induction ks arbitrary: lerr)
  case Nil
  then show ?case by (auto intro!: hoare_rules split: option.splits)
next
  case (Cons k ks)
  show ?case
    unfolding some_key_accepted.simps
    by (rule keeps_andThen [OF attempt_keeps [OF probe_keeps]]) (auto intro!: hoare_rules Cons.IH split: sum.splits)
qed

lemma with_file_keeps: "(\<And>uf. keeps J (k uf)) \<Longrightarrow> keeps J (with_file u k)"
  unfolding with_file_def
  by (rule keeps_andThen) (auto intro!: hoare_rules split: option.splits)

lemma positive_control_keeps: "keeps J (positive_control h c u)"
  unfolding positive_control_def
  by (intro with_file_keeps hoare_if keeps_andThen wrap_keeps some_key_accepted_keeps)
    (auto intro!: hoare_rules)

lemma verify_removed_keeps: "keeps J (verify_removed h c p)"
  unfolding verify_removed_def
  by (auto intro!: hoare_rules with_file_keeps keeps_andThen wrap_keeps probe_keeps split: option.splits)

lemma verify_added_keeps: "keeps J (verify_added h c p)"
  unfolding verify_added_def
  by (auto intro!: hoare_rules keeps_andThen wrap_keeps probe_keeps probe_verdict_keeps dial_keeps split: option.splits)

lemma phase_verify_added_keeps: "keeps J (phase_verify_added h c)"
  unfolding phase_verify_added_def
  by (auto intro!: hoare_if hoare_ret keeps_andThen check_health_keeps keeps_for_each verify_added_keeps hoare_gets)

lemma phase_verify_removed_keeps: "keeps J (phase_verify_removed h c)"
  unfolding phase_verify_removed_def
  by (auto intro!: hoare_if hoare_ret keeps_andThen check_health_keeps keeps_for_each verify_removed_keeps
      positive_control_keeps hoare_gets)

lemma prove_access_keeps: "keeps J (prove_access h c)"
  unfolding prove_access_def prove_access_for_def
  by (auto intro!: hoare_gets keeps_andThen keeps_for_each with_file_keeps hoare_if hoare_ret hoare_throw
      wrap_keeps some_key_accepted_keeps)

end


section \<open>Observing a host that does not change\<close>

text \<open>What a \<^verbatim>\<open>FileInfo\<close> says of the file it was taken from.\<close>

definition info_of :: "fs \<Rightarrow> string \<Rightarrow> file_info \<Rightarrow> bool" where
  "info_of f p i \<longleftrightarrow>
     i_symlink i = is_link f p \<and> (\<not> i_symlink i \<longrightarrow> i_exists i = (f p \<noteq> None))"

definition content_of :: "fs \<Rightarrow> string \<Rightarrow> string \<times> bool \<Rightarrow> bool" where
  "content_of f p z \<longleftrightarrow>
     (if snd z then \<exists>a. node_at f p = Some (Reg (fst z) a) else node_at f p = None)"

lemma stat_exit:
  assumes "exec e (stat_cmd p) s = (r, t)" and "s_out s = []" and "answer ft r out = Inl (ExitError n)"
  shows "n = 8 \<Longrightarrow> is_link (s_fs s) p" and "n = 9 \<Longrightarrow> s_fs s p = None"
  using answer_exit [OF assms(3)] stat_cmd_result [OF assms(1,2)] by auto

lemma read_exit:
  assumes "exec e (read_cmd p) s = (r, t)" and "s_out s = []" and "answer ft r out = Inl (ExitError 9)"
  shows "node_at (s_fs s) p = None"
  using answer_exit [OF assms(3)] read_cmd_result [OF assms(1,2)] by auto

locale still = watcher h J for h :: host and J :: "'z world_scheme \<Rightarrow> bool" +
  fixes f0 :: fs
  assumes J_still: "J t \<Longrightarrow> w_fs t = f0"
begin

lemma run_still:
  assumes "reads_only c" and nosess: "E NoSession"
    and ran: "\<And>ft r t. exec (script_env h ft) c (script_start h f0 stdin) = (r, t) \<Longrightarrow>
      (case answer ft r (s_out t) of Inl err \<Rightarrow> E err | Inr x \<Rightarrow> Q x)"
  shows "hoare J (run h c stdin) (\<lambda>x t. J t \<and> Q x) (\<lambda>err t. J t \<and> E err)"
  unfolding run_def
proof (rule hoare_run_with [where P' = J])
  fix w assume "J w"
  then show "J (guard_step h w)" by (rule J_guard)
next
  fix w r f out
  assume w: "J w" and s: "script_of h c stdin (w_tick w) (h_fault h (w_tick w)) (w_fs w) = (r, f, out)"
  then obtain t where t: "exec (script_env h (h_fault h (w_tick w))) c (script_start h f0 stdin) = (r, t)"
    "f = s_fs t" "out = s_out t"
    by (auto simp: script_of_exec J_still)
  have "f = w_fs w" using exec_reads [OF assms(1) t(1)] t(2) J_still [OF w] by simp
  then show "case answer (h_fault h (w_tick w)) r out of
      Inl err \<Rightarrow> J (w\<lparr>w_tick := Suc (w_tick w), w_fs := f\<rparr>) \<and> E err
    | Inr x \<Rightarrow> J (w\<lparr>w_tick := Suc (w_tick w), w_fs := f\<rparr>) \<and> Q x"
    using ran [OF t(1)] t(3) J_fs [OF w] by (auto split: sum.splits)
next
  fix w assume "J w"
  then show "J (w\<lparr>w_tick := Suc (w_tick w)\<rparr>) \<and> E NoSession"
    using nosess J_tick by simp
qed

lemma stat_tells: "hoare J (stat h p) (\<lambda>i t. J t \<and> info_of f0 p i) (\<lambda>_. J)"
  unfolding stat_def
proof (rule hoare_andThen)
  let ?E = "\<lambda>err. (err = ExitError 8 \<longrightarrow> is_link f0 p) \<and> (err = ExitError 9 \<longrightarrow> f0 p = None)"
  let ?Q = "\<lambda>_::string. \<not> is_link f0 p \<and> f0 p \<noteq> None"
  have "hoare J (run h (stat_cmd p) []) (\<lambda>x t. J t \<and> ?Q x) (\<lambda>err t. J t \<and> ?E err)"
  proof (rule run_still)
    fix ft r t assume e: "exec (script_env h ft) (stat_cmd p) (script_start h f0 []) = (r, t)"
    show "case answer ft r (s_out t) of Inl err \<Rightarrow> ?E err | Inr x \<Rightarrow> ?Q x"
    proof (cases "answer ft r (s_out t)")
      case (Inl err)
      then show ?thesis using stat_exit [OF e] by auto
    next
      case (Inr x)
      from answer_Inr [OF this] obtain nd a where "f0 p = Some nd" "node_attrs nd = Some a"
        using stat_cmd_result(1) [OF e] by auto
      then show ?thesis using Inr by (auto simp: is_link_def node_attrs_def split: node.splits)
    qed
  qed simp_all
  then show "hoare J (attempt (run h (stat_cmd p) []))
      (\<lambda>r t. J t \<and> (case r of Inl err \<Rightarrow> ?E err | Inr x \<Rightarrow> ?Q x)) (\<lambda>_. J)"
    by (rule hoare_attempt [OF hoare_weaken]) auto
qed (auto intro!: hoare_rules simp: symlink_info_def absent_info_def info_of_def split: sum.splits list.splits)

lemma read_tells: "hoare J (read_file h p) (\<lambda>z t. J t \<and> content_of f0 p z) (\<lambda>_. J)"
  unfolding read_file_def
proof (rule hoare_andThen)
  let ?E = "\<lambda>err. err = ExitError 9 \<longrightarrow> node_at f0 p = None"
  let ?Q = "\<lambda>x. \<exists>a. node_at f0 p = Some (Reg x a)"
  have "hoare J (run h (read_cmd p) []) (\<lambda>x t. J t \<and> ?Q x) (\<lambda>err t. J t \<and> ?E err)"
  proof (rule run_still)
    fix ft r t assume e: "exec (script_env h ft) (read_cmd p) (script_start h f0 []) = (r, t)"
    show "case answer ft r (s_out t) of Inl err \<Rightarrow> ?E err | Inr x \<Rightarrow> ?Q x"
      using read_exit [OF e] read_cmd_result(1) [OF e] answer_Inr
      by (cases "answer ft r (s_out t)") fastforce+
  qed simp_all
  then show "hoare J (attempt (run h (read_cmd p) []))
      (\<lambda>r t. J t \<and> (case r of Inl err \<Rightarrow> ?E err | Inr x \<Rightarrow> ?Q x)) (\<lambda>_. J)"
    by (rule hoare_attempt [OF hoare_weaken]) auto
qed (auto intro!: hoare_rules simp: content_of_def split: sum.splits)

end

end
