(* ===== verification/Guard_Session.thy ===== *)
theory Guard_Session
  imports Guard_Trap
begin

text \<open>
  The end of the guard session, step by step.  The script waits on its standard input; at its
  end the EXIT trap runs \<^verbatim>\<open>restore_all\<close>.  A hangup, interrupt or termination runs
  \<^verbatim>\<open>restore_all; trap - EXIT; exit\<close>, and may also come while a restore is under way: a trap action
  starts when the command before it has ended, so an interrupted restore is cut after a whole
  entry and another one starts from the top of the manifest.
\<close>

section \<open>Steps\<close>

datatype signal = SigHup | SigInt | SigTerm

definition trap_code :: "signal \<Rightarrow> nat" where
  "trap_code sig = (case sig of SigHup \<Rightarrow> 129 | SigInt \<Rightarrow> 130 | SigTerm \<Rightarrow> 143)"

text \<open>
  Blocked in \<^verbatim>\<open>cat\<close>; in the loop over the manifest, with the lines left and the status to
  exit with; after it; ended.
\<close>

datatype stage =
    Reading
  | Restoring nat "(string \<times> string \<times> string) list"
  | Leaving nat
  | Ended nat

definition enter :: "shenv \<Rightarrow> string \<Rightarrow> nat \<Rightarrow> shst \<Rightarrow> stage \<times> shst" where
  "enter e tx k s =
     (if is_file (s_fs s) (tx @ ''/commit'') then (Leaving k, s)
      else if is_file (s_fs s) (tx @ ''/manifest'') then
        (case prim e (read_eff (tx @ ''/manifest'')) id (s\<lparr>s_out := []\<rparr>) of
           (Status 0, t) \<Rightarrow> (Restoring k (map read_entry (complete_lines (s_out t))), t)
         | (_, t) \<Rightarrow> (Restoring k [], t))
      else (Leaving k, s))"

inductive session :: "shenv \<Rightarrow> string \<Rightarrow> stage \<times> shst \<Rightarrow> stage \<times> shst \<Rightarrow> bool" for e tx where
  eof: "session e tx (Reading, s) (enter e tx 0 s)"
| signal: "(\<And>k. st \<noteq> Ended k) \<Longrightarrow> session e tx (st, s) (enter e tx (trap_code sig) s)"
| entry: "restore_entry e tx en s = (r, t) \<Longrightarrow> session e tx (Restoring k (en # ens), s) (Restoring k ens, t)"
| mark: "prim e (write_eff False (tx @ ''/restored'') []) id s = (r, t) \<Longrightarrow> session e tx (Restoring k [], s) (Leaving k, t)"
| leave: "session e tx (Leaving k, s) (Ended k, s)"

inductive_cases session_elims:
  "session e tx (Reading, s) c" "session e tx (Restoring k ens, s) c" "session e tx (Leaving k, s) c"
  "session e tx (Ended k, s) c"

inductive_simps session_simps:
  "session e tx (Reading, s) c" "session e tx (Leaving k, s) c" "session e tx (Ended k, s) c"
  "session e tx (Restoring k [], s) c" "session e tx (Restoring k (en # ens), s) c"

abbreviation sessions :: "shenv \<Rightarrow> string \<Rightarrow> stage \<times> shst \<Rightarrow> stage \<times> shst \<Rightarrow> bool" where
  "sessions e tx \<equiv> (session e tx)\<^sup>*\<^sup>*"

section \<open>Without interruption\<close>

lemma restore_entry_step: "no_faults e \<Longrightarrow> fst (restore_entry e tx en s) \<noteq> Killed"
  by (auto simp: restore_entry_def refuse_def Let_def prim_def no_faults_def split: prod.splits option.splits nat.splits ctl.splits)

lemma restore_lines:
  assumes "no_faults e"
  shows "sessions e tx (Restoring k ens, s) (Restoring k [], snd (restore_entries e tx ens s)) \<and>
    fst (restore_entries e tx ens s) \<noteq> Killed"
proof (induction ens arbitrary: s)
  case (Cons en ens)
  obtain r t where r: "restore_entry e tx en s = (r, t)" by fastforce
  have "restore_entries e tx (en # ens) s = restore_entries e tx ens t"
    using restore_entry_step [OF assms, of tx en s] r by (cases r) auto
  moreover have "session e tx (Restoring k (en # ens), s) (Restoring k ens, t)" by (rule session.entry [OF r])
  ultimately show ?case using Cons.IH [of t] by (simp only:) (blast intro: converse_rtranclp_into_rtranclp)
qed simp

lemma prim_cases: "no_faults e \<Longrightarrow> \<exists>n t. prim e eff part s = (Status n, t)"
  by (auto simp: prim_def no_faults_def split: option.splits)

text \<open>Once entered, a restore that nothing interrupts is \<^verbatim>\<open>restore_all\<close>.\<close>

lemma entered_runs:
  assumes "no_faults e"
  shows "sessions e tx (enter e tx k s) (Ended k, snd (restore_all e tx s))"
proof (cases "is_file (s_fs s) (tx @ ''/commit'') \<or> \<not> is_file (s_fs s) (tx @ ''/manifest'')")
  case True
  then show ?thesis
    using r_into_rtranclp [of "session e tx", OF session.leave] by (auto simp: enter_def restore_all_def)
next
  case False
  obtain n t where read: "prim e (read_eff (tx @ ''/manifest'')) id (s\<lparr>s_out := []\<rparr>) = (Status n, t)"
    using prim_cases [OF assms] by blast
  let ?ls = "if n = 0 then map read_entry (complete_lines (s_out t)) else []"
  let ?u = "snd (restore_entries e tx ?ls t)"
  obtain m v where fin: "prim e (write_eff False (tx @ ''/restored'') []) id ?u = (Status m, v)"
    using prim_cases [OF assms] by blast
  have start: "enter e tx k s = (Restoring k ?ls, t)"
    using False read by (simp add: enter_def split: nat.split)
  have all: "snd (restore_all e tx s) = v"
    using False read fin restore_lines [OF assms, of tx k ?ls t]
    by (auto simp: restore_all_def Let_def split: nat.splits prod.splits ctl.splits)
  have "sessions e tx (Restoring k [], ?u) (Ended k, v)"
    by (rule converse_rtranclp_into_rtranclp, rule session.mark [OF fin]) (rule r_into_rtranclp, rule session.leave)
  from rtranclp_trans [OF conjunct1 [OF restore_lines [OF assms]] this]
  have "sessions e tx (Restoring k ?ls, t) (Ended k, v)" .
  then show ?thesis unfolding start all .
qed

lemma session_closes: "no_faults e \<Longrightarrow> sessions e tx (Reading, s) (Ended 0, snd (restore_all e tx s))"
  by (rule converse_rtranclp_into_rtranclp [OF session.eof entered_runs])

lemma session_signalled:
  "no_faults e \<Longrightarrow> (\<And>k. st \<noteq> Ended k) \<Longrightarrow> sessions e tx (st, s) (Ended (trap_code sig), snd (restore_all e tx s))"
  by (rule converse_rtranclp_into_rtranclp [OF session.signal entered_runs])

section \<open>With any interruptions\<close>

text \<open>
  Restoring from the files \<open>g\<close> is as good as restoring from \<open>f\<close>, which differ from them only in
  what a restore may change.
\<close>

definition stands :: "string \<Rightarrow> entry list \<Rightarrow> fs \<Rightarrow> fs \<Rightarrow> bool" where
  "stands tx es f g \<longleftrightarrow>
     only (insert (tx @ ''/restored'') (entry_dst ` set es)) f g \<and> trap_armed g tx es \<and>
     g (tx @ ''/commit'') = None \<and> (\<forall>en \<in> set es. tx @ ''/restored'' \<notin> entry_baks en) \<and>
     (\<forall>en \<in> set es. \<forall>h. restored_to g h en \<longrightarrow> restored_to f h en)"

definition done_with :: "string \<Rightarrow> entry list \<Rightarrow> fs \<Rightarrow> fs \<Rightarrow> bool" where
  "done_with tx es f g \<longleftrightarrow> (\<forall>en \<in> set es. restored_to f g en) \<and> is_file g (tx @ ''/restored'')"

definition exit_codes_of_trap :: "nat set" where
  "exit_codes_of_trap = {0, 129, 130, 143}"

fun stage_ok :: "string \<Rightarrow> entry list \<Rightarrow> fs \<Rightarrow> stage \<times> shst \<Rightarrow> bool" where
  "stage_ok tx es f (Reading, s) = stands tx es f (s_fs s)"
| "stage_ok tx es f (Restoring k ls, s) =
     (stands tx es f (s_fs s) \<and> k \<in> exit_codes_of_trap \<and>
      (\<exists>xs ys. es = xs @ ys \<and> ls = map entry_fields ys \<and> (\<forall>en \<in> set xs. restored_to f (s_fs s) en)))"
| "stage_ok tx es f (Leaving k, s) = (stands tx es f (s_fs s) \<and> k \<in> exit_codes_of_trap \<and> done_with tx es f (s_fs s))"
| "stage_ok tx es f (Ended k, s) = (stands tx es f (s_fs s) \<and> k \<in> exit_codes_of_trap \<and> done_with tx es f (s_fs s))"

lemma stage_stands: "stage_ok tx es f (st, s) \<Longrightarrow> stands tx es f (s_fs s)"
  by (cases st) auto

lemma stands_armed:
  "trap_armed f tx es \<Longrightarrow> (\<And>en. en \<in> set es \<Longrightarrow> tx @ ''/restored'' \<notin> entry_baks en) \<Longrightarrow>
   f (tx @ ''/commit'') = None \<Longrightarrow> stands tx es f f"
  by (simp add: stands_def only_def)

lemma restored_to_at: "restored_to f g en \<Longrightarrow> h (entry_dst en) = g (entry_dst en) \<Longrightarrow> restored_to f h en"
  by (cases en) auto

lemma armed_parts:
  assumes "trap_armed g tx es" and "en \<in> set es"
  shows "restorable g en" and "entry_baks en \<inter> entry_dst ` set es = {}" and "\<not> below tx (entry_dst en)"
    and "en' \<in> set es \<Longrightarrow> en' \<noteq> en \<Longrightarrow> entry_dst en' \<noteq> entry_dst en"
  using assms by (auto simp: trap_armed_def distinct_map dest: inj_onD)

lemma armed_child: "trap_armed g tx es \<Longrightarrow> tx @ CHR ''/'' # x \<notin> entry_dst ` set es"
  using armed_parts(3) below_child by (metis imageE)

text \<open>What a change of targets and of the marker leaves of the conditions of the trap.\<close>

lemma armed_keeps:
  assumes arm: "trap_armed g tx es" and o: "only (insert (tx @ ''/restored'') (entry_dst ` set es)) g h"
    and each: "\<And>en. en \<in> set es \<Longrightarrow> restorable h en"
    and r: "h (tx @ ''/restored'') = None \<or> (\<exists>c a. h (tx @ ''/restored'') = Some (Reg c a))"
  shows "trap_armed h tx es"
proof -
  have same: "h q = g q" if "q \<noteq> tx @ ''/restored''" "below tx q" for q
    using o that armed_parts(3) [OF arm] by (auto simp: only_def)
  have "h (tx @ ''/manifest'') = g (tx @ ''/manifest'')" "h tx = g tx" by (simp_all add: same)
  moreover from this(2) have "is_link h tx = is_link g tx" by (simp add: is_link_def)
  moreover from this calculation(2) have "\<not> is_link g tx \<Longrightarrow> is_dir h tx = is_dir g tx"
    by (simp add: is_dir_def node_at_no_link)
  ultimately show ?thesis using arm each r unfolding trap_armed_def by auto
qed

lemma stands_entry:
  assumes clean: "no_faults e" and st: "stands tx es f (s_fs s)" and en: "en \<in> set es"
    and run: "restore_entry e tx (entry_fields en) s = (r, t)"
  shows "stands tx es f (s_fs t)" and "restored_to f (s_fs t) en"
    and "en' \<in> set es \<Longrightarrow> restored_to f (s_fs s) en' \<Longrightarrow> restored_to f (s_fs t) en'"
proof -
  let ?g = "s_fs s" and ?h = "s_fs t"
  have arm: "trap_armed ?g tx es" using st by (simp add: stands_def)
  note parts = armed_parts [OF arm]
  have o: "only {entry_dst en} ?g ?h" and now: "restored_to ?g ?h en" and links: "\<And>q. is_link ?h q \<Longrightarrow> is_link ?g q"
    using restore_entry_clean [OF clean parts(1) [OF en], of tx] run by auto
  have as: "restored_to ?g k en'' \<Longrightarrow> restored_to f k en''" if "en'' \<in> set es" for en'' k
    using st that by (simp add: stands_def)
  from as [OF en now] show self: "restored_to f ?h en" .
  have other: "?h (entry_dst en'') = ?g (entry_dst en'')" if "en'' \<in> set es" "en'' \<noteq> en" for en''
    using onlyD [OF o] parts(4) [OF en that] by simp
  show "restored_to f ?h en'" if "en' \<in> set es" "restored_to f ?g en'"
    using self other [OF that(1)] restored_to_at [OF that(2)] by (cases "en' = en") auto
  have step: "restorable ?h en'' \<and> (\<forall>k. restored_to ?h k en'' \<longrightarrow> restored_to ?g k en'')" if e2: "en'' \<in> set es" for en''
  proof (cases "en'' = en")
    case False
    have "entry_dst en \<notin> entry_baks en''" using parts(2) [OF e2] en by auto
    from restorable_step [OF o _ parts(1) [OF e2] this] links parts(4) [OF e2 en] False show ?thesis by metis
  next
    case True
    show ?thesis
    proof (cases en)
      case (FEntry bak dst)
      have "bak \<noteq> dst" using parts(2) [OF en] en FEntry by force
      then have "?h bak = ?g bak" using onlyD [OF o] FEntry by simp
      then show ?thesis using now parts(1) [OF en] links True FEntry by auto
    next
      case (AEntry dst)
      then show ?thesis using now True by simp
    qed
  qed
  have out: "tx @ ''/restored'' \<noteq> entry_dst en" "tx @ ''/commit'' \<noteq> entry_dst en"
    using armed_child [OF arm] en by auto
  have o': "only (insert (tx @ ''/restored'') (entry_dst ` set es)) ?g ?h"
    using o en by (auto intro: only_mono)
  have "trap_armed ?h tx es"
    using step onlyD [OF o, of "tx @ ''/restored''"] out arm
    by (intro armed_keeps [OF arm o']) (auto simp: trap_armed_def)
  moreover have "?h (tx @ ''/commit'') = None" using onlyD [OF o, of "tx @ ''/commit''"] out st by (simp add: stands_def)
  moreover have "only (insert (tx @ ''/restored'') (entry_dst ` set es)) f ?h"
    using st o' only_trans by (auto simp: stands_def)
  ultimately show "stands tx es f ?h" using step as st by (simp add: stands_def)
qed

lemma stands_mark:
  assumes clean: "no_faults e" and st: "stands tx es f (s_fs s)" and tx: "tx \<noteq> []"
    and run: "prim e (write_eff False (tx @ ''/restored'') []) id s = (r, t)"
  shows "stands tx es f (s_fs t)" and "is_file (s_fs t) (tx @ ''/restored'')"
    and "en \<in> set es \<Longrightarrow> restored_to f (s_fs s) en \<Longrightarrow> restored_to f (s_fs t) en"
proof -
  let ?g = "s_fs s" and ?h = "s_fs t" and ?m = "tx @ ''/restored''"
  have arm: "trap_armed ?g tx es" using st by (simp add: stands_def)
  then have "is_dir ?g tx" "\<not> is_link ?g tx" "?g ?m = None \<or> (\<exists>c a. ?g ?m = Some (Reg c a))"
    by (simp_all add: trap_armed_def)
  then obtain v b where "write_eff False ?m [] s = Some v" "s_fs v = ?g(?m := Some (Reg [] b))"
    using write_restored [OF _ _ tx] by blast
  with prim_no_faults [OF clean, where eff = "write_eff False ?m []" and s = s] run have h: "?h = ?g(?m := Some (Reg [] b))" by auto
  then show "is_file ?h ?m" by (simp add: is_file_def node_at_no_link)
  have dst: "?h (entry_dst en) = ?g (entry_dst en)" if "en \<in> set es" for en
    using armed_child [OF arm, of "''restored''"] that by (force simp: h)
  then show "restored_to f ?h en" if "en \<in> set es" "restored_to f ?g en"
    using that restored_to_at by metis
  have o: "only (insert ?m (entry_dst ` set es)) ?g ?h" by (simp add: h)
  have links: "is_link ?h q \<Longrightarrow> is_link ?g q" for q by (auto simp: h is_link_def split: if_splits)
  have step: "restorable ?h en \<and> (\<forall>k. restored_to ?h k en \<longrightarrow> restored_to ?g k en)" if en: "en \<in> set es" for en
  proof -
    have "only {?m} ?g ?h" by (simp add: h)
    have "?m \<notin> entry_baks en" using st en by (simp add: stands_def)
    moreover have "?m \<noteq> entry_dst en" using armed_child [OF arm, of "''restored''"] en by auto
    ultimately show ?thesis
      using restorable_step [OF \<open>only {?m} ?g ?h\<close> _ armed_parts(1) [OF arm en]] links by metis
  qed
  have "trap_armed ?h tx es"
    using step by (intro armed_keeps [OF arm o]) (auto simp: h)
  moreover have "?h (tx @ ''/commit'') = None" using st by (simp add: h stands_def)
  moreover have "only (insert ?m (entry_dst ` set es)) f ?h"
    using st o only_trans by (auto simp: stands_def)
  ultimately show "stands tx es f ?h" using step st by (simp add: stands_def)
qed

lemma stands_enter:
  assumes clean: "no_faults e" and st: "stands tx es f (s_fs s)"
  shows "\<exists>t. enter e tx k s = (Restoring k (map entry_fields es), t) \<and> s_fs t = s_fs s"
proof -
  have arm: "trap_armed (s_fs s) tx es" and commit: "\<not> is_file (s_fs s) (tx @ ''/commit'')"
    using st by (simp_all add: stands_def is_file_def node_at_no_link)
  then obtain torn a where mf: "s_fs s (tx @ ''/manifest'') = Some (Reg (manifest_text es @ torn) a)"
    and torn: "NL \<notin> set torn" and plain: "list_all plain_entry es"
    by (auto simp: trap_armed_def)
  have lines: "map read_entry (complete_lines (manifest_text es @ torn)) = map entry_fields es"
    using split_manifest [OF plain, of torn] torn by (simp add: complete_lines_def split_on_id)
  let ?t = "s\<lparr>s_out := manifest_text es @ torn, s_n := Suc (s_n s)\<rparr>"
  have "prim e (read_eff (tx @ ''/manifest'')) id (s\<lparr>s_out := []\<rparr>) = (Status 0, ?t)"
    using mf by (subst prim_no_faults [OF clean]) (auto simp: read_eff_def node_at_no_link)
  moreover have "is_file (s_fs s) (tx @ ''/manifest'')" using mf by (simp add: is_file_def node_at_no_link)
  ultimately show ?thesis using commit by (intro exI [of _ ?t]) (simp add: enter_def lines)
qed

lemma enter_ok:
  "no_faults e \<Longrightarrow> stands tx es f (s_fs s) \<Longrightarrow> k \<in> exit_codes_of_trap \<Longrightarrow> stage_ok tx es f (enter e tx k s)"
  using stands_enter [of e tx es f s k] by (force intro: exI [of _ "[]"])

lemma session_ok:
  assumes clean: "no_faults e" and tx: "tx \<noteq> []"
  shows "session e tx x y \<Longrightarrow> stage_ok tx es f x \<Longrightarrow> stage_ok tx es f y"
proof (induction rule: session.induct)
  case (eof s)
  then show ?case by (intro enter_ok [OF clean]) (simp_all add: exit_codes_of_trap_def)
next
  case (signal st s sig)
  have "trap_code sig \<in> exit_codes_of_trap" by (cases sig) (simp_all add: trap_code_def exit_codes_of_trap_def)
  with stage_stands [OF signal.prems] show ?case by (rule enter_ok [OF clean])
next
  case (entry en s r t k ens)
  then obtain xs z zs where es: "es = xs @ z # zs" "en = entry_fields z" "ens = map entry_fields zs"
    "\<forall>x \<in> set xs. restored_to f (s_fs s) x" and st: "stands tx es f (s_fs s)" "k \<in> exit_codes_of_trap"
    by (auto simp: Cons_eq_map_conv)
  have z: "z \<in> set es" by (simp add: es)
  note step = stands_entry [OF clean st(1) z entry.hyps [unfolded es(2)]]
  have "\<forall>x \<in> set (xs @ [z]). restored_to f (s_fs t) x" using step(2,3) es(1,4) by auto
  then have "\<exists>us ys. es = us @ ys \<and> ens = map entry_fields ys \<and> (\<forall>x \<in> set us. restored_to f (s_fs t) x)"
    using es(1,3) by (intro exI [of _ "xs @ [z]"] exI [of _ zs]) simp
  then show ?case using step(1) st(2) by simp
next
  case (mark s r t k)
  then have st: "stands tx es f (s_fs s)" "k \<in> exit_codes_of_trap" "\<forall>x \<in> set es. restored_to f (s_fs s) x" by auto
  note step = stands_mark [OF clean st(1) tx mark.hyps]
  show ?case using step st by (simp add: done_with_def)
qed simp

lemma sessions_ok:
  assumes "no_faults e" and "tx \<noteq> []" and "sessions e tx x y" and "stage_ok tx es f x"
  shows "stage_ok tx es f y"
  using assms(3,4) by (induction rule: rtranclp_induct) (auto intro: session_ok [OF assms(1,2)])

section \<open>After the commit\<close>

text \<open>Once the marker is there, or without a manifest, no stage does anything.\<close>

definition no_work :: "string \<Rightarrow> fs \<Rightarrow> bool" where
  "no_work tx f \<longleftrightarrow> is_file f (tx @ ''/commit'') \<or> \<not> is_file f (tx @ ''/manifest'')"

fun disarmed :: "string \<Rightarrow> fs \<Rightarrow> stage \<times> shst \<Rightarrow> bool" where
  "disarmed tx f (Restoring k ls, s) = False"
| "disarmed tx f (st, s) = (s_fs s = f \<and> no_work tx f)"

lemma session_disarmed: "session e tx x y \<Longrightarrow> disarmed tx f x \<Longrightarrow> disarmed tx f y"
  by (induction rule: session.induct) (auto simp: enter_def no_work_def elim!: disarmed.elims(2))

lemma sessions_disarmed: "sessions e tx x y \<Longrightarrow> disarmed tx f x \<Longrightarrow> disarmed tx f y"
  by (induction rule: rtranclp_induct) (auto intro: session_disarmed)

section \<open>However the session ends\<close>

lemma sessions_restore:
  assumes "no_faults e" and "tx \<noteq> []" and "trap_armed (s_fs s) tx es"
    and "\<And>en. en \<in> set es \<Longrightarrow> tx @ ''/restored'' \<notin> entry_baks en" and "s_fs s (tx @ ''/commit'') = None"
    and "sessions e tx (Reading, s) (Ended k, t)"
  shows "k \<in> exit_codes_of_trap \<and> done_with tx es (s_fs s) (s_fs t) \<and> stands tx es (s_fs s) (s_fs t)"
proof -
  have "stage_ok tx es (s_fs s) (Reading, s)" using assms by (simp add: stands_armed)
  from sessions_ok [OF assms(1,2,6) this] show ?thesis by simp
qed

text \<open>
  C9: however the guard session ends, by the end of its input or by any sequence of signals,
  also ones that interrupt a restore: without the commit marker every file of the manifest is back,
  nothing else has changed and the exit status is that of the trap; with the marker nothing has
  changed.
\<close>

theorem session_restores:
  assumes "no_faults e" and "tx \<noteq> []" and "trap_armed (s_fs s) tx es"
    and "\<forall>en \<in> set es. tx @ ''/restored'' \<notin> entry_baks en"
    and commit: "s_fs s (tx @ ''/commit'') = None \<or> is_file (s_fs s) (tx @ ''/commit'')"
    and run: "sessions e tx (Reading, s) (Ended k, t)"
  shows "if is_file (s_fs s) (tx @ ''/commit'') then s_fs t = s_fs s
    else k \<in> {0, 129, 130, 143} \<and> (\<forall>en \<in> set es. restored_to (s_fs s) (s_fs t) en) \<and>
      is_file (s_fs t) (tx @ ''/restored'') \<and> only (insert (tx @ ''/restored'') (entry_dst ` set es)) (s_fs s) (s_fs t)"
proof (cases "is_file (s_fs s) (tx @ ''/commit'')")
  case True
  then show ?thesis using sessions_disarmed [OF run, of "s_fs s"] by (simp add: no_work_def)
next
  case False
  with commit have "s_fs s (tx @ ''/commit'') = None" by simp
  with sessions_restore [OF assms(1-3) _ _ run] assms(4) False show ?thesis
    by (simp add: exit_codes_of_trap_def done_with_def stands_def)
qed

theorem session_restores_witness:
  "\<exists>t u. sessions (example_env\<lparr>e_fails := (\<lambda>_. False)\<rparr>) ''/t'' (Reading, armed_example) (Restoring 129 [(''A'', ''-'', ''/h/n'')], t) \<and>
     sessions (example_env\<lparr>e_fails := (\<lambda>_. False)\<rparr>) ''/t'' (Restoring 129 [(''A'', ''-'', ''/h/n'')], t) (Ended 130, u) \<and>
     s_fs u ''/h/n'' = None"
proof -
  let ?e = "example_env\<lparr>e_fails := (\<lambda>_. False)\<rparr>" and ?es = "[FEntry ''/t/b'' ''/h/k'', AEntry ''/h/n'']"
  have clean: "no_faults ?e" by (simp add: no_faults_def example_env_def)
  have none: "s_fs armed_example (''/t'' @ ''/commit'') = None" by (simp add: armed_example_def Let_def)
  have "stands ''/t'' ?es (s_fs armed_example) (s_fs armed_example)"
    using armed_example_ok none by (intro stands_armed) auto
  from stands_enter [OF clean this, of 129] obtain s where
    "enter ?e ''/t'' 129 armed_example = (Restoring 129 (map entry_fields ?es), s)" by blast
  moreover have "trap_code SigHup = 129" "trap_code SigInt = 130" by (simp_all add: trap_code_def)
  ultimately have hup: "session ?e ''/t'' (Reading, armed_example) (Restoring 129 (map entry_fields ?es), s)"
    using session.signal [of Reading ?e "''/t''" armed_example SigHup] by simp
  obtain r t where "restore_entry ?e ''/t'' (entry_fields (FEntry ''/t/b'' ''/h/k'')) s = (r, t)" by fastforce
  then have "session ?e ''/t'' (Restoring 129 (map entry_fields ?es), s) (Restoring 129 [(''A'', ''-'', ''/h/n'')], t)"
    by (simp add: session.entry)
  with hup have first: "sessions ?e ''/t'' (Reading, armed_example) (Restoring 129 [(''A'', ''-'', ''/h/n'')], t)" by simp
  obtain u where second: "sessions ?e ''/t'' (Restoring 129 [(''A'', ''-'', ''/h/n'')], t) (Ended 130, u)"
    using session_signalled [OF clean, of "Restoring 129 [(''A'', ''-'', ''/h/n'')]" "''/t''" t SigInt] \<open>trap_code SigInt = 130\<close> by auto
  have "\<not> is_file (s_fs armed_example) (''/t'' @ ''/commit'')" using none by (simp add: is_file_def node_at_no_link)
  with session_restores [OF clean _ armed_example_ok _ _ rtranclp_trans [OF first second]] none
  have "s_fs u ''/h/n'' = None" by simp
  with first second show ?thesis by blast
qed

end
