(* ===== verification/Tx_Invariant.thy ===== *)
theory Tx_Invariant
  imports Remote_Contracts Guard_Session
begin

text \<open>
  The invariant \<open>inv F D es torn\<close> of a running transaction: the remote transaction directory
  is sound; its manifest has the entries \<open>es\<close> (and \<open>torn\<close>, what an interrupted append left)
  and its backups hold the originals; and the file of every user outside \<open>D\<close> holds its
  original content, while those in \<open>D\<close> are in the manifest; nothing else on the host differs
  from what \<open>F\<close> holds.  The end of the guard session keeps it, because the trap restores
  exactly what the manifest names, even when signals interrupt it.
\<close>

section \<open>Files and their places\<close>

definition regular :: "fs \<Rightarrow> string \<Rightarrow> bool" where
  "regular f p \<longleftrightarrow> f p = None \<or> (\<exists>c a. f p = Some (Reg c a))"

definition file_is :: "fs \<Rightarrow> string \<Rightarrow> bool \<Rightarrow> string \<Rightarrow> bool" where
  "file_is f p ex c \<longleftrightarrow> (if ex then \<exists>a. f p = Some (Reg c a) else f p = None)"

lemma file_is_simps [simp]:
  "file_is f p True c \<longleftrightarrow> (\<exists>a. f p = Some (Reg c a))"
  "file_is f p False c \<longleftrightarrow> f p = None"
  by (simp_all add: file_is_def)

lemma file_is_regular: "file_is f p ex c \<Longrightarrow> regular f p"
  by (auto simp: file_is_def regular_def split: if_splits)

text \<open>
  Where the files of a transaction lie: at distinct clean paths outside the transaction directory,
  none of them a directory above another or named like a temporary file.
\<close>

definition good_place :: "string \<Rightarrow> string \<Rightarrow> bool" where
  "good_place d p \<longleftrightarrow>
     plain_path p \<and> SQ \<notin> set p \<and> \<not> below d p \<and> \<not> below d (dir_of p) \<and>
     posix_dirname p = dir_of p \<and> \<not> has_prefix (base_of p) ''.sshkeytx.''"

definition placed :: "txn \<Rightarrow> bool" where
  "placed t \<longleftrightarrow>
     x_txdir t \<noteq> [] \<and> plain_path (x_txdir t) \<and>
     (\<forall>u uf. x_files t u = Some uf \<longrightarrow>
        u_user uf = u \<and> valid_username u \<and> good_place (x_txdir t) (u_path uf)) \<and>
     (\<forall>u v uf vf. x_files t u = Some uf \<longrightarrow> x_files t v = Some vf \<longrightarrow>
        (u_path uf = u_path vf \<longrightarrow> u = v) \<and> u_path vf \<notin> set (ancestors (dir_of (u_path uf))))"

text \<open>The transaction directory: two directories and otherwise only regular files.\<close>

definition txdir_ok :: "fs \<Rightarrow> string \<Rightarrow> bool" where
  "txdir_ok f d \<longleftrightarrow>
     (\<exists>a. f d = Some (Dir a)) \<and> (\<exists>a. f (d @ ''/backup'') = Some (Dir a)) \<and>
     (\<forall>q. below d q \<longrightarrow> q \<noteq> d \<longrightarrow> q \<noteq> d @ ''/backup'' \<longrightarrow> regular f q)"

section \<open>The invariant\<close>

definition entries_ok :: "txn \<Rightarrow> entry list \<Rightarrow> bool" where
  "entries_ok t es \<longleftrightarrow>
     distinct (map entry_dst es) \<and>
     (\<forall>en \<in> set es. \<exists>u uf. x_files t u = Some uf \<and> en = entry_of (x_txdir t) uf \<and>
        (u_orig_exists uf \<longrightarrow> (\<exists>a. w_fs t (backup_path (x_txdir t) uf) = Some (Reg (u_orig uf) a))))"

definition file_ok :: "txn \<Rightarrow> string set \<Rightarrow> entry list \<Rightarrow> user_file \<Rightarrow> bool" where
  "file_ok t D es uf \<longleftrightarrow>
     regular (w_fs t) (u_path uf) \<and>
     (u_orig_exists uf \<longrightarrow> w_fs t (u_path uf) \<noteq> None \<and> w_fs t (dir_of (u_path uf)) \<noteq> None \<and>
        \<not> is_link (w_fs t) (dir_of (u_path uf))) \<and>
     (u_manifested uf \<longrightarrow> entry_of (x_txdir t) uf \<in> set es) \<and>
     (u_user uf \<in> D \<longrightarrow> u_manifested uf) \<and>
     (u_user uf \<notin> D \<longrightarrow> file_is (w_fs t) (u_path uf) (u_orig_exists uf) (u_orig uf))"

definition manifest_ok :: "txn \<Rightarrow> entry list \<Rightarrow> string \<Rightarrow> bool" where
  "manifest_ok t es torn \<longleftrightarrow>
     old_content (w_fs t) (x_txdir t @ ''/manifest'') = manifest_text es @ torn \<and> NL \<notin> set torn"

text \<open>
  What may differ from the host's files \<open>f\<close>, the directory \<open>d\<close> and the files \<open>P\<close> aside:
  nothing that was there; new are at most temporary files next to those files and directories above
  them.
\<close>

definition targets :: "txn \<Rightarrow> string set" where
  "targets t = {p. \<exists>u uf. x_files t u = Some uf \<and> p = u_path uf}"

definition beside :: "string \<Rightarrow> string \<Rightarrow> bool" where
  "beside p q \<longleftrightarrow> has_prefix q (dir_of p @ ''/.sshkeytx.'') \<or> q \<in> set (ancestors (dir_of p))"

type_synonym frame = "string \<times> string set \<times> fs"

definition within :: "frame \<Rightarrow> fs \<Rightarrow> bool" where
  "within F g \<longleftrightarrow> (case F of (d, P, f) \<Rightarrow> \<forall>q. \<not> below d q \<longrightarrow> q \<notin> P \<longrightarrow>
     g q = f q \<or> f q = None \<and> (\<exists>p \<in> P. beside p q))"

abbreviation frame_of :: "fs \<Rightarrow> txn \<Rightarrow> frame" where
  "frame_of f t \<equiv> (x_txdir t, targets t, f)"

definition framed :: "frame \<Rightarrow> txn \<Rightarrow> bool" where
  "framed F t \<longleftrightarrow> fst F = x_txdir t \<and> fst (snd F) = targets t \<and> within F (w_fs t)"

definition inv :: "frame \<Rightarrow> string set \<Rightarrow> entry list \<Rightarrow> string \<Rightarrow> txn \<Rightarrow> bool" where
  "inv F D es torn t \<longleftrightarrow>
     placed t \<and> (\<forall>d. w_guard t = Armed d \<longrightarrow> d = x_txdir t) \<and> txdir_ok (w_fs t) (x_txdir t) \<and>
     manifest_ok t es torn \<and> entries_ok t es \<and> (\<forall>u uf. x_files t u = Some uf \<longrightarrow> file_ok t D es uf) \<and>
     framed F t"

lemma invD:
  assumes "inv F D es torn t"
  shows "placed t" and "w_guard t = Armed d \<Longrightarrow> d = x_txdir t" and "txdir_ok (w_fs t) (x_txdir t)"
    and "manifest_ok t es torn" and "entries_ok t es"
    and "x_files t u = Some uf \<Longrightarrow> file_ok t D es uf" and "framed F t"
  using assms by (simp_all add: inv_def)

lemma entries_okE:
  assumes "entries_ok t es" and "en \<in> set es"
  obtains u uf where "x_files t u = Some uf" "en = entry_of (x_txdir t) uf"
    "u_orig_exists uf \<Longrightarrow> \<exists>a. w_fs t (backup_path (x_txdir t) uf) = Some (Reg (u_orig uf) a)"
proof -
  from assms have "\<exists>u uf. x_files t u = Some uf \<and> en = entry_of (x_txdir t) uf \<and>
      (u_orig_exists uf \<longrightarrow> (\<exists>a. w_fs t (backup_path (x_txdir t) uf) = Some (Reg (u_orig uf) a)))"
    unfolding entries_ok_def by (elim conjE) (rule bspec)
  with that show thesis by (elim exE conjE) simp
qed

lemma placedD:
  assumes "placed t" and "x_files t u = Some uf"
  shows "u_user uf = u" and "valid_username u" and "good_place (x_txdir t) (u_path uf)"
    and "x_files t v = Some vf \<Longrightarrow> u_path uf = u_path vf \<Longrightarrow> u = v"
    and "x_files t v = Some vf \<Longrightarrow> u_path vf \<notin> set (ancestors (dir_of (u_path uf)))"
  using assms unfolding placed_def by blast+

lemma valid_username_chars:
  "valid_username u \<Longrightarrow> u \<noteq> [] \<and> TAB \<notin> set u \<and> NL \<notin> set u \<and> SQ \<notin> set u \<and> CHR ''/'' \<notin> set u"
  by (cases u) (auto simp: valid_username_def name_start_def char_in_def list_all_iff)

lemma plain_append: "plain_path d \<Longrightarrow> TAB \<notin> set x \<Longrightarrow> NL \<notin> set x \<Longrightarrow> plain_path (d @ x)"
  by (auto simp: plain_path_def)

lemma entry_of_simps [simp]:
  "entry_dst (entry_of d uf) = u_path uf"
  "entry_baks (entry_of d uf) = (if u_orig_exists uf then {backup_path d uf} else {})"
  by (simp_all add: entry_of_def)

lemma plain_entry_of:
  assumes "placed t" and "x_files t u = Some uf"
  shows "plain_entry (entry_of (x_txdir t) uf)"
proof -
  have "plain_path (backup_path (x_txdir t) uf)"
    using placedD(1,2) [OF assms] valid_username_chars [of u] assms(1)
    by (auto simp: backup_path_def placed_def intro!: plain_append)
  then show ?thesis
    using placedD(3) [OF assms] by (simp add: entry_of_def good_place_def)
qed

lemma backup_below [simp]: "below d (backup_path d uf)"
  by (simp add: backup_path_def)

lemma backup_not_special:
  "backup_path d uf \<noteq> d @ ''/restored''" "backup_path d uf \<noteq> d @ ''/manifest''"
  "backup_path d uf \<noteq> d @ ''/commit''" "backup_path d uf \<noteq> d @ ''/backup''" "backup_path d uf \<noteq> d"
  by (simp_all add: backup_path_def)

text \<open>Under the invariant the trap is armed, as the theorem on it asks.\<close>

lemma entry_restorable:
  assumes "inv F D es torn t" and "en \<in> set es"
  shows "restorable (w_fs t) en \<and> entry_baks en \<inter> entry_dst ` set es = {} \<and>
    \<not> below (x_txdir t) (entry_dst en)"
proof -
  note i = invD [OF assms(1)]
  obtain u uf where uf: "x_files t u = Some uf" "en = entry_of (x_txdir t) uf"
    "u_orig_exists uf \<Longrightarrow> \<exists>a. w_fs t (backup_path (x_txdir t) uf) = Some (Reg (u_orig uf) a)"
    by (rule entries_okE [OF i(5) assms(2)]) (rule that, assumption+)
  have ok: "file_ok t D es uf" and place: "good_place (x_txdir t) (u_path uf)"
    using i(6) [OF uf(1)] placedD(3) [OF i(1) uf(1)] by auto
  have dst: "\<not> below (x_txdir t) (entry_dst en')" if en': "en' \<in> set es" for en'
  proof -
    obtain v vf where v: "x_files t v = Some vf" "en' = entry_of (x_txdir t) vf"
      by (rule entries_okE [OF i(5) en']) (rule that, assumption+)
    from placedD(3) [OF i(1) v(1)] show ?thesis by (simp add: v(2) good_place_def)
  qed
  have "backup_path (x_txdir t) uf \<notin> entry_dst ` set es"
  proof
    assume "backup_path (x_txdir t) uf \<in> entry_dst ` set es"
    then obtain en' where "en' \<in> set es" "entry_dst en' = backup_path (x_txdir t) uf"
      by force
    then show False using dst [of en'] by simp
  qed
  then have "entry_baks en \<inter> entry_dst ` set es = {}"
    by (simp add: uf(2))
  moreover have "restorable (w_fs t) en"
  proof (cases "u_orig_exists uf")
    case True
    moreover obtain c a where "w_fs t (u_path uf) = Some (Reg c a)"
      using ok True by (auto simp: file_ok_def regular_def)
    moreover have "\<not> is_link (w_fs t) (posix_dirname (u_path uf))"
      using ok True place by (simp add: file_ok_def good_place_def)
    ultimately show ?thesis using uf(3) by (auto simp add: uf(2) entry_of_def)
  next
    case False
    then show ?thesis using ok by (simp add: uf(2) entry_of_def file_ok_def regular_def)
  qed
  ultimately show ?thesis using dst assms(2) by blast
qed

lemma inv_trap_armed:
  assumes "inv F D es torn t" and mf: "is_file (w_fs t) (x_txdir t @ ''/manifest'')"
  shows "trap_armed (w_fs t) (x_txdir t) es"
proof -
  note i = invD [OF assms(1)]
  let ?d = "x_txdir t"
  have reg: "regular (w_fs t) (?d @ ''/manifest'')" "regular (w_fs t) (?d @ ''/restored'')"
    using i(3) by (simp_all add: txdir_ok_def)
  then obtain c a where m: "w_fs t (?d @ ''/manifest'') = Some (Reg c a)"
    using mf by (auto simp: regular_def is_file_def node_at_no_link)
  have "list_all plain_entry es"
    using i(5) plain_entry_of [OF i(1)] by (auto simp: entries_ok_def list_all_iff)
  moreover have "is_dir (w_fs t) ?d \<and> \<not> is_link (w_fs t) ?d"
    using i(3) by (auto simp: txdir_ok_def is_dir_def node_at_no_link)
  ultimately show ?thesis
    using m i(4,5) reg(2) entry_restorable [OF assms(1)]
    by (auto simp: trap_armed_def manifest_ok_def old_content_def entries_ok_def regular_def)
qed

text \<open>A trap that runs without faults keeps the invariant and restores what is in the manifest.\<close>

definition trap_effect :: "txn \<Rightarrow> entry list \<Rightarrow> fs \<Rightarrow> bool" where
  "trap_effect t es g \<longleftrightarrow>
     (\<exists>c a. g (x_txdir t @ ''/restored'') = Some (Reg c a)) \<and>
     only (insert (x_txdir t @ ''/restored'') (entry_dst ` set es)) (w_fs t) g \<and>
     (\<forall>en \<in> set es. restored_to (w_fs t) g en)"

lemma session_trap:
  assumes "inv F D es torn t" and "no_faults e"
    and live: "\<not> is_file (w_fs t) (x_txdir t @ ''/commit'')" "is_file (w_fs t) (x_txdir t @ ''/manifest'')"
    and run: "sessions e (x_txdir t) (Reading, script_start h (w_fs t) x) (Ended k, u)"
  shows "trap_effect t es (s_fs u)"
proof -
  note i = invD [OF assms(1)]
  let ?d = "x_txdir t" and ?s = "script_start h (w_fs t) x"
  have "regular (w_fs t) (?d @ ''/commit'')" using i(3) by (simp add: txdir_ok_def)
  then have none: "s_fs ?s (?d @ ''/commit'') = None"
    using live(1) by (auto simp: regular_def is_file_def node_at_no_link)
  have baks: "?d @ ''/restored'' \<notin> entry_baks en" if "en \<in> set es" for en
    using entries_okE [OF i(5) that] backup_not_special by (metis emptyE entry_of_simps(2) singletonD)
  have arm: "trap_armed (s_fs ?s) ?d es" using inv_trap_armed [OF assms(1) live(2)] by simp
  have ne: "?d \<noteq> []" using i(1) by (simp add: placed_def)
  from sessions_restore [OF assms(2) ne arm baks none run]
  have fin: "done_with ?d es (w_fs t) (s_fs u)" "stands ?d es (w_fs t) (s_fs u)" by simp_all
  then have "\<exists>c a. s_fs u (?d @ ''/restored'') = Some (Reg c a)"
    by (auto simp: done_with_def stands_def trap_armed_def is_file_def node_at_no_link)
  with fin show ?thesis by (simp add: trap_effect_def done_with_def stands_def)
qed

lemma session_effect:
  assumes "inv F D es torn t" and "no_faults e"
    and run: "sessions e (x_txdir t) (Reading, script_start h (w_fs t) x) (Ended k, u)"
  shows "s_fs u = w_fs t \<or> trap_effect t es (s_fs u)"
proof (cases "no_work (x_txdir t) (w_fs t)")
  case True
  then show ?thesis using sessions_disarmed [OF run, of "w_fs t"] by simp
next
  case False
  then show ?thesis using session_trap [OF assms(1,2) _ _ run] by (simp add: no_work_def)
qed

lemma restore_all_effect:
  assumes "inv F D es torn t" and "no_faults e"
  shows "s_fs (snd (restore_all e (x_txdir t) (script_start h (w_fs t) x))) = w_fs t \<or>
    trap_effect t es (s_fs (snd (restore_all e (x_txdir t) (script_start h (w_fs t) x))))"
  by (rule session_effect [OF assms session_closes [OF assms(2)]])

lemma restored_file_is:
  assumes "restored_to f g (entry_of d uf)" and "u_orig_exists uf \<Longrightarrow> \<exists>a. f (backup_path d uf) = Some (Reg (u_orig uf) a)"
  shows "file_is g (u_path uf) (u_orig_exists uf) (u_orig uf)"
  using assms by (auto simp: entry_of_def split: if_splits)


section \<open>Changes of state the invariant does not see\<close>

lemma placed_simps [simp]:
  "placed (t\<lparr>w_fs := f\<rparr>) = placed t" "placed (t\<lparr>w_tick := n\<rparr>) = placed t"
  "placed (t\<lparr>w_guard := g\<rparr>) = placed t" "placed (t\<lparr>w_local := l\<rparr>) = placed t"
  "placed (t\<lparr>x_ops := ops\<rparr>) = placed t" "placed (t\<lparr>x_meta := m\<rparr>) = placed t"
  by (simp_all add: placed_def)

lemma entries_simps [simp]:
  "entries_ok (t\<lparr>w_tick := n\<rparr>) es = entries_ok t es"
  "entries_ok (t\<lparr>w_guard := g\<rparr>) es = entries_ok t es" "entries_ok (t\<lparr>w_local := l\<rparr>) es = entries_ok t es"
  "entries_ok (t\<lparr>x_ops := ops\<rparr>) es = entries_ok t es" "entries_ok (t\<lparr>x_meta := m\<rparr>) es = entries_ok t es"
  by (simp_all add: entries_ok_def)

lemma file_ok_simps [simp]:
  "file_ok (t\<lparr>w_tick := n\<rparr>) D es uf = file_ok t D es uf"
  "file_ok (t\<lparr>w_guard := g\<rparr>) D es uf = file_ok t D es uf" "file_ok (t\<lparr>w_local := l\<rparr>) D es uf = file_ok t D es uf"
  "file_ok (t\<lparr>x_ops := ops\<rparr>) D es uf = file_ok t D es uf" "file_ok (t\<lparr>x_meta := m\<rparr>) D es uf = file_ok t D es uf"
  "file_ok (t\<lparr>x_files := fm\<rparr>) D es uf = file_ok t D es uf"
  by (simp_all add: file_ok_def)

lemma manifest_simps [simp]:
  "manifest_ok (t\<lparr>w_tick := n\<rparr>) es torn = manifest_ok t es torn"
  "manifest_ok (t\<lparr>w_guard := g\<rparr>) es torn = manifest_ok t es torn"
  "manifest_ok (t\<lparr>w_local := l\<rparr>) es torn = manifest_ok t es torn"
  "manifest_ok (t\<lparr>x_ops := ops\<rparr>) es torn = manifest_ok t es torn"
  "manifest_ok (t\<lparr>x_meta := m\<rparr>) es torn = manifest_ok t es torn"
  "manifest_ok (t\<lparr>x_files := fm\<rparr>) es torn = manifest_ok t es torn"
  by (simp_all add: manifest_ok_def)

lemma framed_simps [simp]:
  "framed F (t\<lparr>w_tick := n\<rparr>) = framed F t" "framed F (t\<lparr>w_guard := g\<rparr>) = framed F t"
  "framed F (t\<lparr>w_local := l\<rparr>) = framed F t" "framed F (t\<lparr>x_ops := ops\<rparr>) = framed F t"
  "framed F (t\<lparr>x_meta := m\<rparr>) = framed F t"
  by (simp_all add: framed_def targets_def)

lemma framed_fs:
  assumes "framed F t" and "\<And>q. \<not> below (x_txdir t) q \<Longrightarrow> q \<notin> targets t \<Longrightarrow> g q = w_fs t q"
  shows "framed F (t\<lparr>w_fs := g\<rparr>)"
  using assms by (cases F) (simp add: framed_def within_def targets_def)

lemma framed_beside:
  assumes "framed F t" and "\<And>q. q \<noteq> p \<Longrightarrow> g q = w_fs t q \<or> w_fs t q = None \<and> beside p q" and "p \<in> targets t"
  shows "framed F (t\<lparr>w_fs := g\<rparr>)"
proof -
  obtain d P f where F: "F = (d, P, f)" by (cases F) auto
  have "g q = f q \<or> f q = None \<and> (\<exists>p \<in> P. beside p q)" if q: "\<not> below d q" "q \<notin> P" for q
  proof -
    have "w_fs t q = f q \<or> f q = None \<and> (\<exists>p \<in> P. beside p q)"
      using assms(1) q unfolding framed_def within_def F by (elim conjE) simp
    moreover have "g q = w_fs t q \<or> w_fs t q = None \<and> (\<exists>p \<in> P. beside p q)"
      using assms(1,3) assms(2) [of q] q by (auto simp: framed_def F)
    ultimately show ?thesis by auto
  qed
  then show ?thesis using assms(1) by (simp add: framed_def within_def targets_def F)
qed

lemma inv_simps [simp]:
  "inv F D es torn (t\<lparr>w_tick := n\<rparr>) = inv F D es torn t" "inv F D es torn (t\<lparr>w_local := l\<rparr>) = inv F D es torn t"
  "inv F D es torn (t\<lparr>x_ops := ops\<rparr>) = inv F D es torn t" "inv F D es torn (t\<lparr>x_meta := m\<rparr>) = inv F D es torn t"
  by (simp_all add: inv_def)

lemma inv_gone: "inv F D es torn t \<Longrightarrow> inv F D es torn (t\<lparr>w_guard := Gone\<rparr>)"
  by (simp add: inv_def)

section \<open>The end of the guard session\<close>

lemma dir_of_ancestor: "dir_of p \<in> set (ancestors (dir_of p))"
  by (simp add: ancestors_def)

lemma inv_restored:
  assumes "inv F D es torn t" and eff: "trap_effect t es g"
  shows "inv F D es torn (t\<lparr>w_fs := g\<rparr>)"
proof -
  note i = invD [OF assms(1)]
  let ?d = "x_txdir t" and ?t = "t\<lparr>w_fs := g\<rparr>"
  from eff have mark: "\<exists>c a. g (?d @ ''/restored'') = Some (Reg c a)"
    and same: "q \<noteq> ?d @ ''/restored'' \<Longrightarrow> q \<notin> entry_dst ` set es \<Longrightarrow> g q = w_fs t q"
    and undone: "\<forall>en \<in> set es. restored_to (w_fs t) g en" for q
    by (auto simp: trap_effect_def only_def)
  have dst: "q \<notin> entry_dst ` set es" if "below ?d q" for q
    using entry_restorable [OF assms(1)] that by auto
  have in_tx: "g q = w_fs t q" if "below ?d q" "q \<noteq> ?d @ ''/restored''" for q
    using same [OF that(2) dst [OF that(1)]] .
  have dirs: "g ?d = w_fs t ?d" "g (?d @ ''/backup'') = w_fs t (?d @ ''/backup'')"
    by (rule in_tx; simp)+
  have "txdir_ok g ?d"
    unfolding txdir_ok_def
  proof (intro conjI allI impI)
    fix q assume q: "below ?d q" "q \<noteq> ?d" "q \<noteq> ?d @ ''/backup''"
    then have "regular (w_fs t) q" using i(3) by (simp add: txdir_ok_def)
    then show "regular g q"
      using mark in_tx [OF q(1)] by (cases "q = ?d @ ''/restored''") (auto simp: regular_def)
  qed (use i(3) dirs in \<open>auto simp: txdir_ok_def\<close>)
  moreover have "manifest_ok ?t es torn"
    using i(4) in_tx [of "?d @ ''/manifest''"] by (simp add: manifest_ok_def old_content_def)
  moreover have bak: "g (backup_path ?d uf) = w_fs t (backup_path ?d uf)" for uf
    by (rule in_tx) (simp_all add: backup_not_special)
  then have "entries_ok ?t es"
    using i(5) by (simp add: entries_ok_def)
  moreover have "file_ok ?t D es uf" if uf: "x_files t u = Some uf" for u uf
  proof -
    have ok: "file_ok t D es uf" and place: "good_place ?d (u_path uf)"
      using i(6) [OF uf] placedD(3) [OF i(1) uf] by auto
    have "dir_of (u_path uf) \<notin> entry_dst ` set es"
    proof
      assume "dir_of (u_path uf) \<in> entry_dst ` set es"
      then obtain en where en: "en \<in> set es" "entry_dst en = dir_of (u_path uf)" by force
      obtain v vf where "x_files t v = Some vf" "en = entry_of ?d vf"
        by (rule entries_okE [OF i(5) en(1)]) (rule that, assumption+)
      with placedD(5) [OF i(1) uf] en(2) show False by (metis dir_of_ancestor entry_of_simps(1))
    qed
    moreover have "dir_of (u_path uf) \<noteq> ?d @ ''/restored''"
      using place by (auto simp: good_place_def)
    ultimately have dir: "g (dir_of (u_path uf)) = w_fs t (dir_of (u_path uf))"
      using same by blast
    show ?thesis
    proof (cases "u_path uf \<in> entry_dst ` set es")
      case True
      then obtain en where en: "en \<in> set es" "entry_dst en = u_path uf" by force
      obtain v vf where v: "x_files t v = Some vf" "en = entry_of ?d vf"
        "u_orig_exists vf \<Longrightarrow> \<exists>a. w_fs t (backup_path ?d vf) = Some (Reg (u_orig vf) a)"
        by (rule entries_okE [OF i(5) en(1)]) (rule that, assumption+)
      have "v = u" using placedD(4) [OF i(1) v(1) uf] en(2) v(2) by simp
      then have "vf = uf" using v(1) uf by simp
      then have "file_is g (u_path uf) (u_orig_exists uf) (u_orig uf)"
        using restored_file_is [of "w_fs t" g ?d uf] undone en(1) v(2,3) by auto
      then show ?thesis
        using ok dir by (auto simp: file_ok_def regular_def is_link_def file_is_def split: if_splits)
    next
      case False
      then have "g (u_path uf) = w_fs t (u_path uf)"
        using place by (intro same) (auto simp: good_place_def)
      then show ?thesis
        using ok dir by (simp add: file_ok_def regular_def is_link_def file_is_def)
    qed
  qed
  moreover have "entry_dst ` set es \<subseteq> targets t"
    using i(5) by (fastforce simp: entries_ok_def targets_def)
  then have "framed F ?t"
    by (intro framed_fs [OF i(7)] same) auto
  ultimately show ?thesis
    using i(1,2) by (simp add: inv_def)
qed

text \<open>
  The guard is well behaved: when its trap runs, it meets no fault.  A guard killed hard
  runs no trap.
\<close>

definition sound_trap :: "host \<Rightarrow> bool" where
  "sound_trap h \<longleftrightarrow>
     (\<forall>n. case h_guard h n of Ends e \<Rightarrow> no_faults e | _ \<Rightarrow> True) \<and>
     (\<forall>n. case h_close h n of Exits k e \<Rightarrow> no_faults e | _ \<Rightarrow> True)"

lemma sound_trapD:
  assumes "sound_trap h"
  shows "h_guard h n = Ends e \<Longrightarrow> no_faults e" and "h_close h n = Exits k e \<Longrightarrow> no_faults e"
  using assms [unfolded sound_trap_def, THEN conjunct1, THEN spec, of n]
    assms [unfolded sound_trap_def, THEN conjunct2, THEN spec, of n]
  by simp_all

lemma inv_fire:
  assumes "inv F D es torn t" and "no_faults e" and "w_guard t = Armed d"
  shows "inv F D es torn (fire h e d t)"
proof -
  let ?g = "s_fs (snd (restore_all e (x_txdir t) (script_start h (w_fs t) [])))"
  have d: "d = x_txdir t" using invD(2) [OF assms(1,3)] .
  have "inv F D es torn (t\<lparr>w_fs := ?g\<rparr>)"
    using restore_all_effect [OF assms(1,2), of h "[]"] inv_restored [OF assms(1)] assms(1)
    by (cases "?g = w_fs t") auto
  from inv_gone [OF this] show ?thesis by (simp add: fire_def d)
qed

lemma inv_guard_step:
  assumes "inv F D es torn t" and "sound_trap h"
  shows "inv F D es torn (guard_step h t)"
proof (cases "w_guard t")
  case (Armed d)
  show ?thesis
  proof (cases "h_guard h (w_tick t)")
    case (Ends e)
    then have "no_faults e" using sound_trapD(1) [OF assms(2)] by simp
    with Ends Armed show ?thesis by (simp add: guard_step_def inv_fire [OF assms(1)])
  qed (use Armed assms(1) in \<open>simp_all add: guard_step_def inv_gone\<close>)
qed (use assms(1) in \<open>simp_all add: guard_step_def\<close>)

lemma inv_close:
  assumes "inv F D es torn t" and "sound_trap h"
  shows "inv F D es torn (snd (close_graceful h t))"
proof (cases "h_close h (w_tick t)")
  case (Exits k e)
  then have "no_faults e" using sound_trapD(2) [OF assms(2)] by simp
  then show ?thesis
    using inv_fire [of F D es torn "t\<lparr>w_tick := Suc (w_tick t)\<rparr>" e] assms(1)
    by (auto simp: close_graceful_def Let_def Exits split: guard_state.splits)
qed (use assms(1) in \<open>simp add: close_graceful_def Let_def\<close>)

lemma observer_inv: "sound_trap h \<Longrightarrow> observer h (inv F D es torn)"
  by unfold_locales (simp_all add: inv_guard_step)

end
