(* ===== verification/Tx_Steps.thy ===== *)
theory Tx_Steps
  imports Tx_Invariant
begin

text \<open>
  How the operations that write keep the invariant of Tx_Invariant: a backup, a manifest
  entry, the swap of a file and its removal.
\<close>

section \<open>Where a swap writes\<close>

lemma below_ancestor: "a \<in> set (ancestors q) \<Longrightarrow> below d a \<Longrightarrow> below d q"
proof -
  assume a: "a \<in> set (ancestors q)" and d: "below d a"
  show "below d q"
  proof (cases "a = q")
    case False
    then obtain i where i: "i < length q" "q ! i = CHR ''/''" "a = take i q"
      using a by (auto simp: ancestors_def)
    then have "q = a @ CHR ''/'' # drop (Suc i) q"
      using id_take_nth_drop [OF i(1)] by metis
    with d show ?thesis by (auto simp: below_def has_prefix_iff) 
  qed (use d in simp)
qed

lemma slash_split:
  "D @ CHR ''/'' # x = d @ CHR ''/'' # r \<Longrightarrow> CHR ''/'' \<notin> set x \<Longrightarrow> D = d \<or> (\<exists>r'. D = d @ CHR ''/'' # r')"
proof -
  assume eq: "D @ CHR ''/'' # x = d @ CHR ''/'' # r" and x: "CHR ''/'' \<notin> set x"
  then consider us where "D = d @ us" "us @ CHR ''/'' # x = CHR ''/'' # r"
    | us where "d = D @ us" "CHR ''/'' # x = us @ CHR ''/'' # r"
    by (auto simp: append_eq_append_conv2)
  then show ?thesis
  proof cases
    case 1
    then show ?thesis by (cases us) auto
  next
    case 2
    with x show ?thesis by (cases us) auto
  qed
qed

lemma fresh_no_slash: "fresh_ok x \<Longrightarrow> CHR ''/'' \<notin> set x"
  by (auto simp: fresh_ok_def)

lemma swap_tmp_outside:
  assumes "good_place d p" and "fresh_ok (e_fresh e)" and "below d q" and "q \<noteq> d"
  shows "q \<noteq> swap_tmp e p"
proof
  assume q: "q = swap_tmp e p"
  from assms(3,4) obtain r where r: "q = d @ CHR ''/'' # r"
    by (auto simp: below_def has_prefix_iff)
  have "CHR ''/'' \<notin> set (''.sshkeytx.'' @ e_fresh e)"
    using fresh_no_slash [OF assms(2)] by simp
  from slash_split [OF _ this, of "dir_of p" d r] q r have "below d (dir_of p)"
    by (auto simp: swap_tmp_def below_def has_prefix_iff)
  with assms(1) show False by (simp add: good_place_def)
qed

lemma swap_dirs_outside: "good_place d p \<Longrightarrow> below d q \<Longrightarrow> q \<notin> swap_dirs p wo"
  using below_ancestor by (auto simp: swap_dirs_def good_place_def)

lemma base_of_swap_tmp:
  assumes "fresh_ok (e_fresh e)"
  shows "has_prefix (base_of (swap_tmp e p)) ''.sshkeytx.''"
proof -
  have "CHR ''/'' \<notin> set (''.sshkeytx.'' @ e_fresh e)"
    using fresh_no_slash [OF assms] by simp
  from last_index_append [OF this, of "dir_of p"] show ?thesis
    by (simp add: base_of_def swap_tmp_def)
qed

lemma good_place_not_tmp: "good_place d q \<Longrightarrow> fresh_ok (e_fresh e) \<Longrightarrow> q \<noteq> swap_tmp e p"
  using base_of_swap_tmp by (auto simp: good_place_def)

section \<open>File system changes that keep the invariant\<close>

text \<open>A regular file of the transaction directory that is no backup in use.\<close>

lemma inv_write_aside:
  assumes inv: "inv F D es torn t" and q: "below (x_txdir t) q" "q \<noteq> x_txdir t" "q \<noteq> x_txdir t @ ''/backup''"
    and g: "only {q} (w_fs t) g" "regular g q"
    and mf: "q \<noteq> x_txdir t @ ''/manifest''" and bak: "\<And>en. en \<in> set es \<Longrightarrow> q \<notin> entry_baks en"
  shows "inv F D es torn (t\<lparr>w_fs := g\<rparr>)"
proof -
  note i = invD [OF inv]
  let ?d = "x_txdir t" and ?t = "t\<lparr>w_fs := g\<rparr>"
  have same: "p \<noteq> q \<Longrightarrow> g p = w_fs t p" for p using g(1) by (simp add: only_def)
  have "txdir_ok g ?d"
    using i(3) g(2) q same unfolding txdir_ok_def regular_def by metis
  moreover have "manifest_ok ?t es torn"
    using i(4) same [OF mf [symmetric]] by (simp add: manifest_ok_def old_content_def)
  moreover have "entries_ok ?t es"
    unfolding entries_ok_def
  proof (intro conjI ballI)
    show "distinct (map entry_dst es)" using i(5) by (simp add: entries_ok_def)
    fix en assume en: "en \<in> set es"
    obtain v vf where v: "x_files t v = Some vf" "en = entry_of ?d vf"
      "u_orig_exists vf \<Longrightarrow> \<exists>a. w_fs t (backup_path ?d vf) = Some (Reg (u_orig vf) a)"
      by (rule entries_okE [OF i(5) en]) (rule that, assumption+)
    have "u_orig_exists vf \<Longrightarrow> backup_path ?d vf \<noteq> q"
      using bak [OF en] by (auto simp: v(2))
    with v same show "\<exists>u uf. x_files ?t u = Some uf \<and> en = entry_of (x_txdir ?t) uf \<and>
        (u_orig_exists uf \<longrightarrow> (\<exists>a. w_fs ?t (backup_path (x_txdir ?t) uf) = Some (Reg (u_orig uf) a)))"
      by (intro exI [of _ v] exI [of _ vf]) auto
  qed
  moreover have "file_ok ?t D es uf" if uf: "x_files t u = Some uf" for u uf
  proof -
    have "u_path uf \<noteq> q" "dir_of (u_path uf) \<noteq> q"
      using placedD(3) [OF i(1) uf] q(1) by (auto simp: good_place_def)
    with i(6) [OF uf] same show ?thesis
      by (simp add: file_ok_def regular_def is_link_def file_is_def)
  qed
  moreover have "framed F ?t" using q(1) by (intro framed_fs [OF i(7)] same) auto
  ultimately show ?thesis
    using i(1,2) by (simp add: inv_def)
qed

text \<open>A write to one user's file; everything else that existed stays.\<close>

lemma inv_write_target:
  assumes inv: "inv F D es torn t" and uf: "x_files t u = Some uf" and man: "u_manifested uf"
    and fr: "swap_frame e (u_path uf) wo (w_fs t) g" and e: "fresh_ok (e_fresh e)"
    and p: "regular g (u_path uf)" "u_orig_exists uf \<Longrightarrow> g (u_path uf) \<noteq> None"
  shows "inv F (insert u D) es torn (t\<lparr>w_fs := g\<rparr>)"
    and "g (u_path uf) = w_fs t (u_path uf) \<Longrightarrow> inv F D es torn (t\<lparr>w_fs := g\<rparr>)"
    and "file_is g (u_path uf) (u_orig_exists uf) (u_orig uf) \<Longrightarrow> inv F (D - {u}) es torn (t\<lparr>w_fs := g\<rparr>)"
proof -
  note i = invD [OF inv]
  let ?d = "x_txdir t" and ?t = "t\<lparr>w_fs := g\<rparr>" and ?p = "u_path uf"
  have place: "good_place ?d ?p" using placedD(3) [OF i(1) uf] .
  have same: "g q = w_fs t q" if "q \<noteq> ?p" "q \<noteq> swap_tmp e ?p" "q \<notin> swap_dirs ?p wo" for q
    using fr that by (simp add: swap_frame_def only_def)
  have old: "g q = w_fs t q" if "q \<noteq> ?p" "w_fs t q \<noteq> None" for q
  proof -
    have "((w_fs t)(?p := None)) q \<noteq> None" using that by simp
    then have "(g(?p := None)) q = ((w_fs t)(?p := None)) q"
      using fr unfolding swap_frame_def grows_def by blast
    then show ?thesis using that by simp
  qed
  have d: "g ?d = w_fs t ?d"
    using i(3) place by (intro old) (auto simp: txdir_ok_def good_place_def)
  have in_tx: "g q = w_fs t q" if "below ?d q" for q
  proof (cases "q = ?d")
    case False
    show ?thesis
      using place that swap_tmp_outside [OF place e that False] swap_dirs_outside [OF place that]
      by (intro same) (auto simp: good_place_def)
  qed (simp add: d)
  have fr': "framed F ?t"
  proof -
    have "g q = w_fs t q \<or> w_fs t q = None \<and> beside ?p q" if q: "q \<noteq> ?p" for q
    proof (cases "q = swap_tmp e ?p \<or> q \<in> swap_dirs ?p wo")
      case True
      then have "beside ?p q" by (auto simp: beside_def swap_tmp_def swap_dirs_def has_prefix_iff split: if_splits)
      then show ?thesis using old [OF q] by blast
    qed (use same q in auto)
    moreover have "?p \<in> targets t" using uf by (auto simp: targets_def)
    ultimately show ?thesis by (rule framed_beside [OF i(7)])
  qed
  have tx: "txdir_ok g ?d"
    using i(3) in_tx unfolding txdir_ok_def regular_def by simp
  have mf: "manifest_ok ?t es torn"
    using i(4) in_tx [of "?d @ ''/manifest''"] by (simp add: manifest_ok_def old_content_def)
  have en: "entries_ok ?t es"
    using i(5) in_tx by (simp add: entries_ok_def)
  have others: "g (u_path vf) = w_fs t (u_path vf)" if v: "x_files t v = Some vf" "v \<noteq> u" for v vf
  proof (rule same)
    show "u_path vf \<noteq> ?p" using placedD(4) [OF i(1) v(1) uf] v(2) by auto
    show "u_path vf \<noteq> swap_tmp e ?p" using good_place_not_tmp [OF placedD(3) [OF i(1) v(1)] e] .
    show "u_path vf \<notin> swap_dirs ?p wo"
      using placedD(5) [OF i(1) uf v(1)] by (simp add: swap_dirs_def)
  qed
  have parents: "g (dir_of (u_path vf)) = w_fs t (dir_of (u_path vf))"
    if v: "x_files t v = Some vf" "u_orig_exists vf" for v vf
  proof (rule old)
    show "dir_of (u_path vf) \<noteq> ?p"
      using placedD(5) [OF i(1) v(1) uf] dir_of_ancestor by metis
    show "w_fs t (dir_of (u_path vf)) \<noteq> None"
      using i(6) [OF v(1)] v(2) by (simp add: file_ok_def)
  qed
  have rest: "file_ok ?t D' es vf"
    if v: "x_files t v = Some vf" "v \<noteq> u" and D': "D - {u} \<subseteq> D'" "D' \<subseteq> insert u D" for v vf D'
    using i(6) [OF v(1)] others [OF v] parents [OF v(1)] placedD(1) [OF i(1) v(1)] v(2) D'
    by (auto simp: file_ok_def regular_def is_link_def file_is_def)
  have own: "file_ok ?t D' es uf" if "u \<notin> D' \<Longrightarrow> file_is g ?p (u_orig_exists uf) (u_orig uf)" for D'
    using i(6) [OF uf] parents [OF uf] placedD(1) [OF i(1) uf] man p that
    by (auto simp: file_ok_def is_link_def)
  have all: "inv F D' es torn ?t"
    if D': "D - {u} \<subseteq> D'" "D' \<subseteq> insert u D"
      and u: "u \<notin> D' \<Longrightarrow> file_is g ?p (u_orig_exists uf) (u_orig uf)" for D'
  proof -
    have "file_ok ?t D' es vf" if "x_files t v = Some vf" for v vf
      using own [OF u] rest [OF that _ D'] uf that by (cases "v = u") auto
    then show ?thesis using i(1,2) tx mf en fr' by (simp add: inv_def)
  qed
  show "inv F (insert u D) es torn ?t" by (rule all) auto
  show "file_is g ?p (u_orig_exists uf) (u_orig uf) \<Longrightarrow> inv F (D - {u}) es torn ?t" by (rule all) auto
  show "inv F D es torn ?t" if eq: "g ?p = w_fs t ?p"
  proof (rule all)
    assume "u \<notin> D"
    then show "file_is g ?p (u_orig_exists uf) (u_orig uf)"
      using i(6) [OF uf] placedD(1) [OF i(1) uf] eq by (simp add: file_ok_def file_is_def)
  qed auto
qed


section \<open>Changes of the transaction's own records\<close>

definition same_file :: "user_file \<Rightarrow> user_file \<Rightarrow> bool" where
  "same_file uf vf \<longleftrightarrow>
     u_user vf = u_user uf \<and> u_path vf = u_path uf \<and> u_orig vf = u_orig uf \<and>
     u_orig_exists vf = u_orig_exists uf"

lemma same_file_entry: "same_file uf vf \<Longrightarrow> entry_of d vf = entry_of d uf \<and> backup_path d vf = backup_path d uf"
  by (simp add: same_file_def entry_of_def backup_path_def)

lemma placed_set_file:
  assumes "placed t" and "x_files t u = Some uf" and "same_file uf vf"
  shows "placed (t\<lparr>x_files := (x_files t)(u \<mapsto> vf)\<rparr>)"
  using assms unfolding placed_def same_file_def
  by (auto split: if_splits)

lemma targets_set_file:
  assumes "x_files t u = Some uf" and "same_file uf vf"
  shows "targets (t\<lparr>x_files := (x_files t)(u \<mapsto> vf)\<rparr>) = targets t"
proof (rule set_eqI)
  fix p
  have "(\<exists>wf. ((x_files t)(u \<mapsto> vf)) v = Some wf \<and> p = u_path wf) \<longleftrightarrow> (\<exists>wf. x_files t v = Some wf \<and> p = u_path wf)" for v
    using assms by (cases "v = u") (auto simp: same_file_def)
  then show "p \<in> targets (t\<lparr>x_files := (x_files t)(u \<mapsto> vf)\<rparr>) \<longleftrightarrow> p \<in> targets t"
    by (simp add: targets_def)
qed

lemma inv_set_file:
  assumes inv: "inv F D es torn t" and uf: "x_files t u = Some uf" and same: "same_file uf vf"
    and man: "u_manifested vf \<Longrightarrow> entry_of (x_txdir t) uf \<in> set es" "u \<in> D \<Longrightarrow> u_manifested vf"
  shows "inv F D es torn (t\<lparr>x_files := (x_files t)(u \<mapsto> vf)\<rparr>)"
proof -
  note i = invD [OF inv]
  let ?t = "t\<lparr>x_files := (x_files t)(u \<mapsto> vf)\<rparr>"
  have "file_ok t D es vf"
    using i(6) [OF uf] same man same_file_entry [OF same] placedD(1) [OF i(1) uf]
    by (auto simp: file_ok_def same_file_def)
  moreover have "entries_ok ?t es"
    unfolding entries_ok_def
  proof (intro conjI ballI)
    show "distinct (map entry_dst es)" using i(5) by (simp add: entries_ok_def)
    fix en assume en: "en \<in> set es"
    obtain v wf where v: "x_files t v = Some wf" "en = entry_of (x_txdir t) wf"
      "u_orig_exists wf \<Longrightarrow> \<exists>a. w_fs t (backup_path (x_txdir t) wf) = Some (Reg (u_orig wf) a)"
      by (rule entries_okE [OF i(5) en]) (rule that, assumption+)
    show "\<exists>u uf. x_files ?t u = Some uf \<and> en = entry_of (x_txdir ?t) uf \<and>
        (u_orig_exists uf \<longrightarrow> (\<exists>a. w_fs ?t (backup_path (x_txdir ?t) uf) = Some (Reg (u_orig uf) a)))"
    proof (cases "v = u")
      case True
      with v uf same_file_entry [OF same] same show ?thesis
        by (intro exI [of _ u] exI [of _ vf]) (auto simp: same_file_def)
    next
      case False
      with v show ?thesis by (intro exI [of _ v] exI [of _ wf]) auto
    qed
  qed
  moreover have "framed F ?t" using i(7) targets_set_file [OF uf same] by (simp add: framed_def)
  ultimately show ?thesis
    using i placed_set_file [OF i(1) uf same] by (auto simp: inv_def)
qed

lemma inv_more:
  assumes "inv F D es torn t" and "\<And>uf. x_files t u = Some uf \<Longrightarrow> u_manifested uf"
  shows "inv F (insert u D) es torn t"
proof -
  have "file_ok t (insert u D) es vf" if v: "x_files t v = Some vf" for v vf
    using invD(6) [OF assms(1) v] placedD(1) [OF invD(1) [OF assms(1)] v] assms(2) v
    by (auto simp: file_ok_def)
  then show ?thesis using assms(1) by (simp add: inv_def)
qed

text \<open>Conditions on the transaction's own fields, which no remote operation changes.\<close>

definition xonly :: "(txn \<Rightarrow> bool) \<Rightarrow> bool" where
  "xonly X \<longleftrightarrow> (\<forall>t t'. world.more t = world.more t' \<longrightarrow> X t \<longrightarrow> X t')"

lemma more_fields:
  assumes "world.more t = world.more (t' :: txn)"
  shows "x_files t = x_files t' \<and> x_order t = x_order t' \<and> x_ops t = x_ops t' \<and> x_txdir t = x_txdir t' \<and>
    x_rootly t = x_rootly t' \<and> x_localdir t = x_localdir t' \<and> x_guarded t = x_guarded t' \<and> x_meta t = x_meta t'"
  using assms by (cases t; cases t') simp

lemma xonlyI: "(\<And>t t'. x_files t = x_files t' \<Longrightarrow> x_order t = x_order t' \<Longrightarrow> x_ops t = x_ops t' \<Longrightarrow>
    x_txdir t = x_txdir t' \<Longrightarrow> x_rootly t = x_rootly t' \<Longrightarrow> x_localdir t = x_localdir t' \<Longrightarrow>
    x_guarded t = x_guarded t' \<Longrightarrow> x_meta t = x_meta t' \<Longrightarrow> X t \<Longrightarrow> X t') \<Longrightarrow> xonly X"
  unfolding xonly_def using more_fields by blast

lemma xonlyD: "xonly X \<Longrightarrow> X t \<Longrightarrow> world.more t' = world.more t \<Longrightarrow> X t'"
  unfolding xonly_def by metis

lemma more_guard_step [simp]: "world.more (guard_step h t) = world.more (t :: 'z world_scheme)"
  by (simp add: guard_step_def fire_def split: guard_state.splits guard_event.splits)

lemma more_close [simp]: "world.more (snd (close_graceful h t)) = world.more (t :: 'z world_scheme)"
  by (simp add: close_graceful_def fire_def Let_def split: guard_state.splits close_event.splits)

lemma xonly_guard: "xonly X \<Longrightarrow> X t \<Longrightarrow> X (guard_step h t)"
  by (erule xonlyD) simp_all

lemma xonly_upd [simp]:
  assumes "xonly X"
  shows "X (t\<lparr>w_tick := n\<rparr>) = X t" "X (t\<lparr>w_fs := f\<rparr>) = X t" "X (t\<lparr>w_local := l\<rparr>) = X t"
  using assms unfolding xonly_def by (metis world.ext_inject world.surjective world.update_convs)+

section \<open>The remote operations under the invariant\<close>

lemma inv_tick_fs [simp]: "inv F D es torn (t\<lparr>w_tick := n, w_fs := f\<rparr>) = inv F D es torn (t\<lparr>w_fs := f\<rparr>)"
proof -
  have eq: "t\<lparr>w_tick := n, w_fs := f\<rparr> = t\<lparr>w_fs := f\<rparr>\<lparr>w_tick := n\<rparr>" by (cases t) simp
  show ?thesis unfolding eq by (rule inv_simps(1))
qed

lemma hoare_run_inv:
  assumes h: "sound_trap h" and X: "xonly X"
    and guard: "\<And>t. inv F D es torn t \<Longrightarrow> X t \<Longrightarrow> B t \<Longrightarrow> B (guard_step h t)"
    and closed: "\<And>t n. inv F D es torn t \<Longrightarrow> X t \<Longrightarrow> B t \<Longrightarrow> E NoSession (t\<lparr>w_tick := n\<rparr>)"
    and ran: "\<And>t n r f out. inv F D es torn t \<Longrightarrow> X t \<Longrightarrow> B t \<Longrightarrow>
      script (w_tick t) (h_fault h (w_tick t)) (w_fs t) = (r, f, out) \<Longrightarrow>
      (case answer (h_fault h (w_tick t)) r out of
         Inl err \<Rightarrow> E err (t\<lparr>w_tick := n, w_fs := f\<rparr>)
       | Inr x \<Rightarrow> Q x (t\<lparr>w_tick := n, w_fs := f\<rparr>))"
  shows "hoare (\<lambda>t. inv F D es torn t \<and> X t \<and> B t) (run_with h script) Q E"
  by (rule hoare_run_with [where P' = "\<lambda>t. inv F D es torn t \<and> X t \<and> B t"])
    (auto intro: inv_guard_step [OF _ h] xonly_guard [OF X] guard closed ran)

text \<open>What lies in the transaction directory survives the end of the guard session.\<close>

lemma guard_step_in_tx:
  assumes "inv F D es torn t" and "sound_trap h" and "below (x_txdir t) q" and "q \<noteq> x_txdir t @ ''/restored''"
  shows "w_fs (guard_step h t) q = w_fs t q"
proof -
  have "w_fs (fire h e d t) q = w_fs t q" if "w_guard t = Armed d" "no_faults e" for e d
  proof -
    have d: "d = x_txdir t" using invD(2) [OF assms(1) that(1)] .
    have "q \<notin> entry_dst ` set es"
      using entry_restorable [OF assms(1)] assms(3) by auto
    then show ?thesis
      using restore_all_effect [OF assms(1) that(2), of h "[]"] assms(4)
      by (auto simp: fire_def d trap_effect_def only_def)
  qed
  then show ?thesis
    using sound_trapD(1) [OF assms(2)]
    by (auto simp: guard_step_def split: guard_state.splits guard_event.splits)
qed

lemma write_file_inv:
  assumes h: "sound_trap h" and X: "xonly X"
    and q: "\<And>t. inv F D es torn t \<Longrightarrow> X t \<Longrightarrow> below (x_txdir t) q \<and> q \<noteq> x_txdir t \<and>
      q \<noteq> x_txdir t @ ''/backup'' \<and> q \<noteq> x_txdir t @ ''/manifest'' \<and> (\<forall>en \<in> set es. q \<notin> entry_baks en)"
  shows "hoare (\<lambda>t. inv F D es torn t \<and> X t) (write_file h q content)
    (\<lambda>_ t. inv F D es torn t \<and> X t \<and> (\<exists>a. w_fs t q = Some (Reg content a))) (\<lambda>_ t. inv F D es torn t \<and> X t)"
proof -
  let ?P = "\<lambda>t. inv F D es torn t \<and> X t \<and> True"
  have "hoare ?P (run h (write_cmd q) content)
    (\<lambda>_ t. inv F D es torn t \<and> X t \<and> (\<exists>a. w_fs t q = Some (Reg content a))) (\<lambda>_ t. inv F D es torn t \<and> X t)"
    unfolding run_def
  proof (rule hoare_run_inv [OF h X])
    fix t :: txn and n r f out
    assume t: "inv F D es torn t" "X t"
      and "script_of h (write_cmd q) content (w_tick t) (h_fault h (w_tick t)) (w_fs t) = (r, f, out)"
    then obtain s' where e: "exec (script_env h (h_fault h (w_tick t))) (write_cmd q) (script_start h (w_fs t) content) = (r, s')"
      and f: "f = s_fs s'" by (auto simp: script_of_exec)
    note q = q [OF t]
    have reg: "regular (w_fs t) q"
      using invD(3) [OF t(1)] q by (simp add: txdir_ok_def)
    then have "\<not> is_link (s_fs (script_start h (w_fs t) content)) q"
      by (auto simp: regular_def)
    note w = exec_write_cmd [OF e this, simplified]
    have "regular f q" using w(2) reg by (auto simp: regular_def f)
    then have "inv F D es torn (t\<lparr>w_fs := f\<rparr>)"
      using q w(1) by (intro inv_write_aside [OF t(1)]) (auto simp: f)
    then show "case answer (h_fault h (w_tick t)) r out of
        Inl err \<Rightarrow> inv F D es torn (t\<lparr>w_tick := n, w_fs := f\<rparr>) \<and> X (t\<lparr>w_tick := n, w_fs := f\<rparr>)
      | Inr x \<Rightarrow> inv F D es torn (t\<lparr>w_tick := n, w_fs := f\<rparr>) \<and> X (t\<lparr>w_tick := n, w_fs := f\<rparr>) \<and>
          (\<exists>a. w_fs (t\<lparr>w_tick := n, w_fs := f\<rparr>) q = Some (Reg content a))"
      using X t(2) w(3) answer_Inr by (auto simp: f split: sum.splits)
  qed (use X in auto)
  then show ?thesis
    unfolding write_file_def by (auto intro!: hoare_rules elim: hoare_weaken)
qed

end
