(* ===== verification/Tx_Ops.thy ===== *)
theory Tx_Ops
  imports Tx_Steps
begin

text \<open>
  The remaining writes under the invariant: the manifest entry, the swap and the removal of
  a user's file, and on top of them \<^verbatim>\<open>ensureCAS\<close> and \<^verbatim>\<open>swap\<close>.
\<close>

section \<open>The manifest entry\<close>

definition has_backup :: "user_file \<Rightarrow> txn \<Rightarrow> bool" where
  "has_backup uf t \<longleftrightarrow>
     (u_orig_exists uf \<longrightarrow> (\<exists>a. w_fs t (backup_path (x_txdir t) uf) = Some (Reg (u_orig uf) a)))"

lemma guard_step_fields [simp]:
  "x_files (guard_step h (t :: txn)) = x_files t" "x_order (guard_step h t) = x_order t"
  "x_ops (guard_step h t) = x_ops t" "x_txdir (guard_step h t) = x_txdir t"
  "x_rootly (guard_step h t) = x_rootly t" "x_guarded (guard_step h t) = x_guarded t"
  using more_fields [OF more_guard_step [of h t]] by simp_all

lemma has_backup_guard:
  "inv F D es torn t \<Longrightarrow> sound_trap h \<Longrightarrow> has_backup uf t \<Longrightarrow> has_backup uf (guard_step h t)"
  using guard_step_in_tx [of F D es torn t h "backup_path (x_txdir t) uf"] 
  by (auto simp: has_backup_def backup_not_special)

text \<open>What an append may have left is no entry, the whole entry, or part of its line.\<close>

lemma append_line_cases:
  assumes "plain_entry en"
  shows "take k (manifest_line en) = manifest_line en \<or> NL \<notin> set (take k (manifest_line en))"
proof -
  have "\<exists>l. manifest_line en = l @ [NL] \<and> NL \<notin> set l"
  proof (cases en)
    case (FEntry bak dst)
    with assms show ?thesis
      by (intro exI [of _ "''F'' @ [TAB] @ bak @ [TAB] @ dst"]) (auto simp: plain_path_def)
  next
    case (AEntry dst)
    with assms show ?thesis
      by (intro exI [of _ "''A'' @ [TAB] @ ''-'' @ [TAB] @ dst"]) (auto simp: plain_path_def)
  qed
  then obtain l where "manifest_line en = l @ [NL]" "NL \<notin> set l" by blast
  then show ?thesis
    by (cases "k \<le> length l") (auto dest: in_set_takeD)
qed

lemma inv_append_entry:
  assumes inv: "inv F D es [] t" and uf: "x_files t u = Some uf" and new: "entry_of (x_txdir t) uf \<notin> set es"
    and bak: "has_backup uf t" and g: "only {x_txdir t @ ''/manifest''} (w_fs t) g"
  shows "g (x_txdir t @ ''/manifest'') = Some (Reg (manifest_text es @ manifest_line (entry_of (x_txdir t) uf)) a) \<Longrightarrow>
      inv F D (es @ [entry_of (x_txdir t) uf]) [] (t\<lparr>w_fs := g\<rparr>)"
    and "g (x_txdir t @ ''/manifest'') = Some (Reg (manifest_text es @ torn) a) \<Longrightarrow> NL \<notin> set torn \<Longrightarrow>
      inv F D es torn (t\<lparr>w_fs := g\<rparr>)"
proof -
  note i = invD [OF inv]
  let ?d = "x_txdir t" and ?m = "x_txdir t @ ''/manifest''" and ?en = "entry_of (x_txdir t) uf"
  have same: "q \<noteq> ?m \<Longrightarrow> g q = w_fs t q" for q using g by (simp add: only_def)
  have tx: "txdir_ok g ?d" if "g ?m = Some (Reg c a)" for c a
    unfolding txdir_ok_def
  proof (intro conjI allI impI)
    fix q assume q: "below ?d q" "q \<noteq> ?d" "q \<noteq> ?d @ ''/backup''"
    then have "regular (w_fs t) q" using i(3) by (simp add: txdir_ok_def)
    then show "regular g q"
      using that same [of q] by (cases "q = ?m") (auto simp: regular_def)
  qed (use i(3) same in \<open>auto simp: txdir_ok_def\<close>)
  have fr: "framed F (t\<lparr>w_fs := g\<rparr>)"
    by (rule framed_fs [OF i(7)], rule same) auto
  have fileok: "file_ok (t\<lparr>w_fs := g\<rparr>) D es' vf"
    if v: "x_files t v = Some vf" and es': "set es \<subseteq> set es'" for v vf es'
  proof -
    have "u_path vf \<noteq> ?m" "dir_of (u_path vf) \<noteq> ?m"
      using placedD(3) [OF i(1) v] by (auto simp: good_place_def)
    with i(6) [OF v] same es' show ?thesis
      by (auto simp: file_ok_def regular_def is_link_def file_is_def)
  qed
  have entry: "\<exists>u uf. x_files t u = Some uf \<and> en = entry_of ?d uf \<and>
      (u_orig_exists uf \<longrightarrow> (\<exists>a. g (backup_path ?d uf) = Some (Reg (u_orig uf) a)))"
    if en: "en \<in> set es" for en
  proof -
    obtain v vf where v: "x_files t v = Some vf" "en = entry_of ?d vf"
      "u_orig_exists vf \<Longrightarrow> \<exists>a. w_fs t (backup_path ?d vf) = Some (Reg (u_orig vf) a)"
      by (rule entries_okE [OF i(5) en]) (rule that, assumption+)
    then show ?thesis
      using same by (intro exI [of _ v] exI [of _ vf]) (auto simp: backup_not_special)
  qed
  show "inv F D es torn (t\<lparr>w_fs := g\<rparr>)"
    if "g ?m = Some (Reg (manifest_text es @ torn) a)" "NL \<notin> set torn"
    using i(1,2,5) that tx [OF that(1)] fileok entry
    by (simp add: inv_def manifest_ok_def old_content_def entries_ok_def fr)
  show "inv F D (es @ [?en]) [] (t\<lparr>w_fs := g\<rparr>)"
    if m: "g ?m = Some (Reg (manifest_text es @ manifest_line ?en) a)"
  proof -
    have "entry_dst en \<noteq> u_path uf" if en: "en \<in> set es" for en
    proof
      assume eq: "entry_dst en = u_path uf"
      obtain v vf where v: "x_files t v = Some vf" "en = entry_of ?d vf"
        by (rule entries_okE [OF i(5) en]) (rule that, assumption+)
      with eq placedD(4) [OF i(1) v(1) uf] have "v = u" by simp
      with v uf en new show False by simp
    qed
    then have "u_path uf \<notin> entry_dst ` set es" by force
    moreover have "\<exists>v vf. x_files t v = Some vf \<and> ?en = entry_of ?d vf \<and>
      (u_orig_exists vf \<longrightarrow> (\<exists>a. g (backup_path ?d vf) = Some (Reg (u_orig vf) a)))"
      using uf bak same by (intro exI [of _ u] exI [of _ uf]) (auto simp: has_backup_def backup_not_special)
    ultimately have "entries_ok (t\<lparr>w_fs := g\<rparr>) (es @ [?en])"
      using i(5) entry unfolding entries_ok_def by simp
    moreover have "file_ok (t\<lparr>w_fs := g\<rparr>) D (es @ [?en]) vf" if "x_files t v = Some vf" for v vf
      by (rule fileok [OF that]) auto
    ultimately show ?thesis
      using i(1,2) m tx [OF m]
      by (simp add: inv_def manifest_ok_def old_content_def manifest_text_def fr)
  qed
qed


lemma append_entry_inv:
  assumes h: "sound_trap h" and X: "xonly X"
    and en: "\<And>t. X t \<Longrightarrow> x_files t u = Some uf \<and> x_txdir t = d \<and> m = d @ ''/manifest''"
    and new: "entry_of d uf \<notin> set es"
  shows "hoare (\<lambda>t. inv F D es [] t \<and> X t \<and> has_backup uf t) (append_file h m (manifest_line (entry_of d uf)))
    (\<lambda>_ t. inv F D (es @ [entry_of d uf]) [] t \<and> X t) (\<lambda>_ t. (\<exists>es torn. inv F D es torn t) \<and> X t)"
proof -
  let ?P = "\<lambda>t. inv F D es [] t \<and> X t \<and> has_backup uf t" and ?l = "manifest_line (entry_of d uf)"
  have "hoare ?P (run h (append_cmd m) ?l)
    (\<lambda>_ t. inv F D (es @ [entry_of d uf]) [] t \<and> X t) (\<lambda>_ t. (\<exists>es torn. inv F D es torn t) \<and> X t)"
    unfolding run_def
  proof (rule hoare_run_inv [OF h X])
    fix t :: txn and n r f out
    assume t: "inv F D es [] t" "X t" and bak: "has_backup uf t"
      and "script_of h (append_cmd m) ?l (w_tick t) (h_fault h (w_tick t)) (w_fs t) = (r, f, out)"
    then obtain s' where e: "exec (script_env h (h_fault h (w_tick t))) (append_cmd m) (script_start h (w_fs t) ?l) = (r, s')"
      and f: "f = s_fs s'" by (auto simp: script_of_exec)
    have d: "x_files t u = Some uf" "x_txdir t = d" and m: "m = d @ ''/manifest''" using en [OF t(2)] by auto
    note i = invD [OF t(1)]
    have reg: "regular (w_fs t) m"
      using i(3) by (simp add: txdir_ok_def d m)
    then have "\<not> is_link (s_fs (script_start h (w_fs t) ?l)) m"
      by (auto simp: regular_def)
    note w = exec_append_cmd [OF e this, simplified]
    have old: "old_content (w_fs t) m = manifest_text es"
      using i(4) by (simp add: manifest_ok_def d m)
    note app = inv_append_entry [OF t(1) d(1) _ bak, unfolded d(2), folded m, OF new w(1)]
    have ok: "inv F D (es @ [entry_of d uf]) [] (t\<lparr>w_fs := f\<rparr>)" if "ctl_ok r"
      using w(3) [OF that] app(1) by (auto simp: f old)
    have plain: "plain_entry (entry_of d uf)" using plain_entry_of [OF i(1) d(1)] by (simp add: d)
    have bad: "\<exists>es torn. inv F D es torn (t\<lparr>w_fs := f\<rparr>)"
    proof (cases "f m = w_fs t m")
      case True
      then have "f = w_fs t" using w(1) by (auto simp: f only_def)
      with t(1) show ?thesis by (intro exI [of _ es] exI [of _ "[]"]) simp
    next
      case False
      then obtain k a where "f m = Some (Reg (manifest_text es @ take k ?l) a)"
        using w(2) by (auto simp: f old)
      with append_line_cases [OF plain, of k] app show ?thesis
        by (auto simp: f)
    qed
    show "case answer (h_fault h (w_tick t)) r out of
        Inl err \<Rightarrow> (\<exists>es torn. inv F D es torn (t\<lparr>w_tick := n, w_fs := f\<rparr>)) \<and> X (t\<lparr>w_tick := n, w_fs := f\<rparr>)
      | Inr x \<Rightarrow> inv F D (es @ [entry_of d uf]) [] (t\<lparr>w_tick := n, w_fs := f\<rparr>) \<and> X (t\<lparr>w_tick := n, w_fs := f\<rparr>)"
      using X t(2) ok bad answer_Inr by (auto split: sum.splits)
  qed (use X in \<open>auto intro: has_backup_guard [OF _ h]\<close>)
  then show ?thesis
    unfolding append_file_def by (auto intro!: hoare_rules elim: hoare_weaken)
qed

section \<open>The swap of a user's file\<close>

definition fresh_names :: "host \<Rightarrow> bool" where
  "fresh_names h \<longleftrightarrow> (\<forall>n. fresh_ok (ft_fresh (h_fault h n)))"

lemma swap_exec_inv:
  assumes inv: "inv F D es torn t" and uf: "x_files t u = Some uf" and man: "u_manifested uf"
    and e: "fresh_ok (e_fresh e)" and run: "exec e (swap_cmd (u_path uf) wo) (script_start h (w_fs t) c) = (r, s')"
  shows "inv F (insert u D) es torn (t\<lparr>w_fs := s_fs s'\<rparr>)"
    and "r \<noteq> Killed \<Longrightarrow> \<not> ctl_ok r \<Longrightarrow> inv F D es torn (t\<lparr>w_fs := s_fs s'\<rparr>)"
    and "ctl_ok r \<Longrightarrow> u_orig_exists uf \<Longrightarrow> c = u_orig uf \<Longrightarrow> inv F (D - {u}) es torn (t\<lparr>w_fs := s_fs s'\<rparr>)"
    and "ctl_ok r \<Longrightarrow> \<exists>a. s_fs s' (u_path uf) = Some (Reg c a)"
proof -
  note i = invD [OF inv]
  let ?p = "u_path uf" and ?g = "s_fs s'"
  have place: "good_place (x_txdir t) ?p" using placedD(3) [OF i(1) uf] .
  have reg: "regular (w_fs t) ?p" "u_orig_exists uf \<Longrightarrow> w_fs t ?p \<noteq> None"
    using i(6) [OF uf] by (auto simp: file_ok_def)
  have dir: "\<forall>a. s_fs (script_start h (w_fs t) c) ?p \<noteq> Some (Dir a)"
    using reg(1) by (auto simp: regular_def)
  have dirs: "?p \<notin> swap_dirs ?p wo"
    using placedD(5) [OF i(1) uf uf] by (simp add: swap_dirs_def)
  have at: "swap_frame e ?p wo (w_fs t) ?g"
    "if ctl_ok r then \<exists>a. ?g ?p = Some (Reg c a)
     else if r = Killed then ?g ?p = w_fs t ?p \<or> (\<exists>a. ?g ?p = Some (Reg c a)) else ?g ?p = w_fs t ?p"
    using swap_atomic [OF e good_place_not_tmp [OF place e, symmetric] dirs dir run] by auto
  have new: "regular ?g ?p" "u_orig_exists uf \<Longrightarrow> ?g ?p \<noteq> None"
    using at(2) reg by (auto simp: regular_def split: if_splits)
  note wr = inv_write_target [OF inv uf man at(1) e new]
  show "inv F (insert u D) es torn (t\<lparr>w_fs := ?g\<rparr>)" by (rule wr(1))
  show "r \<noteq> Killed \<Longrightarrow> \<not> ctl_ok r \<Longrightarrow> inv F D es torn (t\<lparr>w_fs := ?g\<rparr>)"
    using at(2) by (intro wr(2)) auto
  show "ctl_ok r \<Longrightarrow> u_orig_exists uf \<Longrightarrow> c = u_orig uf \<Longrightarrow> inv F (D - {u}) es torn (t\<lparr>w_fs := ?g\<rparr>)"
    using at(2) by (intro wr(3)) auto
  show "ctl_ok r \<Longrightarrow> \<exists>a. ?g ?p = Some (Reg c a)" using at(2) by simp
qed

text \<open>A host whose dead scripts are never reported by their signal.\<close>

definition no_signals :: "host \<Rightarrow> bool" where
  "no_signals h \<longleftrightarrow> (\<forall>n. ft_signal (h_fault h n) = None)"

lemma swap_file_inv:
  assumes h: "sound_trap h" "fresh_names h" and X: "xonly X"
    and uf: "\<And>t. X t \<Longrightarrow> x_files t u = Some uf" "u_manifested uf"
    and sq: "SQ \<notin> set (u_path uf)"
  shows "hoare (\<lambda>t. inv F D es torn t \<and> X t) (swap_file h (u_path uf) c wo)
    (\<lambda>_ t. X t \<and> inv F (insert u D) es torn t \<and> (u_orig_exists uf \<longrightarrow> c = u_orig uf \<longrightarrow> inv F (D - {u}) es torn t))
    (\<lambda>err t. X t \<and> inv F (insert u D) es torn t \<and>
      (is_exit_error err \<longrightarrow> no_signals h \<longrightarrow> inv F D es torn t))"
    (is "hoare ?P _ (\<lambda>_. ?Q) ?E")
proof -
  have more: "inv F (insert u D) es torn t" if "inv F D es torn t" "X t" for t
    using uf(1) [OF that(2)] uf(2) by (intro inv_more [OF that(1)]) auto
  have "hoare (\<lambda>t. inv F D es torn t \<and> X t \<and> True) (run h (swap_cmd (u_path uf) wo') c) (\<lambda>_. ?Q) ?E" for wo'
    unfolding run_def
  proof (rule hoare_run_inv [OF h(1) X])
    fix t :: txn and n r f out
    assume t: "inv F D es torn t" "X t"
      and "script_of h (swap_cmd (u_path uf) wo') c (w_tick t) (h_fault h (w_tick t)) (w_fs t) = (r, f, out)"
    then obtain s' where e: "exec (script_env h (h_fault h (w_tick t))) (swap_cmd (u_path uf) wo')
        (script_start h (w_fs t) c) = (r, s')" and f: "f = s_fs s'"
      by (auto simp: script_of_exec)
    have fr: "fresh_ok (e_fresh (script_env h (h_fault h (w_tick t))))"
      using h(2) by (simp add: fresh_names_def)
    note sw = swap_exec_inv [OF t(1) uf(1) [OF t(2)] uf(2) fr e]
    show "case answer (h_fault h (w_tick t)) r out of
        Inl err \<Rightarrow> ?E err (t\<lparr>w_tick := n, w_fs := f\<rparr>)
      | Inr x \<Rightarrow> ?Q (t\<lparr>w_tick := n, w_fs := f\<rparr>)"
    proof (cases "answer (h_fault h (w_tick t)) r out")
      case (Inl err)
      have "inv F D es torn (t\<lparr>w_fs := f\<rparr>)" if "is_exit_error err" "no_signals h"
        using answer_exit_unsignalled [OF Inl that(1)] that(2) sw(2) by (auto simp: no_signals_def f)
      with Inl sw(1) X t(2) show ?thesis by (simp add: f)
    next
      case (Inr x)
      with answer_Inr [OF Inr] sw(1,3) X t(2) show ?thesis by (auto simp: f)
    qed
  qed (use X in \<open>auto intro: more simp: is_exit_error_def\<close>)
  then have run: "hoare ?P (run h (swap_cmd (u_path uf) wo') c) (\<lambda>_. ?Q) ?E" for wo'
    by simp
  show ?thesis
    unfolding swap_file_def Let_def if_not_P [OF sq]
  proof (intro hoare_option)
    show "hoare ?P (throw (BadOpts err)) (\<lambda>_. ?Q) ?E" for err
      by (rule hoare_throw) (use more in \<open>auto simp: is_exit_error_def\<close>)
  qed (rule hoare_andThen [OF run hoare_ret], assumption)
qed


lemma remove_path_inv:
  assumes h: "sound_trap h" "fresh_names h" and X: "xonly X"
    and uf: "\<And>t. X t \<Longrightarrow> x_files t u = Some uf" "u_manifested uf" "\<not> u_orig_exists uf"
  shows "hoare (\<lambda>t. inv F D es torn t \<and> X t) (remove_path h (u_path uf))
    (\<lambda>_ t. X t \<and> inv F (D - {u}) es torn t) (\<lambda>_ t. X t \<and> inv F (insert u D) es torn t)"
proof -
  have more: "inv F (insert u D) es torn t" if "inv F D es torn t" "X t" for t
    using uf(1) [OF that(2)] uf(2) by (intro inv_more [OF that(1)]) auto
  have "hoare (\<lambda>t. inv F D es torn t \<and> X t \<and> True) (run h (remove_cmd (u_path uf)) [])
    (\<lambda>_ t. X t \<and> inv F (D - {u}) es torn t) (\<lambda>_ t. X t \<and> inv F (insert u D) es torn t)"
    unfolding run_def
  proof (rule hoare_run_inv [OF h(1) X])
    fix t :: txn and n r f out
    assume t: "inv F D es torn t" "X t"
      and "script_of h (remove_cmd (u_path uf)) [] (w_tick t) (h_fault h (w_tick t)) (w_fs t) = (r, f, out)"
    then obtain s' where e: "exec (script_env h (h_fault h (w_tick t))) (remove_cmd (u_path uf))
        (script_start h (w_fs t) []) = (r, s')" and f: "f = s_fs s'"
      by (auto simp: script_of_exec)
    note w = exec_remove_cmd [OF e, simplified, folded f]
    let ?e = "script_env h (h_fault h (w_tick t))"
    have fr: "fresh_ok (e_fresh ?e)" using h(2) by (simp add: fresh_names_def)
    have frame: "swap_frame ?e (u_path uf) undefined (w_fs t) f"
      using w(1) by (auto simp: swap_frame_def only_def grows_def)
    have reg: "regular f (u_path uf)"
      using w(1) invD(6) [OF t(1) uf(1) [OF t(2)]] by (auto simp: file_ok_def regular_def)
    note wr = inv_write_target [OF t(1) uf(1) [OF t(2)] uf(2) frame fr reg]
    show "case answer (h_fault h (w_tick t)) r out of
        Inl err \<Rightarrow> X (t\<lparr>w_tick := n, w_fs := f\<rparr>) \<and> inv F (insert u D) es torn (t\<lparr>w_tick := n, w_fs := f\<rparr>)
      | Inr x \<Rightarrow> X (t\<lparr>w_tick := n, w_fs := f\<rparr>) \<and> inv F (D - {u}) es torn (t\<lparr>w_tick := n, w_fs := f\<rparr>)"
      using X t(2) wr(1,3) w(2) uf(3) answer_Inr by (auto split: sum.splits)
  qed (use X in \<open>auto intro: more\<close>)
  then show ?thesis
    unfolding remove_path_def by (auto intro!: hoare_rules elim: hoare_weaken)
qed

section \<open>The first copy of a file\<close>

text \<open>The transaction's own fields, its files apart, are those of \<open>t0\<close>.\<close>

definition x_is :: "(string \<rightharpoonup> user_file) \<Rightarrow> txn \<Rightarrow> txn \<Rightarrow> bool" where
  "x_is fm t0 t \<longleftrightarrow>
     x_files t = fm \<and> x_order t = x_order t0 \<and> x_ops t = x_ops t0 \<and> x_txdir t = x_txdir t0 \<and>
     x_rootly t = x_rootly t0 \<and> x_guarded t = x_guarded t0 \<and> x_localdir t = x_localdir t0"

lemma xonly_x_is [simp]: "xonly (x_is fm t0)"
  by (rule xonlyI) (simp add: x_is_def)

lemma x_is_set [simp]: "x_is fm t0 t \<Longrightarrow> x_is (fm(u \<mapsto> vf)) t0 (t\<lparr>x_files := (x_files t)(u \<mapsto> vf)\<rparr>)"
  by (simp add: x_is_def)

lemma hoare_assume: "(b \<Longrightarrow> hoare P m Q E) \<Longrightarrow> hoare (\<lambda>s. b \<and> P s) m Q E"
  by (simp add: hoare_def)

lemma hoare_set_file:
  assumes "\<And>t. P t \<Longrightarrow> Q () (t\<lparr>x_files := (x_files t)(u \<mapsto> vf)\<rparr>)"
  shows "hoare P (set_file u vf) Q E"
  unfolding set_file_def by (rule hoare_modify) (rule assms)

lemma local_mkdir_inv: "keeps (\<lambda>t. inv F D es torn t \<and> x_is fm t0 t) (local_mkdir h)"
  by (rule keepsI) (simp add: local_mkdir_def x_is_def)

lemma local_write_inv: "keeps (\<lambda>t. inv F D es torn t \<and> x_is fm t0 t) (local_write h p c)"
  by (rule keepsI) (simp add: local_write_def x_is_def)

lemma backup_path_inj:
  "placed t \<Longrightarrow> x_files t u = Some uf \<Longrightarrow> x_files t v = Some vf \<Longrightarrow>
    backup_path d uf = backup_path d vf \<Longrightarrow> u = v"
  using placedD(1) by (fastforce simp: backup_path_def)

text \<open>What an interrupted first copy may have changed in the record of the file.\<close>

definition copied :: "user_file \<Rightarrow> user_file \<Rightarrow> bool" where
  "copied uf vf \<longleftrightarrow>
     same_file uf vf \<and> u_dirty vf = u_dirty uf \<and> u_manifested vf = u_manifested uf \<and> u_work vf = u_work uf"

definition armed_file :: "string \<Rightarrow> user_file \<Rightarrow> user_file" where
  "armed_file d uf = uf\<lparr>u_bak := backup_path d uf, u_manifested := True\<rparr>"

lemma first_copy_inv:
  assumes h: "sound_trap h" and uf: "fm u = Some uf" "\<not> u_manifested uf"
    and d: "d = x_txdir t0" and new: "entry_of d uf \<notin> set es"
  shows "hoare (\<lambda>t. inv F D es [] t \<and> x_is fm t0 t) (first_copy h u uf)
    (\<lambda>_ t. inv F D (es @ [entry_of d uf]) [] t \<and> x_is (fm(u \<mapsto> armed_file d uf)) t0 t)
    (\<lambda>_ t. \<exists>es torn vf. copied uf vf \<and> inv F D es torn t \<and> x_is (fm(u \<mapsto> vf)) t0 t)"
    (is "hoare ?P _ _ (\<lambda>_. ?E)")
proof -
  let ?uf = "uf\<lparr>u_bak := backup_path d uf\<rparr>"
  let ?P' = "\<lambda>t. inv F D es [] t \<and> x_is (fm(u \<mapsto> ?uf)) t0 t"
  have weak: "?P t \<Longrightarrow> ?E t" for t
    using uf(1) by (intro exI [of _ es] exI [of _ "[]"] exI [of _ uf]) (simp add: copied_def same_file_def fun_upd_idem)
  have weak'': "inv F D es' torn t \<Longrightarrow> x_is (fm(u \<mapsto> ?uf)) t0 t \<Longrightarrow> ?E t" for es' torn t
    by (intro exI [of _ es'] exI [of _ torn] exI [of _ ?uf]) (simp add: copied_def same_file_def)
  then have weak': "?P' t \<Longrightarrow> ?E t" for t by blast
  have same: "same_file uf ?uf" "entry_of d ?uf = entry_of d uf" "backup_path d ?uf = backup_path d uf"
    "has_backup ?uf = has_backup uf"
    by (auto simp: same_file_def entry_of_def backup_path_def has_backup_def fun_eq_iff)
  have notD: "u \<notin> D" if "?P t" for t
    using invD(6) [of F D es "[]" t u uf] invD(1) [of F D es "[]" t] placedD(1) [of t u uf] that uf
    by (auto simp: x_is_def file_ok_def)
  have mark: "?P' (t\<lparr>x_files := (x_files t)(u \<mapsto> ?uf)\<rparr>)" if t: "?P t" for t
    using inv_set_file [of F D es "[]" t u uf ?uf] t uf same(1) notD [OF t] by (auto simp: x_is_def)
  have backup: "hoare ?P' (write_file h (backup_path d uf) (u_orig uf))
      (\<lambda>_ t. ?P' t \<and> has_backup uf t) (\<lambda>_. ?P')"
  proof (rule hoare_weaken [OF write_file_inv [OF h xonly_x_is]])
    fix t assume t: "inv F D es [] t" "x_is (fm(u \<mapsto> ?uf)) t0 t"
    note i = invD [OF t(1)]
    have "backup_path d uf \<notin> entry_baks en" if en: "en \<in> set es" for en
    proof -
      obtain v vf where v: "x_files t v = Some vf" "en = entry_of (x_txdir t) vf"
        by (rule entries_okE [OF i(5) en]) (rule that, assumption+)
      have dx: "x_txdir t = d" "x_files t u = Some ?uf" using t(2) d by (simp_all add: x_is_def)
      have "backup_path d uf \<noteq> backup_path d vf"
      proof
        assume "backup_path d uf = backup_path d vf"
        with same(3) have "backup_path d vf = backup_path d ?uf" by metis
        then have "v = u" by (rule backup_path_inj [OF i(1) v(1) dx(2)])
        then have "en = entry_of d uf" using v dx same(2) by simp
        with en new show False by simp
      qed
      then show ?thesis by (simp add: v(2) dx(1))
    qed
    then show "below (x_txdir t) (backup_path d uf) \<and> backup_path d uf \<noteq> x_txdir t \<and>
        backup_path d uf \<noteq> x_txdir t @ ''/backup'' \<and> backup_path d uf \<noteq> x_txdir t @ ''/manifest'' \<and>
        (\<forall>en\<in>set es. backup_path d uf \<notin> entry_baks en)"
      using t(2) d by (auto simp: x_is_def backup_not_special)
  qed (auto simp: has_backup_def x_is_def d)
  have app: "hoare (\<lambda>t. inv F D es [] t \<and> x_is (fm(u \<mapsto> ?uf)) t0 t \<and> has_backup ?uf t)
      (append_file h (d @ ''/manifest'') (manifest_line (entry_of d ?uf)))
      (\<lambda>_ t. inv F D (es @ [entry_of d ?uf]) [] t \<and> x_is (fm(u \<mapsto> ?uf)) t0 t)
      (\<lambda>_ t. (\<exists>es torn. inv F D es torn t) \<and> x_is (fm(u \<mapsto> ?uf)) t0 t)"
    by (rule append_entry_inv [OF h xonly_x_is, where u = u]) (use new same(2) d in \<open>simp_all add: x_is_def\<close>)
  have entry: "hoare (\<lambda>t. ?P' t \<and> has_backup uf t) (append_file h (d @ ''/manifest'') (manifest_line (entry_of d uf)))
      (\<lambda>_ t. inv F D (es @ [entry_of d uf]) [] t \<and> x_is (fm(u \<mapsto> ?uf)) t0 t) (\<lambda>_. ?E)"
    by (rule hoare_weaken [OF app [unfolded same]]) (use weak'' in blast)+
  have marked: "inv F D (es @ [entry_of d uf]) [] (t\<lparr>x_files := (x_files t)(u \<mapsto> armed_file d uf)\<rparr>) \<and>
      x_is (fm(u \<mapsto> armed_file d uf)) t0 (t\<lparr>x_files := (x_files t)(u \<mapsto> armed_file d uf)\<rparr>)"
    if t: "inv F D (es @ [entry_of d uf]) [] t \<and> x_is (fm(u \<mapsto> ?uf)) t0 t" for t
    using inv_set_file [of F D "es @ [entry_of d uf]" "[]" t u ?uf "armed_file d uf"] t same(2) d
    by (auto simp: x_is_def armed_file_def same_file_def)
  have nobackup: "hoare ?P' (ret ()) (\<lambda>_ t. ?P' t \<and> has_backup uf t) (\<lambda>_. ?E)" if "\<not> u_orig_exists uf"
    by (rule hoare_ret) (use that in \<open>simp add: has_backup_def\<close>)
  have mkdir: "hoare ?P (local_mkdir h) (\<lambda>_. ?P) (\<lambda>_. ?E)"
    by (rule hoare_weaken [OF local_mkdir_inv]) (assumption | erule weak)+
  have local: "hoare ?P (if u_orig_exists uf then local_write h lp (u_orig uf) else ret ()) (\<lambda>_. ?P) (\<lambda>_. ?E)" for lp
  proof (rule hoare_if)
    show "hoare ?P (local_write h lp (u_orig uf)) (\<lambda>_. ?P) (\<lambda>_. ?E)"
      by (rule hoare_weaken [OF local_write_inv]) (assumption | erule weak)+
  qed (rule hoare_ret)
  have saved: "hoare ?P' (if u_orig_exists uf
        then wrap_err g (write_file h (backup_path d uf) (u_orig uf)) else ret ())
      (\<lambda>_ t. ?P' t \<and> has_backup uf t) (\<lambda>_. ?E)" for g
  proof (rule hoare_if)
    show "hoare ?P' (wrap_err g (write_file h (backup_path d uf) (u_orig uf)))
      (\<lambda>_ t. ?P' t \<and> has_backup uf t) (\<lambda>_. ?E)"
      by (rule hoare_wrap_err, rule hoare_weaken [OF backup]) (assumption | erule weak')+
  qed (rule nobackup)
  have final: "hoare (\<lambda>t. inv F D (es @ [entry_of d uf]) [] t \<and> x_is (fm(u \<mapsto> ?uf)) t0 t)
      (set_file u (uf\<lparr>u_bak := backup_path d uf, u_manifested := True\<rparr>))
      (\<lambda>_ t. inv F D (es @ [entry_of d uf]) [] t \<and> x_is (fm(u \<mapsto> armed_file d uf)) t0 t) E" for E
    unfolding armed_file_def [symmetric] by (rule hoare_set_file, rule marked)
  have tx: "hoare ?P (gets x_txdir) (\<lambda>tx t. tx = d \<and> ?P t) (\<lambda>_. ?E)"
    by (rule hoare_gets) (simp add: x_is_def d)
  have bak: "u_bak (uf\<lparr>u_bak := x\<rparr>) = x" for x by simp
  show ?thesis
    unfolding first_copy_def Let_def
    apply (rule hoare_andThen [OF mkdir])
    apply (rule hoare_andThen [where R = "\<lambda>_. ?P"], rule hoare_gets, assumption)
    apply (rule hoare_andThen [OF local])
    apply (rule hoare_andThen [OF tx])
    apply (rule hoare_assume)
    apply (simp only: bak)
    apply (rule hoare_andThen [where R = "\<lambda>_. ?P'"], rule hoare_set_file, erule mark)
    apply (rule hoare_andThen [OF saved])
    apply (rule hoare_andThen, rule hoare_wrap_err, rule entry)
    apply (rule final)
    done
qed

section \<open>\<^verbatim>\<open>swap\<close>\<close>

lemma hoare_with_file:
  assumes "\<And>t. P t \<Longrightarrow> x_files t u = Some uf" and "hoare P (k uf) Q E"
  shows "hoare P (with_file u k) Q E"
proof -
  have "hoare P (gets (\<lambda>t. x_files t u)) (\<lambda>z t. z = Some uf \<and> P t) E"
    by (rule hoare_gets) (simp add: assms(1))
  moreover have "hoare (\<lambda>t. z = Some uf \<and> P t) (case z of None \<Rightarrow> throw NilPointer | Some x \<Rightarrow> k x) Q E" for z
    by (rule hoare_assume) (simp add: assms(2))
  ultimately show ?thesis
    unfolding with_file_def by (rule hoare_andThen)
qed

lemma hoare_ignore: "hoare P m (\<lambda>_. R) E \<Longrightarrow> (\<And>x. hoare R (k x) Q E) \<Longrightarrow> hoare P (andThen m k) Q E"
  by (rule hoare_andThen)

text \<open>A change to the record of a manifested file that leaves its identity alone.\<close>

lemma inv_mark:
  assumes "inv F D es torn t" and "x_is fm t0 t" and "fm u = Some uf" "u_manifested uf"
    and "same_file uf vf" "u_manifested vf"
  shows "inv F D es torn (t\<lparr>x_files := (x_files t)(u \<mapsto> vf)\<rparr>) \<and>
    x_is (fm(u \<mapsto> vf)) t0 (t\<lparr>x_files := (x_files t)(u \<mapsto> vf)\<rparr>)"
proof -
  have uf: "x_files t u = Some uf" using assms(2,3) by (simp add: x_is_def)
  have "entry_of (x_txdir t) uf \<in> set es"
    using invD(6) [OF assms(1) uf] assms(4) by (simp add: file_ok_def)
  then show ?thesis
    using inv_set_file [OF assms(1) uf assms(5)] assms(2,6) by simp
qed

lemma swap_inv:
  assumes h: "sound_trap h" "fresh_names h" and uf: "fm u = Some uf" "u_manifested uf" and sq: "SQ \<notin> set (u_path uf)"
  shows "hoare (\<lambda>t. inv F D es torn t \<and> x_is fm t0 t) (swap h c u)
    (\<lambda>_ t. inv F (insert u D) es torn t \<and> x_is (fm(u \<mapsto> uf\<lparr>u_dirty := True\<rparr>)) t0 t)
    (\<lambda>_ t. (inv F (insert u D) es torn t \<and> x_is (fm(u \<mapsto> uf\<lparr>u_dirty := True, u_unconfirmed := True\<rparr>)) t0 t) \<or>
      (inv F (insert u D) es torn t \<and> (no_signals h \<longrightarrow> inv F D es torn t) \<and> x_is (fm(u \<mapsto> uf\<lparr>u_dirty := False\<rparr>)) t0 t))"
    (is "hoare ?P _ (\<lambda>_. ?Q) (\<lambda>_. ?E)")
proof -
  let ?vf = "uf\<lparr>u_dirty := True\<rparr>"
  let ?fm = "fm(u \<mapsto> ?vf)"
  have mark: "inv F D es torn (t\<lparr>x_files := (x_files t)(u \<mapsto> ?vf)\<rparr>) \<and>
      x_is ?fm t0 (t\<lparr>x_files := (x_files t)(u \<mapsto> ?vf)\<rparr>)" if "?P t" for t
    using inv_mark [of F D es torn t fm t0 u uf ?vf] that uf by (simp add: same_file_def)
  have again: "inv F D' es torn (t\<lparr>x_files := (x_files t)(u \<mapsto> vf)\<rparr>) \<and>
      x_is (fm(u \<mapsto> vf)) t0 (t\<lparr>x_files := (x_files t)(u \<mapsto> vf)\<rparr>)"
    if "inv F D' es torn t" "x_is ?fm t0 t" "same_file ?vf vf" "u_manifested vf" for D' t vf
    using inv_mark [of F D' es torn t ?fm t0 u ?vf vf] that uf by simp
  let ?R = "\<lambda>err t. x_is ?fm t0 t \<and> inv F (insert u D) es torn t \<and>
      (is_exit_error err \<longrightarrow> no_signals h \<longrightarrow> inv F D es torn t)"
  have path: "u_path ?vf = u_path uf" by simp
  have sw: "hoare (\<lambda>t. inv F D es torn t \<and> x_is ?fm t0 t) (swap_file h (u_path uf) content wo)
      (\<lambda>_. ?Q) ?R" for content wo
    unfolding path [symmetric]
    by (rule hoare_weaken [OF swap_file_inv [OF h xonly_x_is, where u = u and uf = ?vf]])
      (use uf sq in \<open>auto simp: x_is_def\<close>)
  have fail: "hoare (?R err)
      (andThen (set_file u (if is_exit_error err then uf\<lparr>u_dirty := False\<rparr>
                            else uf\<lparr>u_dirty := True, u_unconfirmed := True\<rparr>)) (\<lambda>_. throw g)) (\<lambda>_. ?Q) (\<lambda>_. ?E)" for err g
  proof (rule hoare_andThen [where R = "\<lambda>_. ?E"])
    show "hoare (?R err) (set_file u (if is_exit_error err then uf\<lparr>u_dirty := False\<rparr>
                            else uf\<lparr>u_dirty := True, u_unconfirmed := True\<rparr>)) (\<lambda>_. ?E) (\<lambda>_. ?E)"
    proof (rule hoare_set_file, cases "is_exit_error err")
      fix t assume t: "?R err t" and "is_exit_error err"
      moreover have "same_file ?vf (uf\<lparr>u_dirty := False\<rparr>)" by (simp add: same_file_def)
      note again [OF _ _ this, of _ t]
      ultimately show "?E (t\<lparr>x_files := (x_files t)(u \<mapsto> if is_exit_error err then uf\<lparr>u_dirty := False\<rparr>
                            else uf\<lparr>u_dirty := True, u_unconfirmed := True\<rparr>)\<rparr>)"
        using uf(2) by simp blast
    next
      fix t assume t: "?R err t" and "\<not> is_exit_error err"
      moreover have "same_file ?vf (uf\<lparr>u_dirty := True, u_unconfirmed := True\<rparr>)" by (simp add: same_file_def)
      note again [OF _ _ this, of _ t]
      ultimately show "?E (t\<lparr>x_files := (x_files t)(u \<mapsto> if is_exit_error err then uf\<lparr>u_dirty := False\<rparr>
                            else uf\<lparr>u_dirty := True, u_unconfirmed := True\<rparr>)\<rparr>)"
        using uf(2) by simp blast
    qed
  qed (rule hoare_throw)
  have tried: "hoare (\<lambda>t. inv F D es torn t \<and> x_is ?fm t0 t) (attempt (swap_file h (u_path uf) content wo))
      (\<lambda>r t. case r of Inl err \<Rightarrow> ?R err t | Inr _ \<Rightarrow> ?Q t) (\<lambda>_. ?E)" for content wo
    by (rule hoare_attempt) (use sw in simp)
  have branch: "hoare (\<lambda>t. case r of Inl err \<Rightarrow> ?R err t | Inr _ \<Rightarrow> ?Q t)
      (case r of Inr _ \<Rightarrow> ret () | Inl err \<Rightarrow>
         andThen (set_file u (if is_exit_error err then uf\<lparr>u_dirty := False\<rparr>
                              else uf\<lparr>u_dirty := True, u_unconfirmed := True\<rparr>)) (\<lambda>_. throw (SwapFailed p err)))
      (\<lambda>_. ?Q) (\<lambda>_. ?E)" for r p
    by (cases r) (simp_all add: fail hoare_ret)
  show ?thesis
    unfolding swap_def
  proof (rule hoare_with_file [where uf = uf])
    show "x_files t u = Some uf" if "?P t" for t using that uf by (simp add: x_is_def)
    show "hoare ?P (andThen (set_file u ?vf) (\<lambda>_. andThen (gets x_rootly) (\<lambda>rootly.
        andThen (attempt (swap_file h (u_path uf) (render_file (u_work uf)) (tx_opts c rootly uf))) (\<lambda>r.
        case r of Inr _ \<Rightarrow> ret () | Inl err \<Rightarrow>
         andThen (set_file u (if is_exit_error err then uf\<lparr>u_dirty := False\<rparr>
                              else uf\<lparr>u_dirty := True, u_unconfirmed := True\<rparr>))
           (\<lambda>_. throw (SwapFailed (u_path uf) err)))))) (\<lambda>_. ?Q) (\<lambda>_. ?E)"
      apply (rule hoare_ignore [where R = "\<lambda>t. inv F D es torn t \<and> x_is ?fm t0 t"])
       apply (rule hoare_set_file, erule mark)
      apply (rule hoare_ignore [where R = "\<lambda>t. inv F D es torn t \<and> x_is ?fm t0 t"])
       apply (rule hoare_gets, assumption)
      apply (rule hoare_andThen [OF tried])
      apply (rule branch)
      done
  qed
qed

end
