(* ===== verification/Tx_Rollback.thy ===== *)
theory Tx_Rollback
  imports Tx_Ops
begin

text \<open>
  The phases that edit files, under the invariant, and the abort.  A transaction that is
  \<open>ready\<close> marks exactly the files it may have changed as dirty; after a failure it is still
  \<open>safe\<close>: every file that may have changed is dirty, and every dirty file is in the manifest.
\<close>

section \<open>Ready and safe\<close>

text \<open>What was loaded: for each user the path, and whether and with what content it existed.\<close>

type_synonym origins = "string \<rightharpoonup> string \<times> bool \<times> string"

definition origins :: "txn \<Rightarrow> origins" where
  "origins t = (\<lambda>u. map_option (\<lambda>uf. (u_path uf, u_orig_exists uf, u_orig uf)) (x_files t u))"

definition known :: "origins \<Rightarrow> txn \<Rightarrow> bool" where
  "known og t \<longleftrightarrow> distinct (x_order t) \<and> set (x_order t) = dom (x_files t) \<and> origins t = og"

definition flags :: "string set \<Rightarrow> entry list \<Rightarrow> txn \<Rightarrow> bool" where
  "flags D es t \<longleftrightarrow> (\<forall>u uf. x_files t u = Some uf \<longrightarrow>
     (u_dirty uf \<longleftrightarrow> u \<in> D) \<and> (u_manifested uf \<longleftrightarrow> entry_of (x_txdir t) uf \<in> set es))"

definition untouched :: "string set \<Rightarrow> txn \<Rightarrow> bool" where
  "untouched S t \<longleftrightarrow> (\<forall>u \<in> S. \<forall>uf. x_files t u = Some uf \<longrightarrow> \<not> u_manifested uf)"

definition ready :: "frame \<Rightarrow> origins \<Rightarrow> op list \<Rightarrow> string set \<Rightarrow> txn \<Rightarrow> bool" where
  "ready F og ops S t \<longleftrightarrow>
     known og t \<and> x_ops t = ops \<and> untouched S t \<and> (\<exists>D es. inv F D es [] t \<and> flags D es t)"

definition covers :: "string set \<Rightarrow> txn \<Rightarrow> bool" where
  "covers D t \<longleftrightarrow> (\<forall>u uf. x_files t u = Some uf \<longrightarrow>
     (u \<in> D \<longrightarrow> u_dirty uf) \<and> (u_dirty uf \<longrightarrow> u_manifested uf))"

definition safe :: "frame \<Rightarrow> origins \<Rightarrow> txn \<Rightarrow> bool" where
  "safe F og t \<longleftrightarrow> known og t \<and> (\<exists>D es torn. inv F D es torn t \<and> covers D t)"

lemma xonly_known [simp]: "xonly (known og)"
  by (rule xonlyI) (simp add: known_def origins_def)

lemma xonly_covers [simp]: "xonly (covers D)"
  by (rule xonlyI) (simp add: covers_def)

lemma xonly_flags [simp]: "xonly (flags D es)"
  by (rule xonlyI) (simp add: flags_def)

lemma xonly_untouched [simp]: "xonly (untouched S)"
  by (rule xonlyI) (simp add: untouched_def)

lemma flags_covers: "inv F D es torn t \<Longrightarrow> flags D es t \<Longrightarrow> covers D t"
  using invD(6) [of F D es torn t] placedD(1) [OF invD(1) [of F D es torn t]]
  by (fastforce simp: flags_def covers_def file_ok_def)

lemma ready_safe: "ready F og ops S t \<Longrightarrow> safe F og t"
  unfolding ready_def safe_def using flags_covers by blast

lemma ready_fewer: "ready F og ops S t \<Longrightarrow> S' \<subseteq> S \<Longrightarrow> ready F og ops S' t"
  by (auto simp: ready_def untouched_def)

lemma ready_upd:
  "sound_trap h \<Longrightarrow> ready F og ops S t \<Longrightarrow> ready F og ops S (guard_step h t)"
  "ready F og ops S t \<Longrightarrow> ready F og ops S (t\<lparr>w_tick := n\<rparr>)"
  unfolding ready_def
  using inv_guard_step [of F _ _ "[]" t h] xonly_guard [OF xonly_flags, of _ _ t h]
    xonly_guard [OF xonly_known, of og t h] xonly_guard [OF xonly_untouched, of S t h]
  by (metis guard_step_fields(3)) simp

lemma safe_upd:
  "sound_trap h \<Longrightarrow> safe F og t \<Longrightarrow> safe F og (guard_step h t)"
  "safe F og t \<Longrightarrow> safe F og (t\<lparr>w_tick := n\<rparr>)"
  unfolding safe_def
  using inv_guard_step [of F _ _ _ t h] xonly_guard [OF xonly_covers, of _ t h]
    xonly_guard [OF xonly_known, of og t h]
  by metis simp

interpretation readying: observer h "\<lambda>t. sound_trap h \<longrightarrow> ready F og ops S t" for h F og ops S
  by unfold_locales (simp_all add: ready_upd)

lemma x_is_guard [simp]: "x_is fm t0 (guard_step h t) = x_is fm t0 t"
  by (simp add: x_is_def more_fields [OF more_guard_step])

lemma x_is_close [simp]: "x_is fm t0 (snd (close_graceful h t)) = x_is fm t0 t"
  using more_fields [OF more_close [of h t]] by (simp add: x_is_def)

interpretation fixing: observer h "\<lambda>t. sound_trap h \<longrightarrow> inv F D es torn t \<and> x_is fm t0 t" for h F D es torn fm t0
  by unfold_locales (auto simp: inv_guard_step)

interpretation saving: observer h "\<lambda>t. sound_trap h \<longrightarrow> safe F og t" for h F og
  by unfold_locales (simp_all add: safe_upd)


lemma hoare_at: "(\<And>t. P t \<Longrightarrow> hoare (\<lambda>s. s = t) m Q E) \<Longrightarrow> hoare P m Q E"
  by (simp add: hoare_def)

lemma known_upd:
  assumes "known og t0" and "x_files t0 u = Some uf" and "same_file uf vf" and "x_is ((x_files t0)(u \<mapsto> vf)) t0 t"
  shows "known og t"
proof -
  have "origins t v = origins t0 v" for v
    using assms(2-4) by (cases "v = u") (simp_all add: origins_def x_is_def same_file_def)
  then have "origins t = origins t0" by blast
  then show ?thesis
    using assms(1,2,4) by (auto simp: known_def x_is_def)
qed

text \<open>After a failure at one file: whatever the invariant still says makes the transaction safe.\<close>

lemma safe_after:
  assumes "ready F og ops S t0" and "x_files t0 u = Some uf" and "inv F D es torn t"
    and "x_is ((x_files t0)(u \<mapsto> vf)) t0 t" and "same_file uf vf"
    and "\<And>v wf. v \<noteq> u \<Longrightarrow> v \<in> D \<Longrightarrow> x_files t0 v = Some wf \<Longrightarrow> u_dirty wf"
    and "u \<in> D \<Longrightarrow> u_dirty vf" and "u_dirty vf \<Longrightarrow> u_manifested vf"
  shows "safe F og t"
proof -
  have "covers D0 t0" if "inv F D0 es0 [] t0" "flags D0 es0 t0" for D0 es0
    using flags_covers [OF that] .
  then have "u_manifested wf" if "x_files t0 v = Some wf" "u_dirty wf" for v wf
    using assms(1) that unfolding ready_def covers_def by blast
  with assms(4,6-8) have "covers D t"
    by (auto simp: covers_def x_is_def)
  then show ?thesis
    using assms(1,3) known_upd [OF _ assms(2,5,4)] by (auto simp: safe_def ready_def)
qed

lemma not_there_yet:
  assumes "inv F D es torn t" and "flags D es t" and "x_files t u = Some uf" and "\<not> u_manifested uf"
  shows "entry_of (x_txdir t) uf \<notin> set es"
  using assms by (auto simp: flags_def)

lemma entry_eq:
  "placed t \<Longrightarrow> x_files t u = Some uf \<Longrightarrow> x_files t v = Some vf \<Longrightarrow>
    entry_of d uf = entry_of d vf \<Longrightarrow> u = v"
  using placedD(4) [of t u uf v vf] by (metis entry_of_simps(1))

text \<open>The file of one user is in the manifest and has not been changed.\<close>

definition backed_up :: "string \<Rightarrow> txn \<Rightarrow> bool" where
  "backed_up u t \<longleftrightarrow> (\<exists>uf. x_files t u = Some uf \<and> u_manifested uf \<and> \<not> u_dirty uf)"

lemma ensure_cas_ready:
  assumes h: "sound_trap h" and u: "u \<in> S"
  shows "hoare (ready F og ops S) (ensure_cas h u phase)
    (\<lambda>_ t. ready F og ops (S - {u}) t \<and> backed_up u t) (\<lambda>_. safe F og)"
proof (rule hoare_at)
  fix t assume t: "ready F og ops S t"
  show "hoare (\<lambda>s. s = t) (ensure_cas h u phase)
    (\<lambda>_ t. ready F og ops (S - {u}) t \<and> backed_up u t) (\<lambda>_. safe F og)"
  proof (cases "x_files t u")
    case None
    then show ?thesis
      using ready_safe [OF t] by (simp add: ensure_cas_def with_file_def hoare_def comp_defs)
  next
    case (Some uf)
    from t obtain D es where inv: "inv F D es [] t" and fl: "flags D es t" by (auto simp: ready_def)
    have new: "\<not> u_manifested uf" using t u Some by (auto simp: ready_def untouched_def)
    note entry = not_there_yet [OF inv fl Some new]
    let ?d = "x_txdir t" and ?vf = "armed_file (x_txdir t) uf"
    have copy: "hoare (\<lambda>s. inv F D es [] s \<and> x_is (x_files t) t s) (first_copy h u uf)
      (\<lambda>_ s. ready F og ops (S - {u}) s \<and> backed_up u s) (\<lambda>_. safe F og)"
    proof (rule hoare_weaken [OF first_copy_inv [OF h, where fm = "x_files t" and ?t0.0 = t, OF Some new refl entry]])
      fix s assume s: "inv F D (es @ [entry_of ?d uf]) [] s \<and> x_is ((x_files t)(u \<mapsto> ?vf)) t s"
      have same: "same_file uf ?vf" by (simp add: same_file_def armed_file_def)
      have "known og s" using t s known_upd [OF _ Some same] by (auto simp: ready_def)
      moreover have "flags D (es @ [entry_of ?d uf]) s"
        unfolding flags_def
      proof (intro allI impI)
        fix v wf assume v: "x_files s v = Some wf"
        show "(u_dirty wf \<longleftrightarrow> v \<in> D) \<and>
          (u_manifested wf \<longleftrightarrow> entry_of (x_txdir s) wf \<in> set (es @ [entry_of ?d uf]))"
        proof (cases "v = u")
          case True
          then show ?thesis
            using v s fl Some same_file_entry [OF same] by (auto simp: x_is_def flags_def armed_file_def)
        next
          case False
          then have wf: "x_files t v = Some wf" using v s by (simp add: x_is_def)
          then have "entry_of ?d wf \<noteq> entry_of ?d uf"
            using entry_eq [OF invD(1) [OF inv] wf Some] False by blast
          then show ?thesis using wf s fl by (simp add: x_is_def flags_def)
        qed
      qed
      moreover have "backed_up u s"
        using s new fl flags_covers [OF inv fl] Some by (auto simp: backed_up_def x_is_def armed_file_def covers_def)
      ultimately show "ready F og ops (S - {u}) s \<and> backed_up u s"
        using t s by (auto simp: ready_def untouched_def x_is_def)
    next
      fix s assume "\<exists>es torn vf. copied uf vf \<and> inv F D es torn s \<and> x_is ((x_files t)(u \<mapsto> vf)) t s"
      then obtain es' torn vf where s: "copied uf vf" "inv F D es' torn s" "x_is ((x_files t)(u \<mapsto> vf)) t s"
        by blast
      show "safe F og s"
        by (rule safe_after [OF t Some s(2,3)])
          (use s(1) fl flags_covers [OF inv fl] Some in \<open>auto simp: copied_def flags_def covers_def\<close>)
    qed
    then have "hoare (\<lambda>s. s = t) (first_copy h u uf)
      (\<lambda>_ s. ready F og ops (S - {u}) s \<and> backed_up u s) (\<lambda>_. safe F og)"
      by (rule hoare_weaken) (use inv in \<open>auto simp: x_is_def\<close>)
    then show ?thesis
      unfolding ensure_cas_def by (intro hoare_with_file [where uf = uf]) (use Some new in simp_all)
  qed
qed

lemma swap_ready:
  assumes h: "sound_trap h" "fresh_names h" "no_signals h" and u: "u \<notin> S"
  shows "hoare (\<lambda>t. ready F og ops S t \<and> backed_up u t) (swap h c u) (\<lambda>_. ready F og ops S) (\<lambda>_. safe F og)"
proof (rule hoare_at)
  fix t assume "ready F og ops S t \<and> backed_up u t"
  then obtain uf D es where t: "ready F og ops S t" and uf: "x_files t u = Some uf" "u_manifested uf" "\<not> u_dirty uf"
    and inv: "inv F D es [] t" and fl: "flags D es t"
    by (auto simp: ready_def backed_up_def)
  have sq: "SQ \<notin> set (u_path uf)"
    using placedD(3) [OF invD(1) [OF inv] uf(1)] by (simp add: good_place_def)
  have D: "v \<in> D \<Longrightarrow> x_files t v = Some wf \<Longrightarrow> u_dirty wf" for v wf
    using fl by (auto simp: flags_def)
  have notD: "u \<notin> D" using fl uf by (auto simp: flags_def)
  have "hoare (\<lambda>s. inv F D es [] s \<and> x_is (x_files t) t s) (swap h c u) (\<lambda>_. ready F og ops S) (\<lambda>_. safe F og)"
  proof (rule hoare_weaken [OF swap_inv [OF h(1,2), where fm = "x_files t" and ?t0.0 = t, OF uf(1,2) sq]])
    fix s assume s: "inv F (insert u D) es [] s \<and> x_is ((x_files t)(u \<mapsto> uf\<lparr>u_dirty := True\<rparr>)) t s"
    have same: "same_file uf (uf\<lparr>u_dirty := True\<rparr>)" by (simp add: same_file_def)
    have "flags (insert u D) es s"
      using fl s uf same_file_entry [OF same] by (auto simp: flags_def x_is_def)
    moreover have "known og s" using t s known_upd [OF _ uf(1) same] by (auto simp: ready_def)
    ultimately show "ready F og ops S s"
      using t s u by (auto simp: ready_def untouched_def x_is_def)
  next
    let ?a = "uf\<lparr>u_dirty := True, u_unconfirmed := True\<rparr>" and ?b = "uf\<lparr>u_dirty := False\<rparr>"
    fix s assume "inv F (insert u D) es [] s \<and> x_is ((x_files t)(u \<mapsto> ?a)) t s \<or>
      inv F (insert u D) es [] s \<and> (no_signals h \<longrightarrow> inv F D es [] s) \<and> x_is ((x_files t)(u \<mapsto> ?b)) t s"
    then consider "inv F (insert u D) es [] s" "x_is ((x_files t)(u \<mapsto> ?a)) t s"
      | "inv F D es [] s" "x_is ((x_files t)(u \<mapsto> ?b)) t s"
      using h(3) by blast
    then show "safe F og s"
    proof cases
      case 1
      show ?thesis by (rule safe_after [OF t uf(1) 1]) (use D uf(2) in \<open>auto simp: same_file_def\<close>)
    next
      case 2
      show ?thesis by (rule safe_after [OF t uf(1) 2]) (use D notD in \<open>auto simp: same_file_def\<close>)
    qed
  qed
  then show "hoare (\<lambda>s. s = t) (swap h c u) (\<lambda>_. ready F og ops S) (\<lambda>_. safe F og)"
    by (rule hoare_weaken) (use inv in \<open>auto simp: x_is_def\<close>)
qed

section \<open>The phases\<close>

lemma hoare_with_any:
  assumes "\<And>uf. hoare (\<lambda>t. P t \<and> x_files t u = Some uf) (k uf) Q E" and "\<And>t. P t \<Longrightarrow> E NilPointer t"
  shows "hoare P (with_file u k) Q E"
proof (rule hoare_at)
  fix t assume t: "P t"
  show "hoare (\<lambda>s. s = t) (with_file u k) Q E"
  proof (cases "x_files t u")
    case None
    then show ?thesis using assms(2) [OF t] by (simp add: with_file_def hoare_def comp_defs)
  next
    case (Some uf)
    show ?thesis
    proof (rule hoare_with_file)
      show "x_files s u = Some uf" if "s = t" for s using that Some by simp
      show "hoare (\<lambda>s. s = t) (k uf) Q E"
        by (rule hoare_weaken [OF assms(1)]) (use t Some in auto)
    qed
  qed
qed

lemma set_work_ready:
  "hoare (\<lambda>t. ready F og ops S t \<and> x_files t u = Some uf)
    (set_file u (uf\<lparr>u_work := w\<rparr>)) (\<lambda>_. ready F og ops S) E"
proof (rule hoare_set_file)
  fix t assume t: "ready F og ops S t \<and> x_files t u = Some uf"
  let ?vf = "uf\<lparr>u_work := w\<rparr>"
  let ?t = "t\<lparr>x_files := (x_files t)(u \<mapsto> ?vf)\<rparr>"
  from t obtain D es where inv: "inv F D es [] t" and fl: "flags D es t" by (auto simp: ready_def)
  have same: "same_file uf ?vf" by (simp add: same_file_def)
  note e = same_file_entry [OF same]
  have "inv F D es [] ?t"
    by (rule inv_set_file [OF inv _ same]) (use t fl flags_covers [OF inv fl] in \<open>auto simp: flags_def covers_def\<close>)
  moreover have "flags D es ?t" using t fl e by (auto simp: flags_def)
  moreover have "known og ?t" 
    by (rule known_upd [where u = u and uf = uf and vf = ?vf]) (use t same in \<open>auto simp: ready_def x_is_def\<close>)
  ultimately show "ready F og ops S ?t" using t by (auto simp: ready_def untouched_def)
qed

lemma set_work_backed:
  "hoare (\<lambda>t. ready F og ops S t \<and> backed_up u t \<and> x_files t u = Some uf)
    (set_file u (uf\<lparr>u_work := w\<rparr>)) (\<lambda>_ t. ready F og ops S t \<and> backed_up u t) E"
proof -
  have "hoare (\<lambda>t. backed_up u t \<and> x_files t u = Some uf) (set_file u (uf\<lparr>u_work := w\<rparr>)) (\<lambda>_. backed_up u) E"
    by (rule hoare_set_file) (auto simp: backed_up_def)
  from hoare_conj [OF set_work_ready this] show ?thesis by (rule hoare_weaken) auto
qed

text \<open>A computation that turns a ready transaction into a ready one, or fails and leaves it safe.\<close>

definition advances :: "frame \<Rightarrow> origins \<Rightarrow> op list \<Rightarrow> string set \<Rightarrow> string set \<Rightarrow> (txn, tx_error, 'a) comp \<Rightarrow> bool" where
  "advances F og ops S S' m \<longleftrightarrow> hoare (ready F og ops S) m (\<lambda>_. ready F og ops S') (\<lambda>_. safe F og)"

lemma advancesI: "hoare (ready F og ops S) m (\<lambda>_. ready F og ops S') (\<lambda>_. safe F og) \<Longrightarrow> advances F og ops S S' m"
  by (simp add: advances_def)

lemma advances_seq:
  "advances F og ops S S' m \<Longrightarrow> (\<And>x. advances F og ops S' S'' (k x)) \<Longrightarrow> advances F og ops S S'' (andThen m k)"
  unfolding advances_def by (rule hoare_andThen)

lemma advances_keeps: "keeps (ready F og ops S) m \<Longrightarrow> advances F og ops S S m"
  unfolding advances_def by (erule hoare_weaken) (auto intro: ready_safe)

lemma advances_ret: "S' \<subseteq> S \<Longrightarrow> advances F og ops S S' (ret x)"
  unfolding advances_def by (auto intro: hoare_ret ready_fewer)

lemma advances_gets:
  "(\<And>t. ready F og ops S t \<Longrightarrow> B (g t)) \<Longrightarrow> (\<And>x. B x \<Longrightarrow> advances F og ops S S' (k x)) \<Longrightarrow>
    advances F og ops S S' (andThen (gets g) k)"
  unfolding advances_def
  by (rule hoare_andThen [where R = "\<lambda>x t. B x \<and> ready F og ops S t"]) (auto intro: hoare_gets hoare_assume)

lemma health_advances: "sound_trap h \<Longrightarrow> advances F og ops S S (check_health h)"
  using readying.check_health_keeps [of h F og ops S] by (simp add: advances_keeps)

lemma add_to_advances:
  assumes h: "sound_trap h" "fresh_names h" "no_signals h" and u: "ops_by AddKey ops u \<noteq> [] \<Longrightarrow> u \<in> S"
    and S': "S' = (if ops_by AddKey ops u = [] then S else S - {u})"
  shows "advances F og ops S S' (add_to h c ops u)"
proof (cases "ops_by AddKey ops u = []")
  case True
  then show ?thesis by (simp add: add_to_def S' advances_ret)
next
  case False
  let ?W = "\<lambda>t. ready F og ops (S - {u}) t \<and> backed_up u t"
  have changed: "hoare ?W (if b then swap h c u else ret ()) (\<lambda>_. ready F og ops (S - {u})) (\<lambda>_. safe F og)" for b
    by (intro hoare_if swap_ready [OF h]) (auto intro: hoare_ret)
  have "hoare (\<lambda>t. ?W t \<and> x_files t u = Some uf)
     (let (work, changed) = add_ops (c_lib c) (ops_by AddKey ops u) (u_work uf) in
       andThen (set_file u (uf\<lparr>u_work := work\<rparr>)) (\<lambda>_. if changed then swap h c u else ret ()))
     (\<lambda>_. ready F og ops (S - {u})) (\<lambda>_. safe F og)" for uf
    unfolding Let_def
    by (cases "add_ops (c_lib c) (ops_by AddKey ops u) (u_work uf)", simp only: prod.case)
      (rule hoare_ignore [OF hoare_weaken [OF set_work_backed] changed]; simp)
  then have "hoare ?W (with_file u (\<lambda>uf.
      (let (work, changed) = add_ops (c_lib c) (ops_by AddKey ops u) (u_work uf) in
       andThen (set_file u (uf\<lparr>u_work := work\<rparr>)) (\<lambda>_. if changed then swap h c u else ret ()))))
     (\<lambda>_. ready F og ops (S - {u})) (\<lambda>_. safe F og)"
    by (rule hoare_with_any) (auto intro: ready_safe)
  with False show ?thesis
    by (auto simp: advances_def add_to_def S' Let_def intro: hoare_ignore [OF ensure_cas_ready [OF h(1) u]])
qed

lemma adds_advance:
  assumes h: "sound_trap h" "fresh_names h" "no_signals h"
  shows "distinct us \<Longrightarrow> \<forall>u \<in> set us. ops_by AddKey ops u \<noteq> [] \<longrightarrow> u \<in> S \<Longrightarrow>
    advances F og ops S (S - {u. ops_by AddKey ops u \<noteq> []}) (for_each (add_to h c ops) us)"
proof (induction us arbitrary: S)
  case (Cons u us)
  let ?S = "if ops_by AddKey ops u = [] then S else S - {u}"
  have "advances F og ops ?S (?S - {u. ops_by AddKey ops u \<noteq> []}) (for_each (add_to h c ops) us)"
    by (rule Cons.IH) (use Cons.prems in auto)
  moreover have "?S - {u. ops_by AddKey ops u \<noteq> []} = S - {u. ops_by AddKey ops u \<noteq> []}"
    by auto
  moreover have "advances F og ops S ?S (add_to h c ops u)"
    by (rule add_to_advances [OF h]) (use Cons.prems in auto)
  ultimately show ?case by (auto intro: advances_seq)
qed (auto intro: advances_ret)

lemma phase_add_advances:
  assumes h: "sound_trap h" "fresh_names h" "no_signals h"
  shows "advances F og ops UNIV (- {u. ops_by AddKey ops u \<noteq> []}) (phase_add h c)"
  unfolding phase_add_def
proof (rule advances_gets [where B = "\<lambda>x. x = ops"])
  fix x assume x: "x = ops"
  have "advances F og ops UNIV (- {u. ops_by AddKey ops u \<noteq> []})
    (andThen (gets x_order) (\<lambda>order. for_each (add_to h c ops) order))"
    using adds_advance [OF h, of _ ops UNIV]
    by (intro advances_gets [where B = distinct]) (auto simp: ready_def known_def Compl_eq_Diff_UNIV)
  then show "advances F og ops UNIV (- {u. ops_by AddKey ops u \<noteq> []})
    (if \<not> (\<exists>p \<in> set x. op_action p = AddKey) then ret () else
     andThen (check_health h) (\<lambda>_. andThen (gets x_order) (\<lambda>order. for_each (add_to h c x) order)))"
    by (auto simp: x intro: advances_ret advances_seq health_advances [OF h(1)])
qed (simp add: ready_def)

lemma phase_verify_added_advances:
  "sound_trap h \<Longrightarrow> advances F og ops S S (phase_verify_added h c)"
  using readying.phase_verify_added_keeps [of h F og ops S] by (simp add: advances_keeps)

lemma remove_from_advances:
  assumes h: "sound_trap h" "fresh_names h" "no_signals h" and u: "rops \<noteq> [] \<Longrightarrow> u \<in> S"
  shows "advances F og ops S (S - {u}) (remove_from h c u rops)"
  unfolding remove_from_def advances_def
proof (rule hoare_with_any)
  fix uf
  show "hoare (\<lambda>t. ready F og ops S t \<and> x_files t u = Some uf)
    (if rops = [] then ret [] else
     (let (ops', work, changed) = remove_ops (c_lib c) rops (u_work uf) in
      andThen (set_file u (uf\<lparr>u_work := work\<rparr>)) (\<lambda>_.
      if \<not> changed then ret ops' else
      andThen (ensure_cas h u ''remove'') (\<lambda>_. andThen (swap h c u) (\<lambda>_. ret ops')))))
    (\<lambda>_. ready F og ops (S - {u})) (\<lambda>_. safe F og)"
  proof (rule hoare_if)
    assume "rops \<noteq> []"
    obtain ops' work changed where r: "remove_ops (c_lib c) rops (u_work uf) = (ops', work, changed)"
      by (cases "remove_ops (c_lib c) rops (u_work uf)") auto
    have "hoare (ready F og ops S) (if \<not> changed then ret ops' else
        andThen (ensure_cas h u ''remove'') (\<lambda>_. andThen (swap h c u) (\<lambda>_. ret ops')))
      (\<lambda>_. ready F og ops (S - {u})) (\<lambda>_. safe F og)"
    proof (rule hoare_if)
      have "hoare (\<lambda>t. ready F og ops (S - {u}) t \<and> backed_up u t) (andThen (swap h c u) (\<lambda>_. ret ops'))
        (\<lambda>_. ready F og ops (S - {u})) (\<lambda>_. safe F og)"
        by (rule hoare_ignore [OF swap_ready [OF h]]) (auto intro: hoare_ret)
      then show "hoare (ready F og ops S)
        (andThen (ensure_cas h u ''remove'') (\<lambda>_. andThen (swap h c u) (\<lambda>_. ret ops')))
        (\<lambda>_. ready F og ops (S - {u})) (\<lambda>_. safe F og)"
        by (rule hoare_ignore [OF ensure_cas_ready [OF h(1) u [OF \<open>rops \<noteq> []\<close>]]])
    qed (auto intro: hoare_ret ready_fewer)
    then show "hoare (\<lambda>t. ready F og ops S t \<and> x_files t u = Some uf)
      (let (ops', work, changed) = remove_ops (c_lib c) rops (u_work uf) in
      andThen (set_file u (uf\<lparr>u_work := work\<rparr>)) (\<lambda>_.
      if \<not> changed then ret ops' else
      andThen (ensure_cas h u ''remove'') (\<lambda>_. andThen (swap h c u) (\<lambda>_. ret ops'))))
      (\<lambda>_. ready F og ops (S - {u})) (\<lambda>_. safe F og)"
      unfolding r Let_def prod.case by (rule hoare_ignore [OF set_work_ready])
  qed (auto intro: hoare_ret ready_fewer)
qed (rule ready_safe)

lemma removes_advance:
  assumes h: "sound_trap h" "fresh_names h" "no_signals h"
  shows "distinct us \<Longrightarrow> \<forall>u \<in> set us. rem u \<noteq> [] \<longrightarrow> u \<in> S \<Longrightarrow>
    advances F og ops S {} (remove_files h c us rem)"
proof (induction us arbitrary: S rem)
  case (Cons u us)
  show ?case
    unfolding remove_files.simps
  proof (rule advances_seq)
    show "advances F og ops S (S - {u}) (remove_from h c u (rem u))"
      by (rule remove_from_advances [OF h]) (use Cons.prems in auto)
    show "advances F og ops (S - {u}) {} (remove_files h c us (rem(u := x)))" for x
      by (rule Cons.IH) (use Cons.prems in auto)
  qed
qed (auto intro: advances_ret)

lemma safe_ops [simp]: "safe F og (t\<lparr>x_ops := y\<rparr>) = safe F og t"
  by (simp add: safe_def known_def origins_def covers_def)

lemma phase_remove_safe:
  assumes h: "sound_trap h" "fresh_names h" "no_signals h" and S: "{u. ops_by RemoveKey ops u \<noteq> []} \<subseteq> S"
  shows "hoare (ready F og ops S) (phase_remove h c) (\<lambda>_. safe F og) (\<lambda>_. safe F og)"
proof -
  let ?Q = "\<lambda>_. safe F og"
  have last: "hoare (ready F og ops {}) (modify (\<lambda>t. t\<lparr>x_ops := map (enrich_op r) (x_ops t)\<rparr>)) ?Q ?Q" for r
    by (rule hoare_modify) (simp add: ready_safe)
  have loop: "hoare (\<lambda>t. distinct us \<and> ready F og ops S t) (remove_files h c us (ops_by RemoveKey ops))
      (\<lambda>_. ready F og ops {}) ?Q" for us
    by (rule hoare_assume, rule removes_advance [OF h, unfolded advances_def]) (use S in auto)
  have order: "hoare (ready F og ops S) (gets x_order) (\<lambda>us t. distinct us \<and> ready F og ops S t) ?Q"
    by (rule hoare_gets) (simp add: ready_def known_def)
  have run: "hoare (ready F og ops S) (andThen (check_health h) (\<lambda>_. andThen (gets x_order) (\<lambda>order.
     andThen (remove_files h c order (ops_by RemoveKey ops)) (\<lambda>removals.
     modify (\<lambda>t. t\<lparr>x_ops := map (enrich_op removals) (x_ops t)\<rparr>))))) ?Q ?Q"
    by (rule hoare_ignore [OF health_advances [OF h(1), unfolded advances_def]],
        rule hoare_andThen [OF order], rule hoare_andThen [OF loop], rule last)
  have get: "hoare (ready F og ops S) (gets x_ops) (\<lambda>x t. x = ops \<and> ready F og ops S t) ?Q"
    by (rule hoare_gets) (simp add: ready_def)
  show ?thesis
    unfolding phase_remove_def
    by (rule hoare_andThen [OF get], rule hoare_assume, hypsubst, rule hoare_if)
      (auto intro: hoare_ret ready_safe run)
qed

section \<open>Verification and commit\<close>

lemma safe_keeps:
  assumes "sound_trap h"
  shows "keeps (safe F og) (phase_verify_removed h c)" "keeps (safe F og) (check_health h)"
    "keeps (safe F og) (prove_access h c)" "keeps (safe F og) (read_file h p)"
  using saving.phase_verify_removed_keeps [of h F og] saving.check_health_keeps [of h F og]
    saving.prove_access_keeps [of h F og] saving.read_file_keeps [of h F og] assms by simp_all

lemma entry_baks_shape:
  assumes "inv F D es torn t" and "en \<in> set es" and "q \<in> entry_baks en"
  shows "\<exists>uf. q = backup_path (x_txdir t) uf"
proof -
  obtain u uf where "x_files t u = Some uf" "en = entry_of (x_txdir t) uf"
    by (rule entries_okE [OF invD(5) [OF assms(1)] assms(2)]) (rule that, assumption+)
  with assms(3) show ?thesis by (auto split: if_splits)
qed

lemma marker_not_backup:
  "inv F D es torn t \<Longrightarrow> x_txdir t = d \<Longrightarrow> en \<in> set es \<Longrightarrow> d @ ''/commit'' \<notin> entry_baks en"
  using entry_baks_shape by (metis backup_not_special(3))

lemma write_marker_safe:
  assumes "sound_trap h" and q: "q = x_txdir t0 @ ''/commit''"
  shows "keeps (\<lambda>t. safe F og t \<and> x_txdir t = x_txdir t0) (write_file h q content)"
proof (rule hoare_at)
  fix t assume t: "safe F og t \<and> x_txdir t = x_txdir t0"
  then obtain D es torn where inv: "inv F D es torn t" and c: "covers D t" "known og t"
    by (auto simp: safe_def)
  let ?X = "\<lambda>s. known og s \<and> covers D s \<and> x_txdir s = x_txdir t0"
  have X: "xonly ?X" by (rule xonlyI) (simp add: known_def origins_def covers_def)
  have "keeps (\<lambda>s. inv F D es torn s \<and> ?X s) (write_file h q content)"
    by (rule hoare_weaken [OF write_file_inv [OF assms(1) X]])
      (auto simp: q dest: marker_not_backup)
  then show "hoare (\<lambda>s. s = t) (write_file h q content)
     (\<lambda>_ t. safe F og t \<and> x_txdir t = x_txdir t0) (\<lambda>_ t. safe F og t \<and> x_txdir t = x_txdir t0)"
    by (rule hoare_weaken) (use inv c t in \<open>auto simp: safe_def\<close>)
qed

lemma commit_safe:
  assumes h: "sound_trap h"
  shows "hoare (safe F og) (commit h c) (\<lambda>_ _. True) (\<lambda>_. safe F og)"
proof -
  have marker: "hoare (\<lambda>t. safe F og t \<and> x_txdir t = x_txdir t0) (wrap_err MarkerFailed (write_file h (x_txdir t0 @ ''/commit'') m))
      (\<lambda>_. safe F og) (\<lambda>_. safe F og)" for m and t0 :: txn
    by (rule hoare_wrap_err, rule hoare_weaken [OF write_marker_safe [OF h refl, of F og t0]]) auto
  have rest: "hoare (safe F og) (andThen (attempt (close_graceful h)) (\<lambda>_. andThen (attempt m) (\<lambda>_. ret ()))) (\<lambda>_ _. True) E" for m E
    by (simp add: hoare_def comp_defs split: prod.splits)
  have get: "hoare (safe F og) (gets x_txdir) (\<lambda>d t. \<exists>t0 :: txn. d = x_txdir t0 \<and> safe F og t \<and> x_txdir t = x_txdir t0) (\<lambda>_. safe F og)"
    by (rule hoare_gets) blast
  have tail: "hoare (\<lambda>t. \<exists>t0 :: txn. d = x_txdir t0 \<and> safe F og t \<and> x_txdir t = x_txdir t0)
      (andThen (wrap_err MarkerFailed (write_file h (d @ ''/commit'') m)) (\<lambda>_.
       andThen (attempt (close_graceful h)) (\<lambda>_. andThen (attempt (rm_rf h d)) (\<lambda>_. ret ()))))
      (\<lambda>_ _. True) (\<lambda>_. safe F og)" for d m
  proof (rule hoare_at)
    fix t assume "\<exists>t0 :: txn. d = x_txdir t0 \<and> safe F og t \<and> x_txdir t = x_txdir t0"
    then obtain t0 :: txn where t: "d = x_txdir t0" "safe F og t" "x_txdir t = x_txdir t0" by blast
    show "hoare (\<lambda>s. s = t) (andThen (wrap_err MarkerFailed (write_file h (d @ ''/commit'') m)) (\<lambda>_.
       andThen (attempt (close_graceful h)) (\<lambda>_. andThen (attempt (rm_rf h d)) (\<lambda>_. ret ()))))
      (\<lambda>_ _. True) (\<lambda>_. safe F og)"
      unfolding t(1) by (rule hoare_weaken [OF hoare_ignore [OF marker rest]]) (use t in auto)
  qed
  show ?thesis
    unfolding commit_def
    by (rule hoare_ignore [OF safe_keeps(2) [OF h]], rule hoare_ignore [OF safe_keeps(3) [OF h]],
        rule hoare_andThen [OF get], rule tail)
qed

text \<open>No user has both an addition and a removal.\<close>

definition disjoint_ops :: "op list \<Rightarrow> bool" where
  "disjoint_ops ops \<longleftrightarrow> (\<forall>p \<in> set ops. \<forall>q \<in> set ops.
     op_action p = AddKey \<longrightarrow> op_action q = RemoveKey \<longrightarrow> op_user p \<noteq> op_user q)"

lemma disjoint_opsD: "disjoint_ops ops \<Longrightarrow> {u. ops_by RemoveKey ops u \<noteq> []} \<subseteq> - {u. ops_by AddKey ops u \<noteq> []}"
  by (force simp: disjoint_ops_def ops_by_def filter_empty_conv)

lemma phases_safe:
  assumes h: "sound_trap h" "fresh_names h" "no_signals h" and ops: "disjoint_ops ops"
  shows "hoare (ready F og ops UNIV) (phases h c) (\<lambda>_ _. True) (\<lambda>_. safe F og)"
  unfolding phases_def
  by (rule hoare_ignore [OF phase_add_advances [OF h, unfolded advances_def]],
      rule hoare_ignore [OF phase_verify_added_advances [OF h(1), unfolded advances_def]],
      rule hoare_ignore [OF phase_remove_safe [OF h disjoint_opsD [OF ops]]],
      rule hoare_ignore [OF safe_keeps(1) [OF h(1)]], rule commit_safe [OF h(1)])

section \<open>Abort\<close>

lemma revert_file_inv:
  assumes h: "sound_trap h" "fresh_names h" and uf: "fm u = Some uf" "u_manifested uf"
  shows "hoare (\<lambda>t. inv F D es torn t \<and> x_is fm t0 t) (revert_file h c uf)
    (\<lambda>f t. (if f then inv F (insert u D) es torn t else inv F (D - {u}) es torn t) \<and> x_is fm t0 t) E"
proof (rule hoare_at)
  fix t assume t: "inv F D es torn t \<and> x_is fm t0 t"
  then have placed: "placed t" "x_files t u = Some uf" using uf invD(1) [of F D es torn t] by (auto simp: x_is_def)
  have sq: "SQ \<notin> set (u_path uf)"
    using placedD(3) [OF placed] by (simp add: good_place_def)
  let ?Q = "\<lambda>r s. (case r of Inl _ \<Rightarrow> inv F (insert u D) es torn s | Inr _ \<Rightarrow> inv F (D - {u}) es torn s) \<and> x_is fm t0 s"
  have undo: "hoare (\<lambda>s. inv F D es torn s \<and> x_is fm t0 s) (attempt (if u_orig_exists uf
      then swap_file h (u_path uf) (u_orig uf) wo else remove_path h (u_path uf))) ?Q E" for wo
  proof (rule hoare_attempt, rule hoare_if)
    assume "u_orig_exists uf"
    then show "hoare (\<lambda>s. inv F D es torn s \<and> x_is fm t0 s) (swap_file h (u_path uf) (u_orig uf) wo)
      (\<lambda>x. ?Q (Inr x)) (\<lambda>e. ?Q (Inl e))"
      by (intro hoare_weaken [OF swap_file_inv [OF h xonly_x_is _ uf(2) sq, where u = u]])
        (use uf in \<open>auto simp: x_is_def\<close>)
  next
    assume "\<not> u_orig_exists uf"
    then show "hoare (\<lambda>s. inv F D es torn s \<and> x_is fm t0 s) (remove_path h (u_path uf))
      (\<lambda>x. ?Q (Inr x)) (\<lambda>e. ?Q (Inl e))"
      by (intro hoare_weaken [OF remove_path_inv [OF h xonly_x_is _ uf(2), where u = u]])
        (use uf in \<open>auto simp: x_is_def\<close>)
  qed
  have reading: "keeps (\<lambda>s. inv F (D - {u}) es torn s \<and> x_is fm t0 s) (read_file h (u_path uf))"
    using fixing.read_file_keeps [of h F "D - {u}" es torn fm t0] h(1) by simp
  have look: "hoare (\<lambda>s. inv F (D - {u}) es torn s \<and> x_is fm t0 s) (attempt (read_file h (u_path uf)))
    (\<lambda>_ s. inv F (D - {u}) es torn s \<and> x_is fm t0 s) E"
    by (rule hoare_attempt [OF reading])
  have more: "inv F (insert u D) es torn s" if s: "inv F (D - {u}) es torn s" "x_is fm t0 s" for s
    using inv_more [OF s(1), of u] s(2) uf by (simp add: x_is_def)
  have get: "hoare (\<lambda>s. s = t) (gets x_rootly) (\<lambda>_ s. inv F D es torn s \<and> x_is fm t0 s) E"
    by (rule hoare_gets) (use t in simp)
  have verdict: "hoare (\<lambda>s. inv F (D - {u}) es torn s \<and> x_is fm t0 s)
      (case got of Inl _ \<Rightarrow> ret True
         | Inr (content, ex) \<Rightarrow> if u_orig_exists uf then ret (\<not> ex \<or> content \<noteq> u_orig uf) else ret ex)
    (\<lambda>f s. (if f then inv F (insert u D) es torn s else inv F (D - {u}) es torn s) \<and> x_is fm t0 s) E" for got
    by (auto intro!: hoare_rules split: sum.splits prod.splits simp: more)
  have branch: "hoare (?Q r) (case r of
       Inl _ \<Rightarrow> ret True
     | Inr _ \<Rightarrow> andThen (attempt (read_file h (u_path uf))) (\<lambda>got.
         case got of Inl _ \<Rightarrow> ret True
         | Inr (content, ex) \<Rightarrow>
             if u_orig_exists uf then ret (\<not> ex \<or> content \<noteq> u_orig uf) else ret ex))
    (\<lambda>f s. (if f then inv F (insert u D) es torn s else inv F (D - {u}) es torn s) \<and> x_is fm t0 s) E" for r
  proof (cases r)
    case (Inr x)
    then show ?thesis by (simp only: sum.case) (rule hoare_andThen [OF look verdict])
  qed (auto intro: hoare_ret)
  show "hoare (\<lambda>s. s = t) (revert_file h c uf)
    (\<lambda>f t. (if f then inv F (insert u D) es torn t else inv F (D - {u}) es torn t) \<and> x_is fm t0 t) E"
    unfolding revert_file_def by (rule hoare_andThen [OF get], rule hoare_andThen [OF undo], rule branch)
qed

lemma inv_dom: "inv F (D \<inter> dom (x_files t)) es torn t \<longleftrightarrow> inv F D es torn t"
proof -
  have "file_ok t (D \<inter> dom (x_files t)) es uf \<longleftrightarrow> file_ok t D es uf"
    if "placed t" "x_files t u = Some uf" for u uf
    using placedD(1) [OF that] that(2) by (auto simp: file_ok_def)
  then show ?thesis by (auto simp: inv_def)
qed

lemma revert_files_inv:
  assumes h: "sound_trap h" "fresh_names h" and man: "\<And>v vf. fm v = Some vf \<Longrightarrow> u_dirty vf \<Longrightarrow> u_manifested vf"
  shows "set us \<subseteq> dom fm \<Longrightarrow>
    hoare (\<lambda>t. \<exists>D. inv F D es torn t \<and> x_is fm t0 t \<and> (\<forall>v \<in> D. \<forall>vf. fm v = Some vf \<longrightarrow> u_dirty vf) \<and>
        (\<not> failed \<longrightarrow> D \<inter> dom fm \<subseteq> set us))
      (revert_files h c us failed)
      (\<lambda>f t. \<exists>D. inv F D es torn t \<and> x_is fm t0 t \<and> (\<forall>v \<in> D. \<forall>vf. fm v = Some vf \<longrightarrow> u_dirty vf) \<and>
        (\<not> f \<longrightarrow> D \<inter> dom fm = {})) E"
    (is "_ \<Longrightarrow> hoare (?P us failed) _ ?Q E")
proof (induction us arbitrary: failed)
  case Nil
  show ?case by (simp, rule hoare_ret) auto
next
  case (Cons u us)
  then obtain uf where uf: "fm u = Some uf" by auto
  have IH: "hoare (?P us failed) (revert_files h c us failed) ?Q E" for failed
    by (rule Cons.IH) (use Cons.prems in auto)
  show ?case
    unfolding revert_files.simps
  proof (rule hoare_with_file [where uf = uf], goal_cases)
    case (1 t)
    then show ?case using uf by (auto simp: x_is_def)
  next
    case 2
    show ?case
    proof (rule hoare_if)
      assume "\<not> u_dirty uf"
      then show "hoare (?P (u # us) failed) (revert_files h c us failed) ?Q E"
        by (intro hoare_weaken [OF IH]) (use uf in fastforce)+
    next
      assume "\<not> \<not> u_dirty uf"
      then have dirty: "u_dirty uf" by simp
      have "hoare (?P (u # us) failed) (revert_file h c uf) (\<lambda>f. ?P us (failed \<or> f)) E"
      proof (rule hoare_at)
        fix t assume "?P (u # us) failed t"
        then obtain D where D: "inv F D es torn t" "x_is fm t0 t" "\<forall>v \<in> D. \<forall>vf. fm v = Some vf \<longrightarrow> u_dirty vf"
          "\<not> failed \<longrightarrow> D \<inter> dom fm \<subseteq> set (u # us)" by blast
        show "hoare (\<lambda>s. s = t) (revert_file h c uf) (\<lambda>f. ?P us (failed \<or> f)) E"
        proof (rule hoare_weaken [OF revert_file_inv [OF h, where fm = fm and D = D and es = es and torn = torn and ?t0.0 = t0, OF uf man [OF uf dirty]]])
          fix f s assume s: "(if f then inv F (insert u D) es torn s else inv F (D - {u}) es torn s) \<and> x_is fm t0 s"
          show "?P us (failed \<or> f) s"
            by (rule exI [of _ "if f then insert u D else D - {u}"]) (use s D dirty uf in auto)
        qed (use D in auto)
      qed
      then show "hoare (?P (u # us) failed)
          (andThen (revert_file h c uf) (\<lambda>f. revert_files h c us (failed \<or> f))) ?Q E"
        by (rule hoare_andThen) (rule IH)
    qed
  qed
qed

text \<open>Every loaded file holds what it held when it was loaded.\<close>

definition all_original :: "origins \<Rightarrow> txn \<Rightarrow> bool" where
  "all_original og t \<longleftrightarrow> (\<forall>u p ex c. og u = Some (p, ex, c) \<longrightarrow> file_is (w_fs t) p ex c)"

lemma inv_original: "inv F {} es torn t \<Longrightarrow> known og t \<Longrightarrow> all_original og t"
  using invD(6) [of F "{}" es torn t] by (auto simp: all_original_def known_def origins_def file_ok_def)

lemma finish_meta_inv: "hoare P (finish h c out err) (\<lambda>r t. r_outcome r = out \<and> r_err r = err \<and>
    (\<exists>s. P s \<and> (t = s \<or> (\<exists>m. t = s\<lparr>x_meta := m\<rparr>)))) E"
  by (auto simp: finish_def finish_meta_def hoare_def comp_defs)

lemma x_meta_simps [simp]:
  "known og (t\<lparr>x_meta := m\<rparr>) = known og t" "covers D (t\<lparr>x_meta := m\<rparr>) = covers D t"
  "safe F og (t\<lparr>x_meta := m\<rparr>) = safe F og t" "all_original og (t\<lparr>x_meta := m\<rparr>) = all_original og t"
  by (simp_all add: known_def origins_def covers_def safe_def all_original_def)

lemma abort_outcome:
  assumes h: "sound_trap h" "fresh_names h"
  shows "hoare (safe F og) (abort h c err) (\<lambda>r t. r_err r = Some err \<and>
    safe F og t \<and> (r_outcome r = AbortedReverted \<and> all_original og t \<or> r_outcome r = RevertUnverified)) E"
    (is "hoare _ _ ?R _")
proof (rule hoare_at)
  fix t assume t: "safe F og t"
  then obtain D es torn where inv: "inv F D es torn t" and cov: "covers D t" and known: "known og t"
    by (auto simp: safe_def)
  let ?fm = "x_files t"
  let ?P = "\<lambda>b s. \<exists>D. inv F D es torn s \<and> x_is ?fm t s \<and> (\<forall>v \<in> D. \<forall>vf. ?fm v = Some vf \<longrightarrow> u_dirty vf) \<and>
      (b \<longrightarrow> D \<inter> dom ?fm = {})"
  let ?done = "\<lambda>s. inv F {} es torn s \<and> x_is ?fm t s"
  have know: "known og s" if "x_is ?fm t s" for s
    using that known by (simp add: known_def origins_def x_is_def)
  have good: "safe F og s" if "inv F D' es torn s" "x_is ?fm t s" "\<forall>v \<in> D'. \<forall>vf. ?fm v = Some vf \<longrightarrow> u_dirty vf" for D' s
    using that know cov unfolding safe_def by (intro conjI exI [of _ D'] exI [of _ es] exI [of _ torn])
      (auto simp: covers_def x_is_def)
  have order: "hoare (\<lambda>s. s = t) (gets x_order) (\<lambda>us s. set us \<subseteq> dom ?fm \<and> dom ?fm \<subseteq> set us \<and> s = t) E"
    by (rule hoare_gets) (use known in \<open>auto simp: known_def\<close>)
  have loop: "hoare (\<lambda>s. set us \<subseteq> dom ?fm \<and> dom ?fm \<subseteq> set us \<and> s = t) (revert_files h c us False)
      (\<lambda>f. ?P (\<not> f)) E" for us
    by (intro hoare_assume, rule hoare_weaken [OF revert_files_inv [OF h, where fm = ?fm and es = es and torn = torn and ?t0.0 = t and failed = False]])
      (use inv cov in \<open>auto simp: covers_def x_is_def\<close>)
  have failed: "hoare (?P b) (finish h c RevertUnverified (Some err)) ?R E" for b
    by (rule hoare_weaken [OF finish_meta_inv [where P = "?P b"]]) (auto intro: good)
  have clean: "?done s" if "?P True s" for s
  proof -
    from that obtain D' where D': "inv F D' es torn s" "x_is ?fm t s" "D' \<inter> dom ?fm = {}" by auto
    moreover from D'(2) have "x_files s = ?fm" by (simp add: x_is_def)
    ultimately show ?thesis using inv_dom [of F D' s es torn] by simp
  qed
  have marker: "hoare (\<lambda>s. d = x_txdir t \<and> ?done s) (attempt (write_file h (d @ ''/commit'') m)) (\<lambda>_. ?done) E" for d m
  proof (rule hoare_assume, rule hoare_attempt)
    assume d: "d = x_txdir t"
    show "hoare ?done (write_file h (d @ ''/commit'') m) (\<lambda>_. ?done) (\<lambda>_. ?done)"
      by (rule hoare_weaken [OF write_file_inv [OF h(1) xonly_x_is]])
        (auto simp: d x_is_def dest: marker_not_backup)
  qed
  have close: "hoare ?done (if g then andThen (attempt (close_graceful h)) (\<lambda>_. ret ()) else ret ()) (\<lambda>_. ?done) E" for g
  proof (rule hoare_if)
    have "keeps ?done (close_graceful h)"
      by (rule keepsI) (simp add: inv_close [OF _ h(1)])
    then show "hoare ?done (andThen (attempt (close_graceful h)) (\<lambda>_. ret ())) (\<lambda>_. ?done) E"
      by (intro hoare_ignore [where R = ?done] hoare_attempt) (auto intro: hoare_ret)
  qed (rule hoare_ret)
  have ended: "hoare ?done (finish h c AbortedReverted (Some err)) ?R E"
    by (rule hoare_weaken [OF finish_meta_inv [where P = ?done]]) (auto intro: good dest: inv_original know)
  have tail: "hoare (?P True) (andThen (gets x_txdir) (\<lambda>tx.
     andThen (attempt (write_file h (tx @ ''/commit'') (''aborted-reverted'' @ [NL]))) (\<lambda>_.
     andThen (gets x_guarded) (\<lambda>g.
     andThen (if g then andThen (attempt (close_graceful h)) (\<lambda>_. ret ()) else ret ()) (\<lambda>_.
     finish h c AbortedReverted (Some err)))))) ?R E"
  proof (rule hoare_andThen)
    show "hoare (?P True) (gets x_txdir) (\<lambda>d s. d = x_txdir t \<and> ?done s) E"
      by (rule hoare_gets) (drule clean, simp add: x_is_def)
  qed (rule hoare_ignore [OF marker], rule hoare_ignore [where R = ?done], rule hoare_gets, assumption,
      rule hoare_ignore [OF close ended])
  have branch: "hoare (?P (\<not> f)) (if f then finish h c RevertUnverified (Some err) else
     andThen (gets x_txdir) (\<lambda>tx.
     andThen (attempt (write_file h (tx @ ''/commit'') (''aborted-reverted'' @ [NL]))) (\<lambda>_.
     andThen (gets x_guarded) (\<lambda>g.
     andThen (if g then andThen (attempt (close_graceful h)) (\<lambda>_. ret ()) else ret ()) (\<lambda>_.
     finish h c AbortedReverted (Some err)))))) ?R E" for f
  proof (cases f)
    case True
    show ?thesis by (simp only: True if_True, rule failed)
  next
    case False
    show ?thesis by (simp only: False if_False not_False_eq_True, rule tail)
  qed
  show "hoare (\<lambda>s. s = t) (abort h c err) ?R E"
    unfolding abort_def by (rule hoare_andThen [OF order], rule hoare_andThen [OF loop], rule branch)
qed

end
