(* ===== verification/Tx_Load.thy ===== *)
theory Tx_Load
  imports Tx_Rollback
begin

text \<open>
  Connecting and loading.  Until the first file is edited the transaction writes nothing
  outside its own new directory, and what it records of every file is what the host has.
\<close>

section \<open>A fresh directory\<close>

definition closed :: "fs \<Rightarrow> bool" where
  "closed f \<longleftrightarrow> (\<forall>p. f p \<noteq> None \<longrightarrow> f (dir_of p) \<noteq> None)"

lemma closed_below: "closed f \<Longrightarrow> d \<noteq> [] \<Longrightarrow> f d = None \<Longrightarrow> below d q \<Longrightarrow> f q = None"
proof (induction "length q" arbitrary: q rule: less_induct)
  case less
  show ?case
  proof (cases "q = d")
    case False
    then obtain r where r: "q = d @ CHR ''/'' # r"
      using less.prems(4) by (auto simp: below_def has_prefix_iff)
    then obtain i where i: "last_index CHR ''/'' q = Some i"
      using last_index_None [of "CHR ''/''" q] by auto
    note l = last_index_Some [OF i]
    have "length d \<le> i"
    proof (rule ccontr)
      assume "\<not> length d \<le> i"
      with l r show False by simp
    qed
    then have dir: "dir_of q = take i q" "below d (take i q)"
      using less.prems(2) i l r
      by (auto simp: dir_of_def below_def has_prefix_iff take_Cons' nth_append nth_Cons' split: if_splits)
    have "f (take i q) = None"
      by (rule less.hyps) (use dir l less.prems in auto)
    with less.prems(1) dir show ?thesis unfolding closed_def by metis
  qed (use less.prems in simp)
qed

text \<open>Only what lies in \<open>d\<close> may differ.\<close>

definition outside :: "string \<Rightarrow> fs \<Rightarrow> fs \<Rightarrow> bool" where
  "outside d f g \<longleftrightarrow> (\<forall>q. \<not> below d q \<longrightarrow> g q = f q)"

lemma outside_trans: "outside d f g \<Longrightarrow> outside d g k \<Longrightarrow> outside d f k"
  by (simp add: outside_def)

lemma outside_only: "only Z f g \<Longrightarrow> (\<And>q. q \<in> Z \<Longrightarrow> below d q) \<Longrightarrow> outside d f g"
  by (auto simp: outside_def only_def)

lemma drop_spaces_id: "space_len seqs s = 0 \<Longrightarrow> drop_spaces seqs s = s"
  by (subst drop_spaces.simps) simp

lemma trim_space_path:
  assumes "fresh_ok x"
  shows "trim_space (CHR ''/'' # p @ x) = CHR ''/'' # p @ x"
proof -
  have left: "trim_left (CHR ''/'' # p @ x) = CHR ''/'' # p @ x"
    by (simp add: trim_left_def drop_spaces_id space_len_plain ascii_char_def ascii_space_def del: space_len.simps)
  obtain y c where x: "x = y @ [c]"
    using assms by (cases x rule: rev_cases) (auto simp: fresh_ok_def)
  then have c: "ascii_char c" "\<not> ascii_space c" using assms by (auto simp: fresh_ok_def)
  have ends: "c \<noteq> CHR 0x85" "c \<noteq> CHR 0xA0" "c \<noteq> CHR 0x80" "c \<noteq> CHR 0x81" "c \<noteq> CHR 0x82" "c \<noteq> CHR 0x83" "c \<noteq> CHR 0x84" "c \<noteq> CHR 0x86" "c \<noteq> CHR 0x87" "c \<noteq> CHR 0x88" "c \<noteq> CHR 0x89" "c \<noteq> CHR 0x8A" "c \<noteq> CHR 0xA8" "c \<noteq> CHR 0xA9" "c \<noteq> CHR 0xAF" "c \<noteq> CHR 0x9F"
    using c(1) by (auto simp: ascii_char_def)
  then have "wide_len (map rev wide_spaces) (c # cs) = 0" for cs
    by (simp add: wide_len_def wide_spaces_def)
  then have "space_len (map rev wide_spaces) (c # cs) = 0" for cs
    using c(2) by simp
  then show ?thesis
    by (simp add: trim_space_def left [unfolded x append_Cons] trim_right_def x drop_spaces_id del: space_len.simps)
qed

section \<open>Before the first edit\<close>

lemma no_manifest: "f (d @ ''/manifest'') = None \<Longrightarrow> restore_all e d (script_start h f x) = (Status 0, script_start h f x)"
  by (simp add: restore_all_def is_file_def node_at_no_link is_link_def)

lemma fire_no_manifest: "w_fs w (d @ ''/manifest'') = None \<Longrightarrow> fire h e d w = w\<lparr>w_guard := Gone\<rparr>"
  by (simp add: fire_def no_manifest)

text \<open>Nothing connected yet; or a directory made and nothing else, which may be known or not.\<close>

definition begun :: "fs \<Rightarrow> op list \<Rightarrow> txn \<Rightarrow> bool" where
  "begun f0 ops t \<longleftrightarrow>
     w_fs t = f0 \<and> w_guard t = NoGuard \<and> x_files t = Map.empty \<and> x_order t = [] \<and> x_ops t = ops \<and> x_txdir t = []"

definition aside :: "string \<Rightarrow> fs \<Rightarrow> txn \<Rightarrow> bool" where
  "aside p f0 t \<longleftrightarrow> (\<exists>d. has_prefix d p \<and> outside d f0 (w_fs t) \<and> (x_txdir t = [] \<or> x_txdir t = d) \<and>
     (\<forall>d'. w_guard t = Armed d' \<longrightarrow> d' = d \<and> w_fs t (d @ ''/manifest'') = None))"

definition staged :: "string \<Rightarrow> fs \<Rightarrow> op list \<Rightarrow> string \<Rightarrow> txn \<Rightarrow> bool" where
  "staged p f0 ops d t \<longleftrightarrow>
     d \<noteq> [] \<and> has_prefix d p \<and> outside d f0 (w_fs t) \<and> txdir_ok (w_fs t) d \<and>
     w_fs t (d @ ''/manifest'') = None \<and> (\<forall>d'. w_guard t = Armed d' \<longrightarrow> d' = d) \<and>
     x_files t = Map.empty \<and> x_order t = [] \<and> x_ops t = ops"

definition connected :: "string \<Rightarrow> fs \<Rightarrow> op list \<Rightarrow> txn \<Rightarrow> bool" where
  "connected p f0 ops t \<longleftrightarrow> staged p f0 ops (x_txdir t) t"

lemma staged_aside: "staged p f0 ops d t \<Longrightarrow> x_txdir t = [] \<or> x_txdir t = d \<Longrightarrow> aside p f0 t"
  by (auto simp: staged_def aside_def)

lemma guard_step_quiet:
  "w_guard t = NoGuard \<Longrightarrow> guard_step h t = t"
  "(\<forall>d'. w_guard t = Armed d' \<longrightarrow> w_fs t (d' @ ''/manifest'') = None) \<Longrightarrow>
    guard_step h t = t \<or> guard_step h t = t\<lparr>w_guard := Gone\<rparr>"
  by (auto simp: guard_step_def fire_no_manifest split: guard_state.splits guard_event.splits)

lemma close_quiet:
  "(\<forall>d'. w_guard t = Armed d' \<longrightarrow> w_fs t (d' @ ''/manifest'') = None) \<Longrightarrow>
    snd (close_graceful h t) = t\<lparr>w_tick := Suc (w_tick t)\<rparr> \<or>
    snd (close_graceful h t) = t\<lparr>w_tick := Suc (w_tick t), w_guard := Gone\<rparr>"
  by (auto simp: close_graceful_def Let_def fire_no_manifest split: guard_state.splits close_event.splits)

lemma begun_guard: "begun f0 ops t \<Longrightarrow> begun f0 ops (guard_step h t)"
  by (simp add: begun_def guard_step_quiet)

lemma aside_upd [simp]:
  "aside p f0 t \<Longrightarrow> aside p f0 (t\<lparr>w_guard := Gone\<rparr>)" "aside p f0 (t\<lparr>w_tick := n\<rparr>) = aside p f0 t"
  "aside p f0 (t\<lparr>x_rootly := b\<rparr>) = aside p f0 t" "aside p f0 (t\<lparr>x_guarded := b\<rparr>) = aside p f0 t"
  "aside p f0 (t\<lparr>x_meta := m\<rparr>) = aside p f0 t"
  by (auto simp: aside_def)

lemma aside_guard: "aside p f0 t \<Longrightarrow> aside p f0 (guard_step h t)"
proof -
  assume t: "aside p f0 t"
  then have "\<forall>d'. w_guard t = Armed d' \<longrightarrow> w_fs t (d' @ ''/manifest'') = None"
    unfolding aside_def by blast
  with t show ?thesis using guard_step_quiet(2) [of t h] by auto
qed

lemma aside_close: "aside p f0 t \<Longrightarrow> aside p f0 (snd (close_graceful h t))"
proof -
  assume t: "aside p f0 t"
  then have "\<forall>d'. w_guard t = Armed d' \<longrightarrow> w_fs t (d' @ ''/manifest'') = None"
    unfolding aside_def by blast
  with t show ?thesis using close_quiet [of t h] by auto
qed

lemma connected_guard: "connected p f0 ops t \<Longrightarrow> connected p f0 ops (guard_step h t)"
proof -
  assume t: "connected p f0 ops t"
  then have "\<forall>d'. w_guard t = Armed d' \<longrightarrow> w_fs t (d' @ ''/manifest'') = None"
    unfolding connected_def staged_def by blast
  with t show ?thesis using guard_step_quiet(2) [of t h] by (auto simp: connected_def staged_def)
qed

interpretation beginning: observer h "begun f0 ops" for h f0 ops
  by unfold_locales (rule begun_guard, assumption, simp add: begun_def)

interpretation asides: observer h "aside p f0" for h p f0
  by unfold_locales (rule aside_guard, assumption, simp add: aside_def)

interpretation connecting: observer h "connected p f0 ops" for h p f0 ops
  by unfold_locales (rule connected_guard, assumption, simp add: connected_def staged_def)

section \<open>Connecting\<close>

abbreviation tx_prefix :: "string \<Rightarrow> string \<Rightarrow> string" where
  "tx_prefix base txid \<equiv> base @ ''/sshkeytx-'' @ txid @ ''.''"

lemma below_backup: "below d (d @ ''/backup'')"
  by (simp add: below_def has_prefix_iff)

lemma has_prefix_tx_name: "has_prefix (tx_name e base txid) (tx_prefix base txid)"
  by (simp add: tx_name_def has_prefix_iff)

lemma begun_fs: "begun f0 ops t \<Longrightarrow> outside d f0 g \<Longrightarrow> has_prefix d p \<Longrightarrow> aside p f0 (t\<lparr>w_tick := n, w_fs := g\<rparr>)"
  by (auto simp: begun_def aside_def)

lemma begun_aside: "begun f0 ops t \<Longrightarrow> aside p f0 t"
  by (auto simp: begun_def aside_def outside_def has_prefix_iff)

lemma mk_txdir_staged:
  assumes f: "fresh_names h" "closed f0" and base: "base = CHR ''/'' # b"
  shows "hoare (begun f0 ops) (mk_txdir h base txid)
    (\<lambda>d t. staged (tx_prefix base txid) f0 ops d t \<and> w_guard t = NoGuard) (\<lambda>_. aside (tx_prefix base txid) f0)"
proof -
  let ?p = "tx_prefix base txid"
  have "hoare (begun f0 ops) (run h (mktxdir_cmd base txid) [])
    (\<lambda>out t. has_prefix out ''/'' \<and> trim_space out = out \<and> staged ?p f0 ops out t \<and> w_guard t = NoGuard)
    (\<lambda>_. aside ?p f0)"
    unfolding run_def
  proof (rule hoare_run_with [where P' = "begun f0 ops"])
    fix t :: txn assume "begun f0 ops t"
    then show "begun f0 ops (guard_step h t)" by (rule begun_guard)
  next
    fix t :: txn assume "begun f0 ops t"
    then show "aside ?p f0 (t\<lparr>w_tick := Suc (w_tick t)\<rparr>)" using begun_aside by simp
  next
    fix t :: txn and r f out
    let ?ft = "h_fault h (w_tick t)"
    let ?d = "tx_name (script_env h ?ft) base txid"
    assume t: "begun f0 ops t" and "script_of h (mktxdir_cmd base txid) [] (w_tick t) ?ft (w_fs t) = (r, f, out)"
    then obtain s' where e: "exec (script_env h ?ft) (mktxdir_cmd base txid) (script_start h f0 []) = (r, s')"
      and s': "f = s_fs s'" "out = s_out s'"
      by (auto simp: script_of_exec begun_def)
    have fresh: "fresh_ok (e_fresh (script_env h ?ft))" using f(1) by (simp add: fresh_names_def)
    note mk = exec_mktxdir_cmd [OF e fresh, simplified, folded s']
    have out: "outside ?d f0 f" by (rule outside_only [OF mk(1)]) (auto simp: below_backup)
    have ne: "?d \<noteq> []" by (simp add: tx_name_def)
    have man: "f (?d @ ''/manifest'') = f0 (?d @ ''/manifest'')"
      using mk(1) by (simp add: only_def)
    have trim: "trim_space ?d = ?d" "has_prefix ?d ''/''"
      using trim_space_path [OF fresh, of "b @ ''/sshkeytx-'' @ txid @ ''.''"] by (simp_all add: tx_name_def base has_prefix_iff)
    have new: "f0 ?d = None \<Longrightarrow> below ?d q \<Longrightarrow> f0 q = None" for q
      using closed_below [OF f(2) ne] by blast
    show "case answer ?ft r out of
        Inl err \<Rightarrow> aside ?p f0 (t\<lparr>w_tick := Suc (w_tick t), w_fs := f\<rparr>)
      | Inr x \<Rightarrow> has_prefix x ''/'' \<and> trim_space x = x \<and>
          staged ?p f0 ops x (t\<lparr>w_tick := Suc (w_tick t), w_fs := f\<rparr>) \<and>
          w_guard (t\<lparr>w_tick := Suc (w_tick t), w_fs := f\<rparr>) = NoGuard"
    proof (cases "answer ?ft r out")
      case (Inl err)
      then show ?thesis using begun_fs [OF t out has_prefix_tx_name] by simp
    next
      case (Inr x)
      from answer_Inr [OF this] mk(3) have x: "x = ?d" "f0 ?d = None"
        "\<exists>a. f ?d = Some (Dir a)" "\<exists>a. f (?d @ ''/backup'') = Some (Dir a)" by auto
      have "txdir_ok f ?d"
        using x mk(1) new [OF x(2)] unfolding txdir_ok_def regular_def only_def by simp
      then show ?thesis
        using Inr t x out ne man new [OF x(2)] trim has_prefix_tx_name [of "script_env h ?ft" base txid]
        by (simp add: staged_def begun_def)
    qed
  qed
  then show ?thesis
    unfolding mk_txdir_def Let_def
    by (rule hoare_andThen) (auto intro!: hoare_rules)
qed

lemma prim_write:
  assumes "prim e (write_eff False p data) id s = (r, t)" and "\<not> is_link (s_fs s) p"
  shows "only {p} (s_fs s) (s_fs t)" and "s_fs t p = s_fs s p \<or> (\<exists>a. s_fs t p = Some (Reg data a))"
  using assms
  by (auto simp: prim_def write_eff_def resolve_no_link fs_upd_def only_def split: if_splits option.splits node.splits)

lemma staged_ready_regular: "staged p f0 ops d t \<Longrightarrow> regular (w_fs t) (d @ ''/ready'')"
proof -
  have "below d (d @ ''/ready'')" by (simp add: below_def has_prefix_iff)
  then show "staged p f0 ops d t \<Longrightarrow> regular (w_fs t) (d @ ''/ready'')"
    unfolding staged_def txdir_ok_def by simp
qed

lemma staged_ready:
  assumes "staged p f0 ops d t" and "only {d @ ''/ready''} (w_fs t) g"
    and "g (d @ ''/ready'') = w_fs t (d @ ''/ready'') \<or> (\<exists>a. g (d @ ''/ready'') = Some (Reg [] a))"
  shows "staged p f0 ops d (t\<lparr>w_tick := n, w_fs := g\<rparr>)" and "staged p f0 ops d (t\<lparr>w_tick := n, w_fs := g, w_guard := Armed d\<rparr>)"
proof -
  have same: "q \<noteq> d @ ''/ready'' \<Longrightarrow> g q = w_fs t q" for q using assms(2) by (simp add: only_def)
  have "regular g (d @ ''/ready'')"
    using staged_ready_regular [OF assms(1)] assms(3) by (auto simp: regular_def)
  then have "regular g q" if "regular (w_fs t) q" for q
    using that same [of q] by (cases "q = d @ ''/ready''") (simp_all add: regular_def)
  then have "txdir_ok g d"
    using assms(1) same by (simp add: staged_def txdir_ok_def)
  moreover have "outside d (w_fs t) g"
    by (rule outside_only [OF assms(2)]) (auto simp: below_def has_prefix_iff)
  then have "outside d f0 g" using assms(1) outside_trans unfolding staged_def by blast
  ultimately show "staged p f0 ops d (t\<lparr>w_tick := n, w_fs := g\<rparr>)" "staged p f0 ops d (t\<lparr>w_tick := n, w_fs := g, w_guard := Armed d\<rparr>)"
    using assms(1) same by (simp_all add: staged_def)
qed

lemma start_guard_connected:
  "hoare (\<lambda>t. staged p f0 ops d t \<and> x_txdir t = d) (start_guard h d) (\<lambda>_. connected p f0 ops) (\<lambda>_. aside p f0)"
proof (rule hoareI)
  fix t err t' assume t: "staged p f0 ops d t \<and> x_txdir t = d" and run: "start_guard h d t = (Inl err, t')"
  let ?ft = "h_fault h (w_tick t)"
  have st: "staged p f0 ops d (t\<lparr>w_tick := n\<rparr>)" for n using t by (simp add: staged_def)
  obtain r s where s: "prim (script_env h ?ft) (write_eff False (d @ ''/ready'') []) id (script_start h (w_fs t) []) = (r, s)"
    by fastforce
  have "\<not> is_link (w_fs t) (d @ ''/ready'')"
    using staged_ready_regular [of p f0 ops d t] t by (auto simp: regular_def)
  note w = prim_write [OF s, simplified, OF this]
  show "aside p f0 t'"
  proof (cases "ft_opens ?ft")
    case True
    then have "t' = t\<lparr>w_tick := Suc (w_tick t), w_fs := s_fs s\<rparr>"
      using run s by (auto simp: start_guard_def Let_def split: if_splits)
    then show ?thesis
      using staged_aside [OF staged_ready(1) [OF conjunct1 [OF t] w]] t by simp
  next
    case False
    then have "t' = t\<lparr>w_tick := Suc (w_tick t)\<rparr>" using run by (simp add: start_guard_def Let_def)
    then show ?thesis using staged_aside [OF st] t by simp
  qed
next
  fix t x t' assume t: "staged p f0 ops d t \<and> x_txdir t = d" and run: "start_guard h d t = (Inr x, t')"
  let ?ft = "h_fault h (w_tick t)"
  obtain r s where s: "prim (script_env h ?ft) (write_eff False (d @ ''/ready'') []) id (script_start h (w_fs t) []) = (r, s)"
    by fastforce
  have "\<not> is_link (w_fs t) (d @ ''/ready'')"
    using staged_ready_regular [of p f0 ops d t] t by (auto simp: regular_def)
  note w = prim_write [OF s, simplified, OF this]
  have "t' = t\<lparr>w_tick := Suc (w_tick t), w_fs := s_fs s, w_guard := Armed d\<rparr>"
    using run s by (auto simp: start_guard_def Let_def split: if_splits)
  then show "connected p f0 ops t'"
    using staged_ready(2) [OF conjunct1 [OF t] w] t by (simp add: connected_def)
qed

lemma connected_aside: "connected p f0 ops t \<Longrightarrow> aside p f0 t"
  unfolding connected_def by (rule staged_aside) auto

lemma connect_steps_result:
  assumes f: "fresh_names h" "closed f0" and base: "c_tmp c = CHR ''/'' # b"
  defines "p \<equiv> tx_prefix (c_tmp c) (c_txid c)"
  shows "hoare (begun f0 ops) (connect_steps h c) (\<lambda>_. connected p f0 ops) (\<lambda>_. aside p f0)"
proof -
  let ?E = "\<lambda>_. aside p f0"
  let ?S = "\<lambda>d t. staged p f0 ops d t \<and> x_txdir t = d"
  have who: "hoare (begun f0 ops) (wrap_err WhoamiFailed (whoami h)) (\<lambda>_. begun f0 ops) ?E"
    by (rule hoare_wrap_err, rule hoare_weaken [OF beginning.whoami_keeps]) (assumption | erule begun_aside)+
  have rootly: "hoare (begun f0 ops) (modify (\<lambda>t. t\<lparr>x_rootly := b\<rparr>)) (\<lambda>_. begun f0 ops) ?E" for b
    by (rule hoare_modify) (simp add: begun_def)
  have mk: "hoare (begun f0 ops) (wrap_err TxDirFailed (mk_txdir h (c_tmp c) (c_txid c)))
      (\<lambda>d t. staged p f0 ops d t \<and> w_guard t = NoGuard) ?E"
    unfolding p_def by (rule hoare_wrap_err, rule mk_txdir_staged [OF f base])
  have set: "hoare (\<lambda>t. staged p f0 ops d t \<and> w_guard t = NoGuard) (modify (\<lambda>t. t\<lparr>x_txdir := d\<rparr>)) (\<lambda>_. ?S d) ?E" for d
    by (rule hoare_modify) (simp add: staged_def)
  have guard: "hoare (?S d) (wrap_err GuardFailed (start_guard h d)) (\<lambda>_. connected p f0 ops) ?E" for d
    by (rule hoare_wrap_err, rule start_guard_connected)
  have mark: "hoare (connected p f0 ops) (modify (\<lambda>t. t\<lparr>x_guarded := True\<rparr>)) (\<lambda>_. connected p f0 ops) ?E"
    by (rule hoare_modify) (simp add: connected_def staged_def)
  have health: "hoare (connected p f0 ops) (check_health h) (\<lambda>_. connected p f0 ops) ?E"
    by (rule hoare_weaken [OF connecting.check_health_keeps]) (assumption | erule connected_aside)+
  show ?thesis
    unfolding connect_steps_def
    by (rule hoare_ignore [OF who], rule hoare_ignore [OF rootly], rule hoare_andThen [OF mk],
        rule hoare_ignore [OF set], rule hoare_ignore [OF guard], rule hoare_ignore [OF mark], rule health)
qed

lemma rm_rf_aside: "hoare (\<lambda>t. aside p f0 t \<and> x_txdir t = d \<and> d \<noteq> []) (rm_rf h d) (\<lambda>_. aside p f0) (\<lambda>_. aside p f0)"
proof -
  have "hoare (\<lambda>t. aside p f0 t \<and> x_txdir t = d \<and> d \<noteq> []) (run h (rmrf_cmd d) []) (\<lambda>_. aside p f0) (\<lambda>_. aside p f0)"
    unfolding run_def
  proof (rule hoare_run_with [where P' = "\<lambda>t. aside p f0 t \<and> x_txdir t = d \<and> d \<noteq> []"])
    fix t :: txn and r f out
    assume t: "aside p f0 t \<and> x_txdir t = d \<and> d \<noteq> []"
      and "script_of h (rmrf_cmd d) [] (w_tick t) (h_fault h (w_tick t)) (w_fs t) = (r, f, out)"
    then obtain e s' where e: "exec e (rmrf_cmd d) (script_start h (w_fs t) []) = (r, s')" and f: "f = s_fs s'"
      by (auto simp: script_of_exec)
    have gone: "\<forall>q. f q = w_fs t q \<or> f q = None"
      using e by (auto simp: f rmrf_cmd_def prim_def rmrf_eff_def split: if_splits)
    obtain d' where d': "has_prefix d' p" "outside d' f0 (w_fs t)" "x_txdir t = [] \<or> x_txdir t = d'"
      "\<forall>d''. w_guard t = Armed d'' \<longrightarrow> d'' = d' \<and> w_fs t (d' @ ''/manifest'') = None"
      using t unfolding aside_def by blast
    with t have "d' = d" by auto
    moreover have "outside d (w_fs t) f"
      using exec_rmrf_cmd [OF e] by (auto simp: f outside_def only_def)
    ultimately have "outside d f0 f" using d'(2) outside_trans by blast
    moreover have "f (d @ ''/manifest'') = None" if "w_guard t = Armed d''" for d''
      using d'(4) that gone \<open>d' = d\<close> by metis
    ultimately have "aside p f0 (t\<lparr>w_tick := n, w_fs := f\<rparr>)" for n
      using d' t \<open>d' = d\<close> unfolding aside_def by (intro exI [of _ d]) simp
    then show "case answer (h_fault h (w_tick t)) r out of
        Inl err \<Rightarrow> aside p f0 (t\<lparr>w_tick := Suc (w_tick t), w_fs := f\<rparr>)
      | Inr x \<Rightarrow> aside p f0 (t\<lparr>w_tick := Suc (w_tick t), w_fs := f\<rparr>)"
      by (auto split: sum.splits)
  qed (auto intro: aside_guard)
  then show ?thesis
    unfolding rm_rf_def by (rule hoare_ignore) (rule hoare_ret)
qed

lemma cleanup_aside: "keeps (aside p f0) (connect_cleanup h)"
proof -
  have close: "hoare (aside p f0) (if g then andThen (attempt (close_graceful h)) (\<lambda>_. ret ()) else ret ())
      (\<lambda>_. aside p f0) (\<lambda>_. aside p f0)" for g
    by (intro hoare_if hoare_ignore [where R = "aside p f0"] hoare_attempt keepsI)
      (auto intro: aside_close simp: ret_def)
  have rm: "hoare (\<lambda>t. aside p f0 t \<and> x_txdir t = d)
      (if d \<noteq> [] then andThen (attempt (rm_rf h d)) (\<lambda>_. ret ()) else ret ()) (\<lambda>_. aside p f0) (\<lambda>_. aside p f0)" for d
    by (intro hoare_if hoare_ignore [where R = "aside p f0"] hoare_attempt hoare_weaken [OF rm_rf_aside])
      (auto intro: hoare_ret)
  show ?thesis
    unfolding connect_cleanup_def
    by (rule hoare_ignore [where R = "aside p f0"], rule hoare_gets, assumption, rule hoare_ignore [OF close],
        rule hoare_andThen [OF _ rm], rule hoare_gets) simp
qed

lemma connect_result:
  assumes f: "fresh_names h" "closed f0" and base: "c_tmp c = CHR ''/'' # b"
  defines "p \<equiv> tx_prefix (c_tmp c) (c_txid c)"
  shows "hoare (begun f0 ops) (connect h c) (\<lambda>_. connected p f0 ops) (\<lambda>_. aside p f0)"
proof -
  have steps: "hoare (begun f0 ops) (attempt (connect_steps h c))
      (\<lambda>r t. case r of Inl _ \<Rightarrow> aside p f0 t | Inr _ \<Rightarrow> connected p f0 ops t) E" for E
    by (rule hoare_attempt) (use connect_steps_result [OF f base, of ops] in \<open>simp add: p_def\<close>)
  have undo: "hoare (aside p f0) (andThen (connect_cleanup h) (\<lambda>_. throw err)) (\<lambda>_. connected p f0 ops) (\<lambda>_. aside p f0)" for err
    by (rule hoare_ignore [OF cleanup_aside]) (rule hoare_throw)
  show ?thesis
    unfolding connect_def
  proof (intro hoare_if hoare_andThen [OF steps])
    fix r
    show "hoare (\<lambda>t. case r of Inl _ \<Rightarrow> aside p f0 t | Inr _ \<Rightarrow> connected p f0 ops t)
        (case r of Inr _ \<Rightarrow> ret () | Inl err \<Rightarrow> andThen (connect_cleanup h) (\<lambda>_. throw err))
        (\<lambda>_. connected p f0 ops) (\<lambda>_. aside p f0)"
      by (cases r) (simp_all add: undo hoare_ret)
  qed (rule hoare_throw, erule begun_aside)
qed

section \<open>Loading\<close>

text \<open>Nothing changes on the host; the transaction's own fields are \<open>m\<close>.\<close>

definition quiet :: "fs \<Rightarrow> string \<Rightarrow> unit txn_ext \<Rightarrow> txn \<Rightarrow> bool" where
  "quiet g d m t \<longleftrightarrow> w_fs t = g \<and> world.more t = m \<and> (\<forall>d'. w_guard t = Armed d' \<longrightarrow> d' = d \<and> g (d @ ''/manifest'') = None)"

lemma quiet_guard: "quiet g d m t \<Longrightarrow> quiet g d m (guard_step h t)"
proof -
  assume t: "quiet g d m t"
  then have "\<forall>d'. w_guard t = Armed d' \<longrightarrow> w_fs t (d' @ ''/manifest'') = None"
    by (auto simp: quiet_def)
  with t show ?thesis using guard_step_quiet(2) [of t h] more_guard_step [of h t] by (auto simp: quiet_def)
qed

interpretation looking: still h "quiet g d m" g for h g d m
  by unfold_locales (rule quiet_guard, assumption, auto simp: quiet_def)

definition loaded :: "fs \<Rightarrow> string \<Rightarrow> user_file \<Rightarrow> bool" where
  "loaded g u uf \<longleftrightarrow>
     u_user uf = u \<and> \<not> is_link g (u_path uf) \<and> \<not> is_link g (dir_of (u_path uf)) \<and>
     file_is g (u_path uf) (u_orig_exists uf) (u_orig uf) \<and> \<not> u_dirty uf \<and> \<not> u_manifested uf"

text \<open>A transaction part of whose files are loaded.\<close>

definition loading :: "fs \<Rightarrow> string \<Rightarrow> op list \<Rightarrow> string list \<Rightarrow> txn \<Rightarrow> bool" where
  "loading g d ops us t \<longleftrightarrow>
     quiet g d (world.more t) t \<and> x_order t = us \<and> dom (x_files t) = set us \<and> x_ops t = ops \<and> x_txdir t = d \<and>
     (\<forall>u uf. x_files t u = Some uf \<longrightarrow> loaded g u uf)"

lemma load_file_result:
  assumes "u \<notin> set us"
  shows "hoare (loading g d ops us) (load_file h c u) (\<lambda>_. loading g d ops (us @ [u])) (\<lambda>_. loading g d ops us)"
proof (rule hoare_at)
  fix t assume t: "loading g d ops us t"
  let ?q = "quiet g d (world.more t)"
  have kept: "loading g d ops us s" if "?q s" for s
    using t that more_fields [of s t] by (auto simp: loading_def quiet_def)
  let ?E = "\<lambda>_. loading g d ops us"
  have looked: "hoare ?q (wrap_err (LookupFailed u) (lookup_user h u)) (\<lambda>_. ?q) ?E"
    by (rule hoare_wrap_err, rule hoare_weaken [OF looking.lookup_user_keeps]) (assumption | erule kept)+
  have stat: "hoare ?q (wrap_err (StatFailed q) (stat h p)) (\<lambda>i t. info_of g p i \<and> ?q t) ?E" for q p
    by (rule hoare_wrap_err, rule hoare_weaken [OF looking.stat_tells]) (auto intro: kept)
  have read: "hoare ?q (wrap_err (ReadFailed p) (read_file h p)) (\<lambda>z t. content_of g p z \<and> ?q t) ?E" for p
    by (rule hoare_wrap_err, rule hoare_weaken [OF looking.read_tells]) (auto intro: kept)
  have quit: "hoare ?q (throw err) Q ?E" for err and Q :: "unit \<Rightarrow> txn \<Rightarrow> bool"
    by (rule hoare_throw) (rule kept)
  have rootly: "hoare ?q (gets x_rootly) (\<lambda>_. ?q) ?E" by (rule hoare_gets)
  have store: "hoare ?q (modify (\<lambda>t. t\<lparr>x_files := (x_files t)(u \<mapsto> uf), x_order := x_order t @ [u]\<rparr>))
      (\<lambda>_. loading g d ops (us @ [u])) ?E" if uf: "loaded g u uf" for uf
  proof (rule hoare_modify)
    fix s assume s: "?q s"
    have "loading g d ops us s" using kept [OF s] .
    then show "loading g d ops (us @ [u]) (s\<lparr>x_files := (x_files s)(u \<mapsto> uf), x_order := x_order s @ [u]\<rparr>)"
      using uf assms by (auto simp: loading_def quiet_def)
  qed
  have "hoare ?q (load_file h c u) (\<lambda>_. loading g d ops (us @ [u])) ?E"
    unfolding load_file_def Let_def
  proof (rule hoare_ignore [OF looked], clarify)
    fix uid gid home
    let ?p = "expand_template u home (c_template c)"
    show "hoare ?q (andThen (wrap_err (StatFailed ?p) (stat h ?p)) (\<lambda>info.
     if i_symlink info then throw (TargetIsSymlink ?p) else
     andThen (wrap_err (StatFailed ?p) (stat h (dir_of ?p))) (\<lambda>dir.
     if i_symlink dir then throw (ParentIsSymlink ?p) else
     andThen (gets x_rootly) (\<lambda>rootly.
     case check_write_target (target_of rootly c u uid gid info dir) of
       Some ho \<Rightarrow> throw (HandoverRefused ?p ho)
     | None \<Rightarrow>
     andThen (wrap_err (ReadFailed ?p) (read_file h ?p)) (\<lambda>(content, ex).
     modify (\<lambda>t. t\<lparr>x_files := (x_files t)(u \<mapsto>
         \<lparr>u_user = u, u_path = ?p, u_uid = uid, u_gid = gid, u_home = home, u_info = info,
          u_dirinfo = dir, u_orig = content, u_orig_exists = ex, u_work = parse_file (c_lib c) content,
          u_dirty = False, u_manifested = False, u_unconfirmed = False, u_bak = []\<rparr>),
        x_order := x_order t @ [u]\<rparr>)))))) (\<lambda>_. loading g d ops (us @ [u])) ?E"
    proof (rule hoare_andThen [OF stat], rule hoare_assume, rule hoare_if, rule quit,
        rule hoare_andThen [OF stat], rule hoare_assume, rule hoare_if, rule quit,
        rule hoare_ignore [OF rootly], rule hoare_option)
      fix info dir z
      assume info: "info_of g ?p info" "\<not> i_symlink info" and dir: "info_of g (dir_of ?p) dir" "\<not> i_symlink dir"
      let ?uf = "\<lambda>content ex. \<lparr>u_user = u, u_path = ?p, u_uid = uid, u_gid = gid, u_home = home, u_info = info,
          u_dirinfo = dir, u_orig = content, u_orig_exists = ex, u_work = parse_file (c_lib c) content,
          u_dirty = False, u_manifested = False, u_unconfirmed = False, u_bak = []\<rparr>"
      have nl: "\<not> is_link g ?p" "\<not> is_link g (dir_of ?p)" using info dir by (simp_all add: info_of_def)
      have "loaded g u (?uf content ex)" if "content_of g ?p (content, ex)" for content ex
        using that nl by (simp add: loaded_def content_of_def node_at_no_link file_is_def split: if_splits)
      then show "hoare ?q (andThen (wrap_err (ReadFailed ?p) (read_file h ?p)) (\<lambda>(content, ex).
          modify (\<lambda>t. t\<lparr>x_files := (x_files t)(u \<mapsto> ?uf content ex), x_order := x_order t @ [u]\<rparr>)))
        (\<lambda>_. loading g d ops (us @ [u])) ?E"
        by (intro hoare_andThen [OF read] hoare_assume) (auto intro!: hoare_assume store split: prod.splits)
    qed (rule quit)
  qed
  then show "hoare (\<lambda>s. s = t) (load_file h c u) (\<lambda>_. loading g d ops (us @ [u])) ?E"
    by (rule hoare_weaken) (use t in \<open>auto simp: loading_def\<close>)
qed

end
