(* ===== verification/Tx_Safety.thy ===== *)
theory Tx_Safety
  imports Tx_Load
begin

text \<open>
  What a run of the transaction guarantees, from its start to its outcome.
\<close>

section \<open>The run, cut after loading\<close>

definition prepare :: "host \<Rightarrow> config \<Rightarrow> unit tx" where
  "prepare h c0 =
     (let c = with_defaults c0 in
      andThen (setup_local h c) (\<lambda>_. andThen (connect h c) (\<lambda>_. load_files h c)))"

definition conclude :: "host \<Rightarrow> config \<Rightarrow> result tx" where
  "conclude h c =
     (if c_dry c then andThen (release_guard_no_changes h) (\<lambda>_. finish h c DryRun None)
      else andThen (attempt (phases h c)) (\<lambda>r.
        case r of Inl err \<Rightarrow> abort h c err | Inr _ \<Rightarrow> finish h c Committed None))"

lemma run_tx_prepared:
  assumes "validate (with_defaults c) = None" and "prepare h c s = (Inr (), t1)"
  shows "run_tx h c s = conclude h (with_defaults c) t1"
  using assms
  by (auto simp: run_tx_def prepare_def conclude_def Let_def andThen_def attempt_def split: prod.splits sum.splits)

lemma with_defaults_dry [simp]: "c_dry (with_defaults c) = c_dry c" "c_ops (with_defaults c) = c_ops c"
  by (simp_all add: with_defaults_def)

lemma hoare_finish: "hoare (\<lambda>_. True) (finish h c out err) (\<lambda>r _. r_outcome r = out \<and> r_err r = err) E"
  by (simp add: finish_def finish_meta_def hoare_def comp_defs)

lemma finish_run: "finish h c out err s = (r, t) \<Longrightarrow> \<exists>res. r = Inr res \<and> r_outcome res = out \<and> r_err res = err"
  by (auto simp: finish_def finish_meta_def comp_defs)

lemma cleanup_ok: "connect_cleanup h s = (r, t) \<Longrightarrow> r = Inr ()"
  by (auto simp: connect_cleanup_def comp_defs split: prod.splits if_splits sum.splits)

lemma run_tx_unprepared:
  assumes "validate (with_defaults c) \<noteq> None \<or> prepare h c s = (Inl err, t1)" and "run_tx h c s = (r, t)"
  shows "\<exists>res. r = Inr res \<and> r_outcome res = NothingChanged \<and> r_err res \<noteq> None"
  using assms
  by (auto simp: run_tx_def prepare_def Let_def andThen_def attempt_def ret_def release_guard_no_changes_def
      split: prod.splits sum.splits option.splits dest!: finish_run dest: cleanup_ok)

lemma run_valid:
  "run_tx h c s = (Inr res, t) \<Longrightarrow> r_outcome res \<noteq> NothingChanged \<Longrightarrow> validate (with_defaults c) = None"
  using run_tx_unprepared by fastforce

lemma run_tx_failed:
  assumes "validate (with_defaults c) = None" and "prepare h c s = (Inl err, t1)" and "run_tx h c s = (r, t)"
  shows "t = t1 \<or> finish h (with_defaults c) NothingChanged (Some err) t1 = (r, t) \<or>
    andThen (connect_cleanup h) (\<lambda>_. finish h (with_defaults c) NothingChanged (Some err)) t1 = (r, t)"
  using assms
  by (auto simp: run_tx_def prepare_def Let_def andThen_def attempt_def ret_def release_guard_no_changes_def
      split: prod.splits sum.splits)

section \<open>What has been loaded\<close>

lemma setup_local_begun: "keeps (begun f0 ops) (setup_local h c)"
  by (rule keepsI) (simp add: setup_local_def local_mkdir_def begun_def comp_defs split: option.splits)

lemma load_files_result:
  "hoare (loading g d ops []) (load_files h c) (\<lambda>_. loading g d ops (user_names (c_ops c)))
    (\<lambda>_ t. \<exists>us. loading g d ops us t)"
  unfolding load_files_def
proof (rule hoare_for_each [where I = "loading g d ops"])
  fix ys x zs assume "user_names (c_ops c) = ys @ x # zs"
  moreover have "distinct (user_names (c_ops c))" by (simp add: user_names_def)
  ultimately have "x \<notin> set ys" by simp
  from load_file_result [OF this] show "hoare (loading g d ops ys) (load_file h c x) (\<lambda>_. loading g d ops (ys @ [x]))
      (\<lambda>_ t. \<exists>us. loading g d ops us t)"
    by (rule hoare_weaken) auto
qed

definition staging :: "string \<Rightarrow> fs \<Rightarrow> fs \<Rightarrow> string \<Rightarrow> bool" where
  "staging p f0 g d \<longleftrightarrow>
     d \<noteq> [] \<and> has_prefix d p \<and> outside d f0 g \<and> txdir_ok g d \<and> g (d @ ''/manifest'') = None"

lemma connected_loading:
  "connected p f0 ops t \<Longrightarrow> \<exists>g d. staging p f0 g d \<and> loading g d ops [] t"
  by (auto simp: connected_def staged_def staging_def loading_def quiet_def)

lemma loading_aside: "staging p f0 g d \<Longrightarrow> loading g d ops us t \<Longrightarrow> aside p f0 t"
  by (auto simp: staging_def loading_def quiet_def aside_def)

lemma prepare_result:
  assumes f: "fresh_names h" "closed f0" and base: "c_tmp (with_defaults c) = CHR ''/'' # b"
  defines "p \<equiv> tx_prefix (c_tmp (with_defaults c)) (c_txid c)"
  shows "hoare (begun f0 ops) (prepare h c)
    (\<lambda>_ t. \<exists>g d. staging p f0 g d \<and> loading g d ops (user_names (c_ops c)) t) (\<lambda>_. aside p f0)"
proof -
  let ?c = "with_defaults c"
  have p: "p = tx_prefix (c_tmp ?c) (c_txid ?c)" by (simp add: p_def with_defaults_def)
  have local: "hoare (begun f0 ops) (setup_local h ?c) (\<lambda>_. begun f0 ops) (\<lambda>_. aside p f0)"
    by (rule hoare_weaken [OF setup_local_begun]) (assumption | erule begun_aside)+
  have load: "hoare (connected p f0 ops) (load_files h ?c)
    (\<lambda>_ t. \<exists>g d. staging p f0 g d \<and> loading g d ops (user_names (c_ops c)) t) (\<lambda>_. aside p f0)"
  proof (rule hoare_at)
    fix t assume "connected p f0 ops t"
    then obtain g d where g: "staging p f0 g d" "loading g d ops [] t" using connected_loading by blast
    show "hoare (\<lambda>s. s = t) (load_files h ?c)
      (\<lambda>_ t. \<exists>g d. staging p f0 g d \<and> loading g d ops (user_names (c_ops c)) t) (\<lambda>_. aside p f0)"
      by (rule hoare_weaken [OF load_files_result [of g d ops]]) (use g loading_aside in auto)
  qed
  show ?thesis
    unfolding prepare_def Let_def
    by (rule hoare_ignore [OF local], rule hoare_ignore [OF connect_result [OF f base, of ops, folded p] load])
qed

lemma manifest_text_Nil [simp]: "manifest_text [] = []"
  by (simp add: manifest_text_def)

lemma loading_ready:
  assumes st: "staging p f0 g d" and l: "loading g d ops us t" and us: "distinct us"
    and f: "closed f0" and pl: "placed t"
  shows "ready (frame_of f0 t) (origins t) ops UNIV t"
proof -
  let ?F = "(frame_of f0 t)"
  have q: "w_fs t = g" "x_txdir t = d" "\<forall>d'. w_guard t = Armed d' \<longrightarrow> d' = d"
    using l by (auto simp: loading_def quiet_def)
  have each: "file_ok t {} [] uf" if uf: "x_files t u = Some uf" for u uf
  proof -
    have ld: "loaded g u uf" using l uf by (auto simp: loading_def)
    have place: "\<not> below d (u_path uf)" "\<not> below d (dir_of (u_path uf))"
      using placedD(3) [OF pl uf] q(2) by (simp_all add: good_place_def)
    have same: "g (u_path uf) = f0 (u_path uf)" "g (dir_of (u_path uf)) = f0 (dir_of (u_path uf))"
      using st place by (simp_all add: staging_def outside_def)
    have ex: "u_orig_exists uf \<Longrightarrow> g (u_path uf) \<noteq> None" using ld by (auto simp: loaded_def)
    then have "u_orig_exists uf \<Longrightarrow> g (dir_of (u_path uf)) \<noteq> None"
      using f same unfolding closed_def by metis
    with ex ld show ?thesis
      by (auto simp: file_ok_def loaded_def q file_is_regular)
  qed
  have "framed ?F t"
    using st q by (simp add: framed_def within_def staging_def outside_def)
  then have "inv ?F {} [] [] t"
    using st pl q each by (simp add: inv_def manifest_ok_def entries_ok_def staging_def old_content_def)
  moreover have "flags {} [] t" "untouched UNIV t"
    using l by (auto simp: flags_def untouched_def loading_def loaded_def)
  moreover have "known (origins t) t"
    using l us by (simp add: known_def loading_def)
  ultimately show ?thesis
    using l unfolding ready_def loading_def by blast
qed

section \<open>The list of files is complete\<close>

definition listed :: "string list \<Rightarrow> txn \<Rightarrow> bool" where
  "listed us t \<longleftrightarrow> x_order t = us \<and> set us \<subseteq> dom (x_files t)"

lemma listed_upd [simp]:
  "listed us (t\<lparr>w_tick := n\<rparr>) = listed us t" "listed us (t\<lparr>w_tick := n, w_fs := f\<rparr>) = listed us t"
  "listed us (t\<lparr>w_tick := n, w_local := l\<rparr>) = listed us t" "listed us (t\<lparr>x_ops := y\<rparr>) = listed us t"
  "listed us (guard_step h t) = listed us t" "listed us (snd (close_graceful h t)) = listed us t"
  using more_fields [OF more_close [of h t]] by (simp_all add: listed_def)

interpretation listing: observer h "listed us" for h us
  by unfold_locales simp_all

lemma run_with_listed: "keeps (listed us) (run_with h script)"
  by (rule hoare_run_with [where P' = "listed us"]) (auto split: sum.splits)

lemma set_file_listed: "keeps (listed us) (set_file u uf)"
  by (rule keepsI) (auto simp: set_file_def comp_defs listed_def)

lemmas listed_intros = keeps_andThen listing.attempt_keeps listing.wrap_keeps listing.with_file_keeps
  run_with_listed set_file_listed hoare_if hoare_ret hoare_throw hoare_gets listing.read_file_keeps
  listing.check_health_keeps

lemma writes_listed:
  "keeps (listed us) (write_file h p c)" "keeps (listed us) (append_file h p c)" "keeps (listed us) (remove_path h p)"
  "keeps (listed us) (rm_rf h p)" "keeps (listed us) (swap_file h p c wo)"
  unfolding write_file_def append_file_def remove_path_def rm_rf_def swap_file_def run_def Let_def
  by (rule keeps_andThen hoare_option hoare_if hoare_throw run_with_listed hoare_ret | assumption)+

lemma local_listed: "keeps (listed us) (local_mkdir h)" "keeps (listed us) (local_write h p c)"
  by (rule keepsI, simp add: local_mkdir_def local_write_def)+

lemma close_listed: "keeps (listed us) (close_graceful h)"
  by (rule keepsI) simp

lemma ensure_cas_listed: "keeps (listed us) (ensure_cas h u ph)"
  unfolding ensure_cas_def first_copy_def later_copy_def Let_def
  by (auto intro!: listed_intros writes_listed local_listed split: prod.splits)

lemma swap_listed: "keeps (listed us) (swap h c u)"
  unfolding swap_def
  by (auto intro!: listed_intros writes_listed split: sum.splits)

lemma phase_add_listed: "keeps (listed us) (phase_add h c)"
  unfolding phase_add_def add_to_def Let_def
  by (auto intro!: listed_intros keeps_for_each ensure_cas_listed swap_listed split: prod.splits)

lemma remove_from_listed: "keeps (listed us) (remove_from h c u ops)"
  unfolding remove_from_def Let_def
  by (auto intro!: listed_intros ensure_cas_listed swap_listed split: prod.splits)

lemma remove_files_listed: "keeps (listed us) (remove_files h c vs rem)"
  by (induction vs arbitrary: rem) (auto intro!: listed_intros remove_from_listed)

lemma phase_remove_listed: "keeps (listed us) (phase_remove h c)"
  unfolding phase_remove_def
  by (auto intro!: listed_intros remove_files_listed hoare_modify)

lemma commit_listed: "keeps (listed us) (commit h c)"
  unfolding commit_def
  by (intro listed_intros writes_listed close_listed listing.prove_access_keeps)

lemma phases_listed: "keeps (listed us) (phases h c)"
  unfolding phases_def
  by (intro keeps_andThen phase_add_listed phase_remove_listed commit_listed
      listing.phase_verify_added_keeps listing.phase_verify_removed_keeps)

lemma revert_file_ok: "hoare (listed us) (revert_file h c uf) (\<lambda>_. listed us) (\<lambda>_ _. False)"
proof -
  have wrote: "hoare (listed us) (attempt (if b then swap_file h p x wo else remove_path h p)) (\<lambda>_. listed us) (\<lambda>_ _. False)" for b p x wo
    by (rule hoare_attempt, intro hoare_if writes_listed)
  have look: "hoare (listed us) (attempt (read_file h p)) (\<lambda>_. listed us) (\<lambda>_ _. False)" for p
    by (rule hoare_attempt, rule listing.read_file_keeps)
  have judge: "hoare (listed us) (case got of Inl _ \<Rightarrow> ret True
      | Inr (content, ex) \<Rightarrow> if b then ret (\<not> ex \<or> content \<noteq> orig) else ret ex) (\<lambda>_. listed us) (\<lambda>_ _. False)" for got b orig
    by (auto intro!: hoare_if hoare_ret split: sum.splits prod.splits)
  show ?thesis
    unfolding revert_file_def
    by (rule hoare_ignore [where R = "listed us"], rule hoare_gets, assumption, rule hoare_ignore [OF wrote])
      (auto intro!: hoare_ret hoare_ignore [OF look judge] split: sum.splits)
qed

lemma revert_files_ok: "set vs \<subseteq> set us \<Longrightarrow>
    hoare (listed us) (revert_files h c vs failed) (\<lambda>_. listed us) (\<lambda>_ _. False)"
proof (induction vs arbitrary: failed)
  case (Cons v vs)
  have IH: "hoare (listed us) (revert_files h c vs failed) (\<lambda>_. listed us) (\<lambda>_ _. False)" for failed
    by (rule Cons.IH) (use Cons.prems in auto)
  show ?case
    unfolding revert_files.simps
  proof (rule hoare_at)
    fix t assume t: "listed us t"
    then obtain uf where uf: "x_files t v = Some uf" using Cons.prems by (auto simp: listed_def)
    have "hoare (listed us) (if \<not> u_dirty uf then revert_files h c vs failed
        else andThen (revert_file h c uf) (\<lambda>f. revert_files h c vs (failed \<or> f))) (\<lambda>_. listed us) (\<lambda>_ _. False)"
      by (intro hoare_if IH hoare_ignore [OF revert_file_ok])
    then have "hoare (\<lambda>s. s = t) (if \<not> u_dirty uf then revert_files h c vs failed
        else andThen (revert_file h c uf) (\<lambda>f. revert_files h c vs (failed \<or> f))) (\<lambda>_. listed us) (\<lambda>_ _. False)"
      by (rule hoare_weaken) (use t in auto)
    then show "hoare (\<lambda>s. s = t) (with_file v (\<lambda>uf. if \<not> u_dirty uf then revert_files h c vs failed
        else andThen (revert_file h c uf) (\<lambda>f. revert_files h c vs (failed \<or> f)))) (\<lambda>_. listed us) (\<lambda>_ _. False)"
      by (intro hoare_with_file [where uf = uf]) (use uf in simp_all)
  qed
qed (simp, rule hoare_ret)

lemma abort_ok: "hoare (listed us) (abort h c err)
    (\<lambda>r _. r_outcome r \<in> {AbortedReverted, RevertUnverified} \<and> r_err r = Some err) (\<lambda>_ _. False)"
proof (rule hoareI)
  fix t r t' assume t: "listed us t" and run: "abort h c err t = (Inl r, t')"
  have "fst (revert_files h c us False t) \<noteq> Inl err'" for err'
    using hoare_Inl [OF revert_files_ok [OF subset_refl], of us t h c False err'] t
    by (cases "revert_files h c us False t") auto
  then show False
    using run t by (cases "revert_files h c us False t"; cases "fst (revert_files h c us False t)")
      (auto simp: abort_def listed_def comp_defs split: prod.splits if_splits sum.splits dest!: finish_run)
next
  fix t r t' assume t: "listed us t" and run: "abort h c err t = (Inr r, t')"
  then show "r_outcome r \<in> {AbortedReverted, RevertUnverified} \<and> r_err r = Some err"
    by (auto simp: abort_def comp_defs split: prod.splits if_splits sum.splits dest!: finish_run)
qed

section \<open>Facts about the records alone\<close>

text \<open>
  A fact about the transaction's own records that loading one more file keeps: connecting and
  loading keep it whatever the host does.
\<close>

locale recorder = observer h J for h :: host and J :: "txn \<Rightarrow> bool" +
  fixes L :: sshlib
  assumes J_more: "J t \<Longrightarrow> world.more t' = world.more t \<Longrightarrow> J t'"
    and J_fields: "J (t\<lparr>x_rootly := b\<rparr>) = J t" "J (t\<lparr>x_txdir := d\<rparr>) = J t" "J (t\<lparr>x_guarded := b\<rparr>) = J t"
      "J (t\<lparr>x_localdir := d\<rparr>) = J t"
    and J_load: "J t \<Longrightarrow> u_work uf = parse_file L (u_orig uf) \<Longrightarrow> u_orig_exists uf \<or> u_orig uf = [] \<Longrightarrow>
      J (t\<lparr>x_files := (x_files t)(u \<mapsto> uf), x_order := x_order t @ [u]\<rparr>)"
begin

lemma run_with_rec: "keeps J (run_with h script)"
  by (rule hoare_run_with [where P' = J]) (auto elim: J_more J_guard split: sum.splits)

lemma start_guard_rec: "keeps J (start_guard h d)"
  by (rule keepsI, erule J_more) (simp add: start_guard_def Let_def split: prod.splits)

lemma close_rec: "keeps J (close_graceful h)"
  by (rule keepsI) (erule J_more, rule more_close)

lemma mk_txdir_rec: "keeps J (mk_txdir h b i)" "keeps J (rm_rf h d)"
  unfolding mk_txdir_def rm_rf_def run_def Let_def
  by (intro keeps_andThen run_with_rec hoare_if hoare_ret hoare_throw; assumption)+

lemma connect_rec: "keeps J (connect h c)"
  unfolding connect_def connect_steps_def connect_cleanup_def
  by (auto intro!: keeps_andThen hoare_if hoare_ret hoare_throw hoare_gets hoare_modify attempt_keeps
      wrap_keeps whoami_keeps mk_txdir_rec start_guard_rec close_rec check_health_keeps
      simp: J_fields split: sum.splits)

text \<open>A file that is not there has no content.\<close>

lemma read_absent: "hoare J (read_file h p) (\<lambda>z t. (snd z \<or> fst z = []) \<and> J t) (\<lambda>_. J)"
proof -
  have run: "keeps J (attempt (run h (read_cmd p) []))" by (intro attempt_keeps run_reads) simp
  show ?thesis
    unfolding read_file_def by (rule hoare_ignore [OF run]) (auto intro!: hoare_rules split: sum.splits)
qed

lemma load_file_rec:
  assumes "c_lib c = L"
  shows "keeps J (load_file h c u)"
proof -
  have store: "u_work uf = parse_file (c_lib c) (u_orig uf) \<Longrightarrow> u_orig_exists uf \<or> u_orig uf = [] \<Longrightarrow>
      keeps J (modify (\<lambda>t. t\<lparr>x_files := (x_files t)(u \<mapsto> uf), x_order := x_order t @ [u]\<rparr>))" for uf
    by (rule hoare_modify) (simp add: J_load assms)
  have take: "keeps J (andThen (wrap_err g (read_file h p)) (\<lambda>(content, ex). k content ex))"
    if "\<And>content ex. ex \<or> content = [] \<Longrightarrow> keeps J (k content ex)" for g p and k :: "string \<Rightarrow> bool \<Rightarrow> unit tx"
    by (rule hoare_andThen [OF hoare_wrap_err [OF read_absent]]) (auto intro!: hoare_assume that split: prod.splits)
  show ?thesis
    unfolding load_file_def Let_def
    by (auto intro!: keeps_andThen hoare_if hoare_throw hoare_gets hoare_option store wrap_keeps
        lookup_user_keeps stat_keeps take split: prod.splits)
qed

lemma setup_rec: "keeps J (setup_local h c)"
proof (rule keepsI)
  fix t assume "J t"
  then have "J (t\<lparr>w_tick := n, x_localdir := l\<rparr>)" "J (t\<lparr>w_tick := n, w_local := y\<rparr>)" for n l y
    using J_fields(4) [of l "t\<lparr>w_tick := n\<rparr>"] by (auto elim: J_more)
  then show "J (snd (setup_local h c t))"
    using \<open>J t\<close> by (auto simp: setup_local_def local_mkdir_def comp_defs J_tick J_fields elim: J_more split: option.splits)
qed

lemma prepare_rec: "c_lib c = L \<Longrightarrow> keeps J (prepare h c)"
  unfolding prepare_def Let_def load_files_def
  by (intro keeps_andThen setup_rec connect_rec keeps_for_each load_file_rec) (simp add: with_defaults_def)

end

text \<open>Every file in the list has a record.\<close>

definition filed :: "txn \<Rightarrow> bool" where
  "filed t \<longleftrightarrow> listed (x_order t) t"

lemma filed_more: "filed t \<Longrightarrow> world.more t' = world.more t \<Longrightarrow> filed t'"
  by (drule more_fields) (simp add: filed_def listed_def)

interpretation filing: recorder h filed L for h L
  by unfold_locales ((erule filed_more, simp) | auto simp: filed_def listed_def)+

lemma prepare_filed: "keeps filed (prepare h c)"
  using filing.prepare_rec by blast

text \<open>The working copy of every record is the parsed original, empty where there was no file.\<close>

definition parsed :: "sshlib \<Rightarrow> txn \<Rightarrow> bool" where
  "parsed L t \<longleftrightarrow> (\<forall>u uf. x_files t u = Some uf \<longrightarrow>
     u_work uf = parse_file L (u_orig uf) \<and> (u_orig_exists uf \<or> u_orig uf = []))"

lemma parsed_more: "parsed L t \<Longrightarrow> world.more t' = world.more t \<Longrightarrow> parsed L t'"
  by (drule more_fields) (simp add: parsed_def)

interpretation parsing: recorder h "parsed L" L for h L
  by unfold_locales ((erule parsed_more, simp) | auto simp: parsed_def)+

lemma prepare_parsed: "keeps (parsed (c_lib c)) (prepare h c)"
  using parsing.prepare_rec by blast

section \<open>The run always ends with a result\<close>

lemma conclude_ok:
  assumes "filed t" and "conclude h c t = (r, t')"
  shows "\<exists>res. r = Inr res \<and> (r_err res = None \<longleftrightarrow> r_outcome res \<in> {Committed, DryRun}) \<and>
    (c_dry c \<longrightarrow> r_outcome res = DryRun) \<and> (\<not> c_dry c \<longrightarrow> r_outcome res \<in> {Committed, AbortedReverted, RevertUnverified})"
proof (cases "c_dry c")
  case True
  then show ?thesis
    using assms(2)
    by (auto simp: conclude_def release_guard_no_changes_def comp_defs split: prod.splits sum.splits dest!: finish_run dest: cleanup_ok)
next
  case False
  obtain z s where ph: "phases h c t = (z, s)" by fastforce
  show ?thesis
  proof (cases z)
    case (Inl err)
    then have s: "listed (x_order t) s"
      using hoare_Inl [OF phases_listed _ ph [unfolded Inl], of "x_order t"] assms(1) by (simp add: filed_def)
    have "abort h c err s = (r, t')"
      using assms(2) False ph Inl by (simp add: conclude_def comp_defs)
    then show ?thesis
      using hoare_Inl [OF abort_ok s, of h c err] hoare_Inr [OF abort_ok s, of h c err] False
      by (cases r) auto
  next
    case (Inr x)
    then have "finish h c Committed None s = (r, t')"
      using assms(2) False ph by (simp add: conclude_def comp_defs)
    then show ?thesis using False by (auto dest!: finish_run)
  qed
qed

lemma start_begun [simp]: "begun (w_fs w) (c_ops c) (start_txn w c)" "filed (start_txn w c)"
  by (simp_all add: begun_def start_txn_def filed_def listed_def)

lemma run_tx_result:
  "\<exists>res t. run_tx h c (start_txn w c) = (Inr res, t) \<and>
     (r_err res = None \<longleftrightarrow> r_outcome res \<in> {Committed, DryRun}) \<and>
     r_outcome res \<in> (if c_dry c then {DryRun, NothingChanged}
        else {Committed, AbortedReverted, RevertUnverified, NothingChanged})"
proof -
  obtain r t where run: "run_tx h c (start_txn w c) = (r, t)" by fastforce
  obtain z t1 where prep: "prepare h c (start_txn w c) = (z, t1)" by fastforce
  show ?thesis
  proof (cases "validate (with_defaults c) = None \<and> (\<exists>x. z = Inr x)")
    case True
    then have prep': "prepare h c (start_txn w c) = (Inr (), t1)" using prep by auto
    have "filed t1" using hoare_Inr [OF prepare_filed _ prep'] by simp
    moreover have "conclude h (with_defaults c) t1 = (r, t)"
      using run_tx_prepared [OF conjunct1 [OF True] prep'] run by simp
    ultimately show ?thesis using conclude_ok run by fastforce
  next
    case False
    then obtain err where "validate (with_defaults c) \<noteq> None \<or> prepare h c (start_txn w c) = (Inl err, t1)"
      using prep by (cases z) auto
    from run_tx_unprepared [OF this run] run show ?thesis by auto
  qed
qed

text \<open>
  C11: whatever the host, the network and the disk do, a run ends with a result; it carries no
  error exactly when it committed or was a dry run, and a dry run never reports anything else.
\<close>

theorem run_tx_total:
  "\<exists>res t. run_tx h c (start_txn w c) = (Inr res, t) \<and>
     (r_err res = None \<longleftrightarrow> r_outcome res \<in> {Committed, DryRun}) \<and>
     r_outcome res \<in> (if c_dry c then {DryRun, NothingChanged}
        else {Committed, AbortedReverted, RevertUnverified, NothingChanged})"
  by (rule run_tx_result)

section \<open>Before the first write\<close>

definition base_dir :: "config \<Rightarrow> string" where
  "base_dir c = c_tmp (with_defaults c)"

definition absolute :: "string \<Rightarrow> bool" where
  "absolute p \<longleftrightarrow> has_prefix p ''/''"

lemma absoluteE: "absolute p \<Longrightarrow> (\<And>b. p = CHR ''/'' # b \<Longrightarrow> thesis) \<Longrightarrow> thesis"
  by (auto simp: absolute_def has_prefix_iff)

lemma finish_aside: "keeps (aside p f0) (finish h c out err)"
  by (rule keepsI) (simp add: finish_def finish_meta_def comp_defs)

lemma aside_outside: "aside p f0 t \<Longrightarrow> \<exists>d. has_prefix d p \<and> (\<forall>q. \<not> below d q \<longrightarrow> w_fs t q = f0 q)"
  by (auto simp: aside_def outside_def)

lemma release_aside: "keeps (aside p f0) (andThen (connect_cleanup h) (\<lambda>_. finish h c out err))"
  by (intro keeps_andThen cleanup_aside finish_aside)

section \<open>After a failure\<close>

text \<open>What the failure of any phase leaves.\<close>

lemma prepared_loading:
  assumes "fresh_names h" and "closed (w_fs w)" and "absolute (base_dir c)"
    and "prepare h c (start_txn w c) = (Inr (), t1)"
  obtains g d where "staging (tx_prefix (base_dir c) (c_txid c)) (w_fs w) g d"
    "loading g d (c_ops c) (user_names (c_ops c)) t1"
proof -
  obtain b where b: "c_tmp (with_defaults c) = CHR ''/'' # b"
    using absoluteE [OF assms(3)] by (auto simp: base_dir_def)
  from hoare_Inr [OF prepare_result [OF assms(1,2) b, of "c_ops c", folded base_dir_def] start_begun(1) assms(4)]
  show thesis using that by blast
qed

lemma run_aborts:
  assumes h: "sound_trap h" "fresh_names h" "no_signals h" and ops: "disjoint_ops (c_ops c)"
    and w: "closed (w_fs w)" "absolute (base_dir c)"
    and prep: "prepare h c (start_txn w c) = (Inr (), t1)" and pl: "placed t1"
    and run: "run_tx h c (start_txn w c) = (Inr res, t)"
    and failed: "r_outcome res \<in> {AbortedReverted, RevertUnverified}"
  shows "safe (frame_of (w_fs w) t1) (origins t1) t \<and>
    (r_outcome res = AbortedReverted \<and> all_original (origins t1) t \<or> r_outcome res = RevertUnverified)"
proof -
  let ?F = "(frame_of (w_fs w) t1)"
  let ?c = "with_defaults c"
  obtain g d where g: "staging (tx_prefix (base_dir c) (c_txid c)) (w_fs w) g d"
    "loading g d (c_ops c) (user_names (c_ops c)) t1"
    by (rule prepared_loading [OF h(2) w prep])
  have "distinct (user_names (c_ops c))" by (simp add: user_names_def)
  then have ready: "ready ?F (origins t1) (c_ops c) UNIV t1"
    by (rule loading_ready [OF g _ w(1) pl])
  have valid: "validate ?c = None" by (rule run_valid [OF run]) (use failed in auto)
  have con: "conclude h ?c t1 = (Inr res, t)" using run_tx_prepared [OF valid prep] run by simp
  have "filed t1" using hoare_Inr [OF prepare_filed _ prep] by simp
  from conclude_ok [OF this con] failed have dry: "\<not> c_dry ?c" by auto
  obtain z s where ph: "phases h ?c t1 = (z, s)" by fastforce
  show ?thesis
  proof (cases z)
    case (Inl err)
    have s: "safe ?F (origins t1) s"
      by (rule hoare_Inl [OF phases_safe [OF h ops] ready ph [unfolded Inl]])
    have "abort h ?c err s = (Inr res, t)"
      using con dry ph Inl by (simp add: conclude_def comp_defs)
    from hoare_Inr [OF abort_outcome [OF h(1,2)] s this] show ?thesis by blast
  next
    case (Inr x)
    then have "finish h ?c Committed None s = (Inr res, t)"
      using con dry ph by (simp add: conclude_def comp_defs)
    with failed show ?thesis by (auto dest!: finish_run)
  qed
qed

lemma original_start:
  assumes "fresh_names h" and "closed (w_fs w)" and "absolute (base_dir c)"
    and prep: "prepare h c (start_txn w c) = (Inr (), t1)" and "placed t1" and uf: "x_files t1 u = Some uf"
  shows "file_is (w_fs w) (u_path uf) (u_orig_exists uf) (u_orig uf)"
proof -
  obtain g d where g: "staging (tx_prefix (base_dir c) (c_txid c)) (w_fs w) g d"
    "loading g d (c_ops c) (user_names (c_ops c)) t1"
    by (rule prepared_loading [OF assms(1-4)])
  have "loaded g u uf" "x_txdir t1 = d" using g(2) uf by (auto simp: loading_def)
  moreover have "\<not> below d (u_path uf)"
    using placedD(3) [OF assms(5) uf] calculation(2) by (simp add: good_place_def)
  then have "g (u_path uf) = w_fs w (u_path uf)"
    using g(1) by (simp add: staging_def outside_def)
  ultimately show ?thesis by (auto simp: loaded_def file_is_def split: if_splits)
qed

text \<open>The end of the guard session brings back what is not yet reverted.\<close>

lemma manifest_text_empty: "manifest_text es = [] \<Longrightarrow> es = []"
  by (cases es; cases "hd es") (auto simp: manifest_text_def)

lemma session_restored:
  assumes inv: "inv F D es torn t" and e: "no_faults e" and live: "\<not> is_file (w_fs t) (x_txdir t @ ''/commit'')"
    and run: "sessions e (x_txdir t) (Reading, script_start h (w_fs t) x) (Ended k, v)"
  shows "inv F {} es torn (t\<lparr>w_fs := s_fs v\<rparr>)"
proof -
  note i = invD [OF inv]
  let ?d = "x_txdir t" and ?t = "t\<lparr>w_fs := s_fs v\<rparr>"
  have after: "inv F D es torn ?t"
    using session_effect [OF inv e run] inv_restored [OF inv, of "s_fs v"] inv by auto
  have "file_is (s_fs v) (u_path uf) (u_orig_exists uf) (u_orig uf)"
    if uf: "x_files t u = Some uf" "u \<in> D" for u uf
  proof -
    have ok: "file_ok t D es uf" using i(6) [OF uf(1)] .
    then have en: "entry_of ?d uf \<in> set es"
      using uf placedD(1) [OF i(1) uf(1)] by (simp add: file_ok_def)
    have "is_file (w_fs t) (?d @ ''/manifest'')"
    proof (rule ccontr)
      assume no: "\<not> is_file (w_fs t) (?d @ ''/manifest'')"
      have "below ?d (?d @ ''/manifest'')" by (simp add: below_def has_prefix_iff)
      then have "regular (w_fs t) (?d @ ''/manifest'')" using i(3) by (simp add: txdir_ok_def)
      with no have "w_fs t (?d @ ''/manifest'') = None"
        by (auto simp: regular_def is_file_def node_at_no_link)
      then have "manifest_text es = []" using i(4) by (simp add: manifest_ok_def old_content_def)
      from manifest_text_empty [OF this] en show False by simp
    qed
    then have "trap_effect t es (s_fs v)" using session_trap [OF inv e live _ run] by simp
    then have "restored_to (w_fs t) (s_fs v) (entry_of ?d uf)"
      using en by (simp add: trap_effect_def)
    moreover have "\<exists>a. w_fs t (backup_path ?d uf) = Some (Reg (u_orig uf) a)" if "u_orig_exists uf"
    proof -
      obtain w vf where w: "x_files t w = Some vf" "entry_of ?d uf = entry_of ?d vf"
        "u_orig_exists vf \<Longrightarrow> \<exists>a. w_fs t (backup_path ?d vf) = Some (Reg (u_orig vf) a)"
        by (rule entries_okE [OF i(5) en]) (rule that, assumption+)
      have "u = w" by (rule entry_eq [OF i(1) uf(1) w(1) w(2)])
      with w uf(1) that show ?thesis by simp
    qed
    ultimately show ?thesis by (rule restored_file_is)
  qed
  then have "file_ok ?t {} es uf" if "x_files t u = Some uf" for u uf
    using invD(6) [OF after, of u uf] that placedD(1) [OF i(1) that] by (auto simp: file_ok_def)
  then show ?thesis using after by (simp add: inv_def)
qed

lemma fire_restores:
  assumes inv: "inv F D es torn t" and e: "no_faults e" and armed: "w_guard t = Armed d"
    and live: "\<not> is_file (w_fs t) (d @ ''/commit'')"
  shows "inv F {} es torn (fire h e d t)"
proof -
  have d: "d = x_txdir t" using invD(2) [OF inv armed] .
  from inv_gone [OF session_restored [OF inv e live [unfolded d] session_closes [OF e], of h "[]"]]
  show ?thesis by (simp add: fire_def d)
qed

end
