(* ===== verification/Toy_Host.thy ===== *)
theory Toy_Host
  imports Tx_Safety
begin

text \<open>
  A concrete host, world and request on which the witnesses of the development evaluate the
  program.
\<close>

text \<open>
  User \<^verbatim>\<open>al\<close> of host \<^verbatim>\<open>s\<close> logs in as himself to add a key to a file that does not exist.  The
  lines \<^verbatim>\<open>k0\<close> and \<^verbatim>\<open>k1\<close> are keys.
\<close>

definition toy_lib :: sshlib where
  "toy_lib =
     \<lparr>parse_authkey = (\<lambda>l. if l = ''k0'' \<or> l = ''k1'' then Some (PubKey ''k'' (tl l), [], []) else None),
      marshal_authkey = (\<lambda>k. filter (\<lambda>x. x \<noteq> NL) (key_type k @ key_blob k) @ [NL]), fingerprint_blob = id\<rparr>"

lemma toy_lib_ok: "sshlib_ok toy_lib"
proof -
  have marshal: "\<exists>w. marshal_authkey toy_lib k = w @ [NL] \<and> NL \<notin> set w" for k
    by (simp add: toy_lib_def)
  have "NL \<notin> set (key_line toy_lib k c os) \<and> parse_authkey toy_lib (key_line toy_lib k c os) = Some (k, c, os) \<and>
      trim_space s \<noteq> [] \<and> \<not> has_prefix (trim_space s) ''#''" if s: "parse_authkey toy_lib s = Some (k, c, os)" for s k c os
  proof -
    have "s = ''k0'' \<or> s = ''k1''" "k = PubKey ''k'' (tl s)" "c = []" "os = []"
      using s by (auto simp: toy_lib_def split: if_splits)
    moreover have "NL \<notin> set (key_line toy_lib (PubKey ''k'' ''0'') [] [])" "NL \<notin> set (key_line toy_lib (PubKey ''k'' ''1'') [] [])"
      "parse_authkey toy_lib (key_line toy_lib (PubKey ''k'' ''0'') [] []) = Some (PubKey ''k'' ''0'', [], [])"
      "parse_authkey toy_lib (key_line toy_lib (PubKey ''k'' ''1'') [] []) = Some (PubKey ''k'' ''1'', [], [])"
      "trim_space ''k0'' \<noteq> []" "trim_space ''k1'' \<noteq> []"
      "\<not> has_prefix (trim_space ''k0'') ''#''" "\<not> has_prefix (trim_space ''k1'') ''#''" by code_simp+
    ultimately show ?thesis by auto
  qed
  with marshal show ?thesis unfolding sshlib_ok_def by (metis prod_cases3)
qed

definition calm_env :: shenv where
  "calm_env =
     \<lparr>e_users = Map.empty, e_gnu = True, e_fresh = ''AAAAAAAA'', e_fails = (\<lambda>n. False), e_cut = None,
      e_part = None, e_late = False\<rparr>"

definition calm_fault :: fault where
  "calm_fault =
     \<lparr>ft_opens = True, ft_answers = True, ft_signal = None, ft_fails = (\<lambda>_. False), ft_cut = None,
      ft_part = None, ft_late = False, ft_fresh = ''AAAAAAAA''\<rparr>"

text \<open>A host that never fails and accepts every key; \<open>lost\<close> says when the connection is found dead.\<close>

definition calm_host :: "(nat \<Rightarrow> bool) \<Rightarrow> (nat \<Rightarrow> bool) \<Rightarrow> host" where
  "calm_host lost mute =
     \<lparr>h_users = (\<lambda>u. if u = ''al'' then Some (''7'', ''7'', ''/h'') else None), h_gnu = True, h_who = (''7'', ''7''),
      h_fault = (\<lambda>n. calm_fault\<lparr>ft_answers := \<not> mute n\<rparr>), h_guard = (\<lambda>n. Stays), h_close = (\<lambda>n. Exits 0 calm_env),
      h_noticed = (\<lambda>n. True), h_watchdog = lost, h_shell = (\<lambda>n txt stdin f. (Status 0, f)), h_login = True,
      h_query = (\<lambda>n f t k. \<lparr>d_asked = True, d_err = None\<rparr>), h_auth = (\<lambda>n f t k. \<lparr>d_asked = True, d_err = None\<rparr>),
      h_disk = (\<lambda>n. False), h_home = None, h_xdg = []\<rparr>"

definition calm_world :: world where
  "calm_world =
     (let a = \<lparr>a_uid = ''7'', a_gid = ''7'', a_mode = ''755''\<rparr> in
      \<lparr>w_fs = [''/'' \<mapsto> Dir a, ''/t'' \<mapsto> Dir a, ''/h'' \<mapsto> Dir a], w_tick = 0, w_guard = NoGuard, w_local = Map.empty\<rparr>)"

definition add_config :: "bool \<Rightarrow> config" where
  "add_config dry =
     \<lparr>c_target = \<lparr>tg_user = ''al'', tg_host = ''s'', tg_port = ''22''\<rparr>,
      c_ops = [\<lparr>op_user = ''al'', op_action = AddKey, op_spec = ''k1'', op_matcher = by_key (PubKey ''k'' ''1''),
                op_key = Some (PubKey ''k'' ''1''), op_comment = [], op_options = []\<rparr>],
      c_template = ''%h/k'', c_signers = [], c_tmp = ''/t'', c_backup_root = ''/b'', c_dry = dry, c_txid = ''1'',
      c_lib = toy_lib, c_sha = id\<rparr>"

abbreviation add_start :: "bool \<Rightarrow> txn" where
  "add_start dry \<equiv> start_txn calm_world (add_config dry)"

lemma calm_host_ok:
  "sound_trap (calm_host lost mute)" "fresh_names (calm_host lost mute)" "no_signals (calm_host lost mute)"
proof -
  have "fresh_ok ''AAAAAAAA''" by code_simp
  then show "sound_trap (calm_host lost mute)" "fresh_names (calm_host lost mute)" "no_signals (calm_host lost mute)"
    by (simp_all add: sound_trap_def fresh_names_def no_signals_def calm_host_def calm_fault_def calm_env_def no_faults_def)
qed

lemma calm_world_closed: "closed (w_fs calm_world)"
  by (auto simp: closed_def calm_world_def Let_def dir_of_def)

lemma add_config_ok: "disjoint_ops (c_ops (add_config dry))" "absolute (base_dir (add_config dry))"
  by (simp_all add: disjoint_ops_def add_config_def absolute_def base_dir_def with_defaults_def has_prefix_iff)

end
