(* ===== verification/Cli_Restore.thy ===== *)
theory Cli_Restore
  imports Cli Toy_Host
begin

text \<open>
  What restore does to a host: only the recorded files and fresh temporary files beside them
  can change, and a success puts every recorded file back.
\<close>

section \<open>A client without a guard session\<close>

definition unguarded :: "'z world_scheme \<Rightarrow> bool" where
  "unguarded w \<longleftrightarrow> (\<forall>d. w_guard w \<noteq> Armed d)"

lemma guard_step_unguarded: "unguarded w \<Longrightarrow> guard_step h w = w"
  by (auto simp: guard_step_def unguarded_def split: guard_state.splits)

lemma unguarded_upd [simp]:
  "unguarded (w\<lparr>w_tick := n\<rparr>) = unguarded w" "unguarded (w\<lparr>w_fs := f\<rparr>) = unguarded w"
  by (simp_all add: unguarded_def)

lemma unguarded_out [simp]: "unguarded (w\<lparr>k_out := l\<rparr>) = unguarded w"
  by (simp add: unguarded_def)

text \<open>The host is left with file system \<open>f\<close> such that \<open>C f\<close>; the local disk is \<open>L\<close>.\<close>

definition client :: "disk \<Rightarrow> (fs \<Rightarrow> bool) \<Rightarrow> console \<Rightarrow> bool" where
  "client L C w \<longleftrightarrow> unguarded w \<and> w_local w = L \<and> C (w_fs w)"

lemma client_upd [simp]:
  "client L C (w\<lparr>w_tick := n\<rparr>) = client L C w" "client L C (w\<lparr>k_out := l\<rparr>) = client L C w"
  by (simp_all add: client_def)

interpretation viewing: watcher h "client L C" for h L C
  by unfold_locales (simp_all add: guard_step_unguarded client_def)

interpretation fixed: still h "client L (\<lambda>f. f = f0)" f0 for h L f0
  by unfold_locales (simp add: client_def)

lemma hoare_run_client:
  assumes "\<And>ft f r t. C f \<Longrightarrow> fresh_names h \<Longrightarrow> exec (script_env h ft) c (script_start h f i) = (r, t) \<Longrightarrow> \<exists>n. ft = h_fault h n \<Longrightarrow>
      C (s_fs t) \<and> (ctl_ok r \<longrightarrow> D (s_fs t))" and "fresh_names h"
  shows "hoare (client L C) (run h c i) (\<lambda>_. client L (\<lambda>f. C f \<and> D f)) (\<lambda>_. client L C)"
  unfolding run_def
proof (rule hoare_run_with [where P' = "client L C"])
  fix w assume "client L C w"
  then show "client L C (guard_step h w)" by (rule viewing.J_guard)
next
  fix w r f out
  assume w: "client L C w" and s: "script_of h c i (w_tick w) (h_fault h (w_tick w)) (w_fs w) = (r, f, out)"
  then obtain t where t: "exec (script_env h (h_fault h (w_tick w))) c (script_start h (w_fs w) i) = (r, t)" "f = s_fs t"
    by (auto simp: script_of_exec)
  have "C (s_fs t) \<and> (ctl_ok r \<longrightarrow> D (s_fs t))"
    using w by (intro assms(1) [OF _ assms(2) t(1)]) (auto simp: client_def)
  then show "case answer (h_fault h (w_tick w)) r out of
      Inl e \<Rightarrow> client L C (w\<lparr>w_tick := Suc (w_tick w), w_fs := f\<rparr>)
    | Inr x \<Rightarrow> client L (\<lambda>f. C f \<and> D f) (w\<lparr>w_tick := Suc (w_tick w), w_fs := f\<rparr>)"
    using w t(2) by (auto simp: client_def unguarded_def split: sum.splits dest!: answer_Inr)
qed simp

section \<open>The frame of a restore\<close>

text \<open>
  The paths \<open>P\<close> a record names, and the temporary files a swap of one of them can make; no
  path of the record may be such a name, or a directory, or hold a quote.
\<close>

definition temps :: "host \<Rightarrow> string set \<Rightarrow> string set" where
  "temps h P = {swap_tmp (script_env h (h_fault h n)) p | n p. p \<in> P}"

definition confined :: "host \<Rightarrow> string set \<Rightarrow> fs \<Rightarrow> fs \<Rightarrow> bool" where
  "confined h P f g \<longleftrightarrow> (\<forall>q. q \<notin> P \<longrightarrow> g q = f q \<or> q \<in> temps h P \<and> f q = None)"

definition no_dirs :: "string set \<Rightarrow> fs \<Rightarrow> bool" where
  "no_dirs P f \<longleftrightarrow> (\<forall>p \<in> P. \<forall>a. f p \<noteq> Some (Dir a))"

definition restorable :: "host \<Rightarrow> string set \<Rightarrow> bool" where
  "restorable h P \<longleftrightarrow> temps h P \<inter> P = {} \<and> (\<forall>p \<in> P. SQ \<notin> set p)"

abbreviation within :: "host \<Rightarrow> string set \<Rightarrow> fs \<Rightarrow> fs \<Rightarrow> bool" where
  "within h P f g \<equiv> confined h P f g \<and> no_dirs P g"

lemma swap_within:
  assumes h: "fresh_names h" "restorable h P" and p: "p \<in> P" and mk: "\<not> o_mkdir wo"
    and f: "within h P f0 f" and run: "exec (script_env h (h_fault h n)) (swap_cmd p wo) (script_start h f c) = (r, t)"
  shows "within h P f0 (s_fs t)" and "\<And>q. q \<in> P \<Longrightarrow> q \<noteq> p \<Longrightarrow> s_fs t q = f q"
    and "ctl_ok r \<Longrightarrow> \<exists>a. s_fs t p = Some (Reg c a) \<and> a_mode a = o_mode wo"
proof -
  let ?e = "script_env h (h_fault h n)" and ?g = "s_fs t"
  have fresh: "fresh_ok (e_fresh ?e)" using h(1) by (simp add: fresh_names_def)
  have tmp: "swap_tmp ?e p \<in> temps h P" using p by (auto simp: temps_def)
  then have out: "swap_tmp ?e p \<notin> P" using h(2) by (auto simp: restorable_def)
  then have ne: "swap_tmp ?e p \<noteq> p" using p by auto
  have dirs: "p \<notin> swap_dirs p wo" "swap_dirs p wo = {}" using mk by (simp_all add: swap_dirs_def)
  have nd: "\<forall>a. s_fs (script_start h f c) p \<noteq> Some (Dir a)" using f p by (simp add: no_dirs_def)
  note at = swap_atomic [OF fresh ne dirs(1) nd run]
  have frame: "only {p, swap_tmp ?e p} f ?g" "grows (f(p := None)) (?g(p := None))"
    using at by (simp_all add: swap_frame_def dirs(2))
  show other: "?g q = f q" if "q \<in> P" "q \<noteq> p" for q
    using onlyD [OF frame(1)] that out by auto
  have new: "?g p = f p \<or> (\<exists>a. ?g p = Some (Reg c a))"
    using at by (auto split: if_splits)
  have "confined h P f0 ?g"
    unfolding confined_def
  proof (intro allI impI)
    fix q assume q: "q \<notin> P"
    have fq: "f q = f0 q \<or> q \<in> temps h P \<and> f0 q = None" using f q by (auto simp: confined_def)
    have "?g q = f q \<or> q = swap_tmp ?e p \<and> f q = None"
      using frame q p unfolding only_def grows_def by (metis (no_types, lifting) fun_upd_other insert_iff singleton_iff)
    with fq tmp show "?g q = f0 q \<or> q \<in> temps h P \<and> f0 q = None" by auto
  qed
  moreover have "?g q \<noteq> Some (Dir a)" if "q \<in> P" for q a
    using new other [OF that] f that by (cases "q = p") (auto simp: no_dirs_def)
  then have "no_dirs P ?g" by (simp add: no_dirs_def)
  ultimately show "within h P f0 ?g" by simp
  show "ctl_ok r \<Longrightarrow> \<exists>a. ?g p = Some (Reg c a) \<and> a_mode a = o_mode wo"
    using at by (auto simp: new_file_def)
qed

lemma remove_within:
  assumes p: "p \<in> P" and f: "within h P f0 f" and run: "exec e (remove_cmd p) s = (r, t)" "s_fs s = f"
  shows "within h P f0 (s_fs t)" and "\<And>q. q \<in> P \<Longrightarrow> q \<noteq> p \<Longrightarrow> s_fs t q = f q" and "ctl_ok r \<Longrightarrow> s_fs t p = None"
  using exec_remove_cmd [OF run(1)] run(2) f p by (auto simp: confined_def no_dirs_def split: if_splits)

section \<open>The restored files\<close>

definition restored_mode :: "meta_file \<Rightarrow> string" where
  "restored_mode f = (if mf_mode f = [] then ''600'' else mf_mode f)"

definition restored :: "machine \<Rightarrow> disk \<Rightarrow> string \<Rightarrow> meta_file \<Rightarrow> node option \<Rightarrow> bool" where
  "restored m L from_dir f z \<longleftrightarrow>
     (if mf_existed f
      then \<exists>c a. read_local m L (backup_file from_dir (mf_user f)) = Some c \<and> z = Some (Reg c a) \<and> a_mode a = restored_mode f
      else z = None)"

definition all_restored :: "machine \<Rightarrow> disk \<Rightarrow> string \<Rightarrow> meta_file list \<Rightarrow> fs \<Rightarrow> bool" where
  "all_restored m L from_dir fs f \<longleftrightarrow> (\<forall>x \<in> set fs. restored m L from_dir x (f (mf_path x)))"

lemma client_mono: "client L C w \<Longrightarrow> (\<And>f. C f \<Longrightarrow> D f) \<Longrightarrow> client L D w"
  by (simp add: client_def)

lemma say_client: "hoare (client L C) (say l) (\<lambda>_. client L C) E"
  unfolding say_def by (rule hoare_modify) simp

lemma preflight_hoare: "hoare P m Q (\<lambda>_. R) \<Longrightarrow> hoare P (preflight g m) Q (\<lambda>_. R)"
  unfolding preflight_def by (rule hoare_wrap_err)

lemma swap_file_client:
  assumes h: "fresh_names h" "restorable h P" and p: "p \<in> P" and mk: "\<not> o_mkdir wo"
    and X: "\<And>f g. X f \<Longrightarrow> (\<And>q. q \<in> P \<Longrightarrow> q \<noteq> p \<Longrightarrow> g q = f q) \<Longrightarrow> X g"
  shows "hoare (client L (\<lambda>f. within h P f0 f \<and> X f)) (swap_file h p c wo)
    (\<lambda>_. client L (\<lambda>f. (within h P f0 f \<and> X f) \<and>
       (\<exists>a. f p = Some (Reg c a) \<and> a_mode a = (if o_mode wo = [] then ''600'' else o_mode wo))))
    (\<lambda>_. client L (\<lambda>f. within h P f0 f \<and> X f))"
proof -
  have sq: "SQ \<notin> set p" using h(2) p by (simp add: restorable_def)
  define wo' where "wo' = (if o_mode wo = [] then wo\<lparr>o_mode := ''600''\<rparr> else wo)"
  have wo': "\<not> o_mkdir wo'" "o_mode wo' = (if o_mode wo = [] then ''600'' else o_mode wo)"
    using mk by (simp_all add: wo'_def)
  have run: "hoare (client L (\<lambda>f. within h P f0 f \<and> X f)) (run h (swap_cmd p wo') c)
    (\<lambda>_. client L (\<lambda>f. (within h P f0 f \<and> X f) \<and> (\<exists>a. f p = Some (Reg c a) \<and> a_mode a = o_mode wo')))
    (\<lambda>_. client L (\<lambda>f. within h P f0 f \<and> X f))"
  proof (rule hoare_run_client [OF _ h(1)])
    fix ft f r t
    assume f: "within h P f0 f \<and> X f" and run: "exec (script_env h ft) (swap_cmd p wo') (script_start h f c) = (r, t)"
      and "\<exists>n. ft = h_fault h n"
    then obtain n where "ft = h_fault h n" by blast
    note sw = swap_within [OF h p wo'(1) _ run [unfolded this]]
    have "within h P f0 f" "X f" using f by simp_all
    with sw(1) [OF this(1)] X [OF this(2) sw(2) [OF this(1)]] sw(3) [OF this(1)]
    show "(within h P f0 (s_fs t) \<and> X (s_fs t)) \<and>
        (ctl_ok r \<longrightarrow> (\<exists>a. s_fs t p = Some (Reg c a) \<and> a_mode a = o_mode wo'))" by blast
  qed
  show ?thesis
    unfolding swap_file_def Let_def if_not_P [OF sq] wo'_def [symmetric] wo'(2) [symmetric]
    by (intro hoare_option hoare_throw hoare_andThen [OF run hoare_ret])
qed

lemma remove_path_client:
  assumes h: "fresh_names h" and p: "p \<in> P"
    and X: "\<And>f g. X f \<Longrightarrow> (\<And>q. q \<in> P \<Longrightarrow> q \<noteq> p \<Longrightarrow> g q = f q) \<Longrightarrow> X g"
  shows "hoare (client L (\<lambda>f. within h P f0 f \<and> X f)) (remove_path h p)
    (\<lambda>_. client L (\<lambda>f. (within h P f0 f \<and> X f) \<and> f p = None)) (\<lambda>_. client L (\<lambda>f. within h P f0 f \<and> X f))"
  unfolding remove_path_def
proof (rule hoare_andThen [OF hoare_run_client [OF _ h] hoare_ret])
  fix ft f r t
  assume f: "within h P f0 f \<and> X f" and run: "exec (script_env h ft) (remove_cmd p) (script_start h f []) = (r, t)"
  note rm = remove_within [OF p _ run]
  have "within h P f0 f" "X f" using f by simp_all
  with rm(1) [OF this(1)] X [OF this(2) rm(2) [OF this(1)]] rm(3) [OF this(1)]
  show "(within h P f0 (s_fs t) \<and> X (s_fs t)) \<and> (ctl_ok r \<longrightarrow> s_fs t p = None)" by auto
qed


section \<open>The run of restore\<close>

lemma all_restored_frame:
  assumes "all_restored m L from_dir ys f" and "mf_path ` set ys \<subseteq> P" and "p \<notin> mf_path ` set ys"
    and "\<And>q. q \<in> P \<Longrightarrow> q \<noteq> p \<Longrightarrow> g q = f q"
  shows "all_restored m L from_dir ys g"
  unfolding all_restored_def
proof
  fix x assume x: "x \<in> set ys"
  then have "g (mf_path x) = f (mf_path x)" using assms(2,3) by (intro assms(4)) auto
  with assms(1) x show "restored m L from_dir x (g (mf_path x))" by (simp add: all_restored_def)
qed

definition restoring :: "host \<Rightarrow> string set \<Rightarrow> fs \<Rightarrow> machine \<Rightarrow> disk \<Rightarrow> string \<Rightarrow> meta_file list \<Rightarrow> console \<Rightarrow> bool" where
  "restoring h P f0 m L from_dir ys = client L (\<lambda>f. within h P f0 f \<and> all_restored m L from_dir ys f)"

lemma restoringD:
  "restoring h P f0 m L from_dir ys w \<Longrightarrow> client L (\<lambda>f. within h P f0 f \<and> all_restored m L from_dir ys f) w"
  by (simp add: restoring_def)

lemma restoring_within: "restoring h P f0 m L from_dir ys w \<Longrightarrow> client L (within h P f0) w"
  by (simp add: restoring_def client_def)

text \<open>Between two files: what is restored stays so while \<open>x\<close> is worked on.\<close>

lemma restoring_next:
  assumes "client L (\<lambda>f. (within h P f0 f \<and> all_restored m L from_dir ys f) \<and> restored m L from_dir x (f (mf_path x))) w"
  shows "restoring h P f0 m L from_dir (ys @ [x]) w"
  using assms by (simp add: restoring_def client_def all_restored_def)

lemma restore_content_client:
  assumes h: "fresh_names h" "restorable h P" and P: "mf_path ` set ys \<subseteq> P" "mf_path x \<in> P" "mf_path x \<notin> mf_path ` set ys"
    and x: "mf_existed x" "read_local m L (backup_file from_dir (mf_user x)) = Some c"
  shows "hoare (restoring h P f0 m L from_dir ys) (restore_content h t uid from_dir x c)
    (\<lambda>_. restoring h P f0 m L from_dir (ys @ [x])) (\<lambda>_. client L (within h P f0))"
proof -
  let ?I = "restoring h P f0 m L from_dir ys" and ?E = "\<lambda>_::cli_error. client L (within h P f0)"
  note X = all_restored_frame [of m L from_dir ys _ P "mf_path x", OF _ P(1,3)]
  have look: "hoare ?I (preflight g (stat h p)) (\<lambda>_. ?I) ?E" for g p
    unfolding restoring_def
    by (rule preflight_hoare, rule hoare_weaken [OF viewing.stat_keeps])
      (assumption | erule restoring_within [unfolded restoring_def])+
  have sw: "hoare ?I (preflight RemoteFailed (swap_file h (mf_path x) c (restore_opts tgt x)))
      (\<lambda>_. restoring h P f0 m L from_dir (ys @ [x])) ?E" for tgt
  proof -
    have o: "\<not> o_mkdir (restore_opts tgt x)"
      "(if o_mode (restore_opts tgt x) = [] then ''600'' else o_mode (restore_opts tgt x)) = restored_mode x"
      by (simp_all add: restore_opts_def restored_mode_def)
    have fin: "client L (\<lambda>f. (within h P f0 f \<and> all_restored m L from_dir ys f) \<and>
        (\<exists>a. f (mf_path x) = Some (Reg c a) \<and> a_mode a = restored_mode x)) w \<Longrightarrow>
      restoring h P f0 m L from_dir (ys @ [x]) w" for w
      using x by (intro restoring_next, erule_tac client_mono) (simp add: restored_def)
    note swapped = swap_file_client [OF h P(2) o(1), where X = "all_restored m L from_dir ys" and L = L and ?f0.0 = f0, unfolded o(2)]
    show ?thesis
      by (rule preflight_hoare, rule hoare_weaken, rule swapped, erule X, blast)
        (erule restoringD | erule fin | erule restoring_within [unfolded restoring_def])+
  qed
  have fine: "hoare (restoring h P f0 m L from_dir (ys @ [x])) (say l)
      (\<lambda>_. restoring h P f0 m L from_dir (ys @ [x])) ?E" for l
    unfolding restoring_def by (rule say_client)
  show ?thesis
    unfolding restore_content_def Let_def
    by (rule hoare_ignore [OF look], rule hoare_ignore [OF look], intro hoare_if hoare_throw hoare_option)
      (assumption | erule restoring_within | rule hoare_andThen [OF sw fine])+
qed

lemma restore_file_client:
  assumes h: "fresh_names h" "restorable h P" and P: "mf_path ` set ys \<subseteq> P" "mf_path x \<in> P" "mf_path x \<notin> mf_path ` set ys"
  shows "hoare (restoring h P f0 m L from_dir ys) (restore_file m h t uid from_dir x)
    (\<lambda>_. restoring h P f0 m L from_dir (ys @ [x])) (\<lambda>_. client L (within h P f0))"
proof (cases "mf_existed x")
  case False
  note X = all_restored_frame [of m L from_dir ys _ P "mf_path x", OF _ P(1,3)]
  note removed = remove_path_client [OF h(1) P(2), where X = "all_restored m L from_dir ys" and L = L and ?f0.0 = f0]
  have fin: "client L (\<lambda>f. (within h P f0 f \<and> all_restored m L from_dir ys f) \<and> f (mf_path x) = None) w \<Longrightarrow>
      restoring h P f0 m L from_dir (ys @ [x]) w" for w
    using False by (intro restoring_next, erule_tac client_mono) (simp add: restored_def)
  have rm: "hoare (restoring h P f0 m L from_dir ys) (preflight RemoteFailed (remove_path h (mf_path x)))
      (\<lambda>_. restoring h P f0 m L from_dir (ys @ [x])) (\<lambda>_. client L (within h P f0))"
    by (rule preflight_hoare, rule hoare_weaken, rule removed, erule X, blast)
      (erule restoringD | erule fin | erule restoring_within [unfolded restoring_def])+
  have fine: "hoare (restoring h P f0 m L from_dir (ys @ [x])) (say l)
      (\<lambda>_. restoring h P f0 m L from_dir (ys @ [x])) (\<lambda>_. client L (within h P f0))" for l
    unfolding restoring_def by (rule say_client)
  show ?thesis unfolding restore_file_def using False by (simp add: hoare_andThen [OF rm fine])
next
  case True
  have body: "hoare (\<lambda>w. d = L \<and> restoring h P f0 m L from_dir ys w)
      (case read_local m d (backup_file from_dir (mf_user x)) of
         None \<Rightarrow> throw (Usage (BackupUnreadable (mf_user x)))
       | Some c \<Rightarrow> restore_content h t uid from_dir x c)
      (\<lambda>_. restoring h P f0 m L from_dir (ys @ [x])) (\<lambda>_. client L (within h P f0))" for d
    by (rule hoare_assume, intro hoare_option hoare_throw)
      (erule restoring_within, rule restore_content_client [OF h P True], simp)
  show ?thesis
    unfolding restore_file_def
    using True by (simp, intro hoare_andThen [OF _ body] hoare_gets) (simp add: restoring_def client_def)
qed

lemma restore_files_client:
  assumes h: "fresh_names h" "restorable h (mf_path ` set fs)" and d: "distinct (map mf_path fs)"
  shows "hoare (client L (\<lambda>f. f = f0 \<and> no_dirs (mf_path ` set fs) f)) (for_each (restore_file m h t uid from_dir) fs)
    (\<lambda>_. restoring h (mf_path ` set fs) f0 m L from_dir fs) (\<lambda>_. client L (within h (mf_path ` set fs) f0))"
proof (rule hoare_weaken)
  let ?P = "mf_path ` set fs"
  show "hoare (restoring h ?P f0 m L from_dir []) (for_each (restore_file m h t uid from_dir) fs)
    (\<lambda>_. restoring h ?P f0 m L from_dir fs) (\<lambda>_. client L (within h ?P f0))"
  proof (rule hoare_for_each)
    fix ys x zs assume fs: "fs = ys @ x # zs"
    show "hoare (restoring h ?P f0 m L from_dir ys) (restore_file m h t uid from_dir x)
      (\<lambda>_. restoring h ?P f0 m L from_dir (ys @ [x])) (\<lambda>_. client L (within h ?P f0))"
      by (rule restore_file_client [OF h]) (use d in \<open>auto simp: fs\<close>)
  qed
  show "client L (\<lambda>f. f = f0 \<and> no_dirs ?P f) w \<Longrightarrow> restoring h ?P f0 m L from_dir [] w" for w
    by (auto simp: restoring_def client_def all_restored_def confined_def)
qed

text \<open>What an acceptable record names, and the record a restore reads.\<close>

definition entry_ok :: "meta_file \<Rightarrow> bool" where
  "entry_ok f \<longleftrightarrow> valid_username (mf_user f) \<and> has_prefix (mf_path f) ''/'' \<and> meta_path_ok (mf_user f) (mf_path f)"

lemma vet_meta_iff: "vet_meta fs = None \<longleftrightarrow> list_all entry_ok fs"
  by (induction fs rule: vet_meta.induct) (auto simp: entry_ok_def)

definition recorded :: "machine \<Rightarrow> disk \<Rightarrow> string \<Rightarrow> meta option" where
  "recorded m d from_dir = Option.bind (read_local m d (path_join [from_dir, ''meta.json''])) (l_parse_meta m)"

lemma lift_sum_keeps: "keeps J (usage_or g r)"
  by (rule keepsI) (simp add: usage_or_def lift_sum_def comp_defs split: sum.splits)

lemma credentials_keeps: "keeps J (credentials m h rf)"
  unfolding credentials_def by (intro keeps_andThen lift_sum_keeps hoare_gets hoare_ret)

lemma dial_client_keeps: "keeps J (dial_client h)"
  unfolding dial_client_def by (intro hoare_if hoare_ret hoare_throw)

definition restored_outcome :: "machine \<Rightarrow> host \<Rightarrow> meta \<Rightarrow> restore_flags \<Rightarrow> disk \<Rightarrow> fs \<Rightarrow> cli_error + unit \<Rightarrow> console \<Rightarrow> bool" where
  "restored_outcome m h mt rs L f0 r w \<longleftrightarrow>
     w_local w = L \<and> confined h (mf_path ` set (m_files mt)) f0 (w_fs w) \<and>
     (w_fs w = f0 \<or> list_all entry_ok (m_files mt)) \<and>
     (if \<not> rs_dry rs \<and> r = Inr () then all_restored m L (rs_from rs) (m_files mt) (w_fs w) else True)"

lemma restored_early: "client L (\<lambda>f. f = f0) w \<Longrightarrow> restored_outcome m h mt rs L f0 (Inl e) w"
  by (simp add: restored_outcome_def client_def confined_def)

lemma restored_step:
  assumes "keeps (client L (\<lambda>f. f = f0)) n"
    and "\<And>x. hoare (client L (\<lambda>f. f = f0)) (k x)
      (\<lambda>x. restored_outcome m h mt rs L f0 (Inr x)) (\<lambda>e. restored_outcome m h mt rs L f0 (Inl e))"
  shows "hoare (client L (\<lambda>f. f = f0)) (andThen n k)
    (\<lambda>x. restored_outcome m h mt rs L f0 (Inr x)) (\<lambda>e. restored_outcome m h mt rs L f0 (Inl e))"
  by (rule hoare_andThen [OF hoare_weaken [OF assms(1)] assms(2)]) (assumption | erule restored_early)+

lemma restore_recorded_outcome:
  assumes h: "fresh_names h" and P: "restorable h (mf_path ` set (m_files mt))" "no_dirs (mf_path ` set (m_files mt)) f0"
    and d: "distinct (map mf_path (m_files mt))"
  shows "hoare (client L (\<lambda>f. f = f0)) (restore_recorded m h rf rs t mt)
    (\<lambda>x. restored_outcome m h mt rs L f0 (Inr x)) (\<lambda>e. restored_outcome m h mt rs L f0 (Inl e))"
proof -
  let ?C = "client L (\<lambda>f. f = f0)"
  let ?Q = "\<lambda>x. restored_outcome m h mt rs L f0 (Inr x)" and ?E = "\<lambda>e. restored_outcome m h mt rs L f0 (Inl e)"
  have plan: "hoare ?C (for_each (\<lambda>f. say (restore_plan (rs_from rs) f)) (m_files mt)) ?Q ?E" if "rs_dry rs"
  proof (rule hoare_weaken)
    show "keeps ?C (for_each (\<lambda>f. say (restore_plan (rs_from rs) f)) (m_files mt))"
      by (intro keeps_for_each say_client)
  qed (use that in \<open>auto simp: restored_outcome_def client_def confined_def\<close>)
  have work: "hoare ?C (for_each (restore_file m h t uid (rs_from rs)) (m_files mt)) ?Q ?E"
    if "vet_meta (m_files mt) = None" for uid
    by (rule hoare_weaken [OF restore_files_client [OF h P(1) d]])
      (use P(2) that in \<open>auto simp: restored_outcome_def restoring_def client_def vet_meta_iff\<close>)
  show ?thesis
    unfolding restore_recorded_def
    by (intro hoare_if hoare_option hoare_throw restored_early plan restored_step credentials_keeps dial_client_keeps
        preflight_hoare viewing.whoami_keeps work)
qed

lemma restore_cmd_outcome:
  assumes h: "fresh_names h" and meta: "recorded m L (rs_from rs) = Some mt"
    and P: "restorable h (mf_path ` set (m_files mt))" "no_dirs (mf_path ` set (m_files mt)) f0"
    and d: "distinct (map mf_path (m_files mt))"
  shows "hoare (client L (\<lambda>f. f = f0)) (restore_cmd m h rf rs)
    (\<lambda>x. restored_outcome m h mt rs L f0 (Inr x)) (\<lambda>e. restored_outcome m h mt rs L f0 (Inl e))"
proof -
  obtain raw where raw: "read_local m L (path_join [rs_from rs, ''meta.json'']) = Some raw" "l_parse_meta m raw = Some mt"
    using meta by (auto simp: recorded_def bind_eq_Some_conv)
  show ?thesis
    unfolding restore_cmd_def
  proof (rule restored_step [OF lift_sum_keeps], rule hoare_if, rule hoare_throw, erule restored_early)
    fix t :: target
    show "hoare (client L (\<lambda>f. f = f0)) (andThen (gets w_local) (\<lambda>d.
        case read_local m d (path_join [rs_from rs, ''meta.json'']) of
          None \<Rightarrow> throw (Usage (MetaUnreadable (rs_from rs)))
        | Some raw \<Rightarrow> (case l_parse_meta m raw of
            None \<Rightarrow> throw (Usage MetaMalformed) | Some mt \<Rightarrow> restore_recorded m h rf rs t mt)))
      (\<lambda>x. restored_outcome m h mt rs L f0 (Inr x)) (\<lambda>e. restored_outcome m h mt rs L f0 (Inl e))"
      by (rule hoare_andThen [where R = "\<lambda>d w. d = L \<and> client L (\<lambda>f. f = f0) w"], rule hoare_gets,
          simp add: client_def, rule hoare_assume)
        (use restore_recorded_outcome [OF h P d] in \<open>simp add: raw\<close>)
  qed
qed


section \<open>An example\<close>

text \<open>The record of a transaction that changed one file of \<^verbatim>\<open>al\<close> and created another.\<close>

definition toy_meta :: meta where
  "toy_meta =
     \<lparr>m_txid = ''1'', m_target = ''al@s:22'', m_outcome = Committed, m_ops = [],
      m_files = [\<lparr>mf_user = ''al'', mf_path = ''/h/authorized_keys'', mf_existed = True, mf_uid = ''7'', mf_gid = ''7'',
                   mf_mode = ''644'', mf_sha = [], mf_local = []\<rparr>,
                 \<lparr>mf_user = ''al'', mf_path = ''/t/authorized_keys'', mf_existed = False, mf_uid = [], mf_gid = [],
                   mf_mode = [], mf_sha = [], mf_local = []\<rparr>]\<rparr>"

definition toy_machine :: machine where
  "toy_machine =
     \<lparr>l_lib = toy_lib, l_denied = (\<lambda>_. False), l_isdir = (\<lambda>_. False), l_private = (\<lambda>p. Signer (PubKey ''k'' p)),
      l_sock = ''s'', l_agent_up = (\<lambda>_. True), l_agent_keys = (\<lambda>_. None), l_known_ok = (\<lambda>_. True),
      l_parse_meta = (\<lambda>_. Some toy_meta), l_render_meta = (\<lambda>_. []), l_sha = id, l_txid = ''1''\<rparr>"

definition toy_flags :: root_flags where
  "toy_flags = default_flags\<lparr>rf_target := ''al@s'', rf_insecure := True, rf_path := ''%h/k'', rf_tmp := ''/t''\<rparr>"

definition toy_console :: console where
  "toy_console =
     world.extend
       (calm_world\<lparr>w_fs := (w_fs calm_world)(''/t/authorized_keys'' \<mapsto> Reg ''x'' \<lparr>a_uid = ''7'', a_gid = ''7'', a_mode = ''600''\<rparr>),
          w_local := [''/b/meta.json'' \<mapsto> ''m'', ''/b/files/al/authorized_keys'' \<mapsto> ''old'']\<rparr>)
       \<lparr>k_out = []\<rparr>"

definition toy_restore :: restore_flags where
  "toy_restore = \<lparr>rs_from = ''/b'', rs_force = False, rs_dry = False\<rparr>"

definition calm :: host where
  "calm = calm_host (\<lambda>_. False) (\<lambda>_. False)"

lemma toy_restore_run:
  "(case restore_cmd toy_machine calm toy_flags toy_restore toy_console of (r, w) \<Rightarrow>
      (case r of Inl _ \<Rightarrow> False | Inr _ \<Rightarrow> True) \<and> w_fs w ''/t/authorized_keys'' = None)"
  by code_simp


end
