(* ===== verification/Cli_Facts.thy ===== *)
theory Cli_Facts
  imports Cli_Restore
begin

text \<open>
  What looking a user up and reading his file tells a command, what the commands share, and
  the verdict of check.
\<close>

section \<open>Looking a user up\<close>

lemma last_plain_ends:
  assumes "ascii_char c" "\<not> ascii_space c"
  shows "space_len (map rev wide_spaces) (c # cs) = 0"
proof -
  have "c \<noteq> CHR 0x85" "c \<noteq> CHR 0xA0" "c \<noteq> CHR 0x80" "c \<noteq> CHR 0x81" "c \<noteq> CHR 0x82" "c \<noteq> CHR 0x83" "c \<noteq> CHR 0x84" "c \<noteq> CHR 0x86" "c \<noteq> CHR 0x87" "c \<noteq> CHR 0x88" "c \<noteq> CHR 0x89" "c \<noteq> CHR 0x8A" "c \<noteq> CHR 0xA8" "c \<noteq> CHR 0xA9" "c \<noteq> CHR 0xAF" "c \<noteq> CHR 0x9F"
    using assms(1) by (auto simp: ascii_char_def)
  then have "wide_len (map rev wide_spaces) (c # cs) = 0"
    by (simp add: wide_len_def wide_spaces_def)
  then show ?thesis using assms(2) by simp
qed

lemma trim_right_plain: "plain_word w \<Longrightarrow> trim_right (s @ w) = s @ w"
proof (cases w rule: rev_cases)
  case (snoc y c)
  assume "plain_word w"
  then have "ascii_char c" "\<not> ascii_space c" by (auto simp: snoc plain_word_def)
  then show ?thesis by (simp add: trim_right_def snoc drop_spaces_id last_plain_ends del: space_len.simps)
qed (simp add: plain_word_def)

lemma trim_right_NL: "trim_right (s @ [NL]) = trim_right s"
  by (simp add: trim_right_def drop_spaces.simps [of _ "NL # _"] ascii_space_def)

lemma plain_word_NL: "plain_word w \<Longrightarrow> NL \<notin> set w"
  by (auto simp: plain_word_def ascii_space_def)

definition plain_users :: "host \<Rightarrow> bool" where
  "plain_users h \<longleftrightarrow> (\<forall>n u g d. h_users h n = Some (u, g, d) \<longrightarrow> plain_word u \<and> plain_word g \<and> plain_word d)"

lemma lookup_reply:
  assumes "plain_word u" "plain_word g" "plain_word d"
  shows "split_on NL (trim_space (u @ NL # g @ NL # d @ [NL])) = [u, g, d]"
proof -
  have "trim_space (u @ NL # g @ NL # d @ [NL]) = u @ NL # g @ NL # d"
    using trim_right_plain [OF assms(3), of "u @ NL # g @ [NL]"] trim_right_NL [of "u @ NL # g @ NL # d"]
    by (simp add: trim_space_def trim_left_plain [OF assms(1)])
  then show ?thesis
    using assms by (simp add: split_on_append split_on_id plain_word_NL)
qed

lemma strip_nl_plain: "plain_word w \<Longrightarrow> strip_nl (w @ [NL]) = w"
  by (rule strip_nl_id) (auto simp: plain_word_def ascii_space_def dest: last_in_set)

lemma exec_lookup_cmd:
  assumes "exec (script_env h ft) (lookup_cmd n) s = (r, t)" and "s_out s = []" and "ctl_ok r" and "plain_users h"
  shows "\<exists>u g d. h_users h n = Some (u, g, d) \<and> s_out t = u @ NL # g @ NL # d @ [NL]"
proof (cases "h_users h n")
  case (Some x)
  then obtain u g d where x: "h_users h n = Some (u, g, d)" by (cases x) auto
  have "plain_word u" "plain_word g" "plain_word d" using assms(4) x unfolding plain_users_def by blast+
  note strip = this [THEN strip_nl_plain]
  have "s_out t = u @ NL # g @ NL # d @ [NL]"
    using assms(1-3) x strip
    by (auto simp: lookup_cmd_def prim_def out_eff_def ctl_ok_def split: if_splits option.splits)
  with x show ?thesis by blast
qed (use assms(1-3) in \<open>auto simp: lookup_cmd_def ctl_ok_def\<close>)

lemma lookup_tells:
  assumes "plain_users h"
  shows "hoare (client L (\<lambda>f. f = f0)) (lookup_user h n)
    (\<lambda>(u, g, d) w. client L (\<lambda>f. f = f0) w \<and> h_users h n = Some (u, g, d)) (\<lambda>_. client L (\<lambda>f. f = f0))"
proof -
  let ?Q = "\<lambda>x. \<exists>u g d. h_users h n = Some (u, g, d) \<and> x = u @ NL # g @ NL # d @ [NL]"
  have run: "hoare (client L (\<lambda>f. f = f0)) (run h (lookup_cmd n) []) (\<lambda>x w. client L (\<lambda>f. f = f0) w \<and> ?Q x)
      (\<lambda>_ w. client L (\<lambda>f. f = f0) w \<and> True)"
  proof (rule fixed.run_still)
    fix ft r t assume e: "exec (script_env h ft) (lookup_cmd n) (script_start h f0 []) = (r, t)"
    show "case answer ft r (s_out t) of Inl err \<Rightarrow> True | Inr x \<Rightarrow> ?Q x"
    proof (cases "answer ft r (s_out t)")
      case (Inr x)
      with answer_Inr [OF Inr] exec_lookup_cmd [OF e _ _ assms] show ?thesis by simp
    qed simp
  qed simp_all
  have reply: "hoare (\<lambda>w. client L (\<lambda>f. f = f0) w \<and> ?Q out)
      (case split_on NL (trim_space out) of
         [u, g, home] \<Rightarrow> if home = [] \<or> \<not> has_prefix home ''/'' then throw (Unparseable out) else ret (u, g, home)
       | _ \<Rightarrow> throw (Unparseable out))
      (\<lambda>(u, g, d) w. client L (\<lambda>f. f = f0) w \<and> h_users h n = Some (u, g, d)) (\<lambda>_. client L (\<lambda>f. f = f0))" for out
  proof (rule hoareI)
    fix s e s' assume "client L (\<lambda>f. f = f0) s \<and> ?Q out"
      and "(case split_on NL (trim_space out) of
         [u, g, home] \<Rightarrow> if home = [] \<or> \<not> has_prefix home ''/'' then throw (Unparseable out) else ret (u, g, home)
       | _ \<Rightarrow> throw (Unparseable out)) s = (Inl e, s')"
    then show "client L (\<lambda>f. f = f0) s'"
      by (auto simp: comp_defs split: list.splits if_splits)
  next
    fix s x s' assume s: "client L (\<lambda>f. f = f0) s \<and> ?Q out"
      and r: "(case split_on NL (trim_space out) of
         [u, g, home] \<Rightarrow> if home = [] \<or> \<not> has_prefix home ''/'' then throw (Unparseable out) else ret (u, g, home)
       | _ \<Rightarrow> throw (Unparseable out)) s = (Inr x, s')"
    from s obtain u g d where u: "h_users h n = Some (u, g, d)" "out = u @ NL # g @ NL # d @ [NL]" by blast
    then have "plain_word u" "plain_word g" "plain_word d" using assms unfolding plain_users_def by blast+
    from lookup_reply [OF this] have "split_on NL (trim_space out) = [u, g, d]" by (simp add: u(2))
    with r s u(1) show "(case x of (u, g, d) \<Rightarrow> \<lambda>w. client L (\<lambda>f. f = f0) w \<and> h_users h n = Some (u, g, d)) s'"
      by (auto simp: comp_defs split: if_splits)
  qed
  show ?thesis
    unfolding lookup_user_def
    by (intro hoare_if hoare_throw, assumption, rule hoare_andThen [OF _ reply], rule hoare_weaken [OF run]) simp_all
qed

section \<open>What precedes a connection\<close>

lemma exit_code_simps [simp]:
  "exit_code (Inr x) = ExitOK" "exit_code (Inl (Usage u)) = ExitUsage" "exit_code (Inl (ExitWith n c)) = n"
  by (simp_all add: exit_code_def as_exit_error_def)

lemmas exit_codes = ExitOK_def ExitAbortedReverted_def ExitUsage_def ExitRevertUnverified_def ExitPreflight_def

lemma lift_run:
  "usage_or g r w = (case r of Inl e \<Rightarrow> (Inl (Usage (g e)), w) | Inr x \<Rightarrow> (Inr x, w))"
  by (simp add: usage_or_def lift_sum_def comp_defs split: sum.splits)

lemma credentials_run: "\<exists>e. credentials m h rf w = (Inr (), w) \<or> credentials m h rf w = (Inl (Usage e), w)"
  by (simp add: credentials_def comp_defs lift_run split: sum.splits)

lemma dial_run: "dial_client h w = (if h_login h then Inr () else Inl (ExitWith ExitPreflight DialRefused), w)"
  by (simp add: dial_client_def comp_defs)

section \<open>check\<close>

definition content_at :: "fs \<Rightarrow> string \<Rightarrow> string" where
  "content_at f p = (case node_at f p of Some (Reg c a) \<Rightarrow> c | _ \<Rightarrow> [])"

definition keys_of_user :: "machine \<Rightarrow> root_flags \<Rightarrow> fs \<Rightarrow> string \<Rightarrow> string \<Rightarrow> keyfile \<times> string" where
  "keys_of_user m rf f user home =
     (let p = expand_template user home (rf_path rf) in (parse_file (l_lib m) (content_at f p), p))"

text \<open>An assertion of check: the key is in the user's file exactly if it is to be present.\<close>

definition holds :: "machine \<Rightarrow> host \<Rightarrow> root_flags \<Rightarrow> fs \<Rightarrow> bool \<Rightarrow> user_spec \<Rightarrow> bool" where
  "holds m h rf f present us \<longleftrightarrow>
     (case h_users h (us_user us) of
        None \<Rightarrow> False
      | Some (u, g, home) \<Rightarrow>
          (find_keys (l_lib m) (us_matcher us) (fst (keys_of_user m rf f (us_user us) home)) \<noteq> []) = present)"

definition cached :: "machine \<Rightarrow> host \<Rightarrow> root_flags \<Rightarrow> fs \<Rightarrow> loaded \<Rightarrow> bool" where
  "cached m h rf f files \<longleftrightarrow>
     (\<forall>user fp. files user = Some fp \<longrightarrow>
        (\<exists>u g d. h_users h user = Some (u, g, d) \<and> fp = keys_of_user m rf f user d))"

lemma read_content:
  "hoare (client L (\<lambda>f. f = f0)) (read_file h p) (\<lambda>z w. client L (\<lambda>f. f = f0) w \<and> fst z = content_at f0 p)
    (\<lambda>_. client L (\<lambda>f. f = f0))"
proof -
  have absent: "hoare (\<lambda>_. True) (read_file h p) (\<lambda>z _. \<not> snd z \<longrightarrow> fst z = []) (\<lambda>_ _. True)"
    by (rule hoareI) (auto simp: read_file_def comp_defs split: sum.splits prod.splits if_splits)
  have "content_of f0 p z \<Longrightarrow> \<not> snd z \<longrightarrow> fst z = [] \<Longrightarrow> fst z = content_at f0 p" for z
    by (auto simp: content_of_def content_at_def split: if_splits)
  then show ?thesis
    by (intro hoare_weaken [OF hoare_conj [OF fixed.read_tells absent]]) auto
qed

lemma check_load_client:
  assumes "plain_users h" and "cached m h rf f0 files"
  shows "hoare (client L (\<lambda>f. f = f0)) (check_load m h rf files user)
    (\<lambda>fp w. client L (\<lambda>f. f = f0) w \<and> (\<exists>u g d. h_users h user = Some (u, g, d) \<and> fp = keys_of_user m rf f0 user d))
    (\<lambda>err w. client L (\<lambda>f. f = f0) w \<and> exit_code (Inl err) = ExitPreflight)"
proof -
  let ?C = "client L (\<lambda>f. f = f0)"
  have pre: "hoare P n Q (\<lambda>_. ?C) \<Longrightarrow>
    hoare P (preflight RemoteFailed n) Q (\<lambda>err w. ?C w \<and> exit_code (Inl err) = ExitPreflight)" for P Q and n :: "(console, remote_error, 'a) comp"
    unfolding preflight_def
    by (rule hoare_wrap_err, erule hoare_weaken) (auto simp: exit_code_def as_exit_error_def)
  have body: "hoare (\<lambda>w. ?C w \<and> h_users h user = Some (u, g, d))
      (andThen (preflight RemoteFailed (read_file h (expand_template user d (rf_path rf))))
        (\<lambda>(content, _). ret (parse_file (l_lib m) content, expand_template user d (rf_path rf))))
      (\<lambda>fp w. ?C w \<and> (\<exists>u g d. h_users h user = Some (u, g, d) \<and> fp = keys_of_user m rf f0 user d))
      (\<lambda>err w. ?C w \<and> exit_code (Inl err) = ExitPreflight)" for u g d
  proof (rule hoare_weaken [where P = "\<lambda>w. h_users h user = Some (u, g, d) \<and> ?C w"], rule hoare_assume)
    assume "h_users h user = Some (u, g, d)"
    then show "hoare ?C (andThen (preflight RemoteFailed (read_file h (expand_template user d (rf_path rf))))
        (\<lambda>(content, _). ret (parse_file (l_lib m) content, expand_template user d (rf_path rf))))
      (\<lambda>fp w. ?C w \<and> (\<exists>u g d. h_users h user = Some (u, g, d) \<and> fp = keys_of_user m rf f0 user d))
      (\<lambda>err w. ?C w \<and> exit_code (Inl err) = ExitPreflight)"
      by (intro hoare_andThen [OF pre [OF read_content]])
        (auto intro!: hoare_ret simp: keys_of_user_def Let_def split: prod.splits)
  qed simp_all
  show ?thesis
    unfolding check_load_def Let_def
  proof (rule hoare_option)
    show "hoare ?C (andThen (preflight RemoteFailed (lookup_user h user)) (\<lambda>(_, _, home).
        andThen (preflight RemoteFailed (read_file h (expand_template user home (rf_path rf))))
         (\<lambda>(content, _). ret (parse_file (l_lib m) content, expand_template user home (rf_path rf)))))
      (\<lambda>fp w. ?C w \<and> (\<exists>u g d. h_users h user = Some (u, g, d) \<and> fp = keys_of_user m rf f0 user d))
      (\<lambda>err w. ?C w \<and> exit_code (Inl err) = ExitPreflight)"
    proof (rule hoare_andThen [OF pre [OF lookup_tells [OF assms(1)]]])
      fix x :: "string \<times> string \<times> string"
      obtain u g d where x: "x = (u, g, d)" by (cases x) auto
      show "hoare ((case x of (u, g, d) \<Rightarrow> \<lambda>w. ?C w \<and> h_users h user = Some (u, g, d)))
        (case x of (_, _, home) \<Rightarrow> andThen (preflight RemoteFailed (read_file h (expand_template user home (rf_path rf))))
         (\<lambda>(content, _). ret (parse_file (l_lib m) content, expand_template user home (rf_path rf))))
        (\<lambda>fp w. ?C w \<and> (\<exists>u g d. h_users h user = Some (u, g, d) \<and> fp = keys_of_user m rf f0 user d))
        (\<lambda>err w. ?C w \<and> exit_code (Inl err) = ExitPreflight)"
        unfolding x prod.case by (rule body)
    qed
  qed (use assms(2) in \<open>auto intro!: hoare_ret simp: cached_def\<close>)
qed

text \<open>The number of assertions that fail.\<close>

definition failing :: "machine \<Rightarrow> host \<Rightarrow> root_flags \<Rightarrow> fs \<Rightarrow> bool \<Rightarrow> user_spec list \<Rightarrow> nat" where
  "failing m h rf f present specs = length (filter (\<lambda>us. \<not> holds m h rf f present us) specs)"

lemma check_one_holds:
  "h_users h (us_user us) = Some (u, g, d) \<Longrightarrow>
    snd (check_one (l_lib m) present us (keys_of_user m rf f (us_user us) d)) \<longleftrightarrow> \<not> holds m h rf f present us"
  by (auto simp: check_one_def holds_def Let_def)

lemma check_specs_client:
  assumes users: "plain_users h"
  shows "cached m h rf f0 files \<Longrightarrow>
    hoare (client L (\<lambda>f. f = f0)) (check_specs m h rf present specs files n)
      (\<lambda>(files', n') w. client L (\<lambda>f. f = f0) w \<and> cached m h rf f0 files' \<and> n' = n + failing m h rf f0 present specs)
      (\<lambda>err w. client L (\<lambda>f. f = f0) w \<and> exit_code (Inl err) = ExitPreflight)"
proof (induction specs arbitrary: files n)
  case Nil
  then show ?case by (auto intro!: hoare_ret simp: failing_def)
next
  case (Cons us rest)
  let ?C = "client L (\<lambda>f. f = f0)" and ?E = "\<lambda>err w. client L (\<lambda>f. f = f0) w \<and> exit_code (Inl err) = ExitPreflight"
  let ?R = "\<lambda>fp w. (\<exists>u g d. h_users h (us_user us) = Some (u, g, d) \<and> fp = keys_of_user m rf f0 (us_user us) d) \<and> ?C w"
  have body: "hoare (?R fp) (let (line, violated) = check_one (l_lib m) present us fp in
     andThen (say line) (\<lambda>_. check_specs m h rf present rest (files(us_user us \<mapsto> fp)) (if violated then Suc n else n)))
    (\<lambda>(files', n') w. ?C w \<and> cached m h rf f0 files' \<and> n' = n + failing m h rf f0 present (us # rest)) ?E" for fp
  proof (rule hoare_assume, elim exE conjE)
    fix u g d assume u: "h_users h (us_user us) = Some (u, g, d)" and fp: "fp = keys_of_user m rf f0 (us_user us) d"
    have c: "cached m h rf f0 (files(us_user us \<mapsto> fp))" using Cons.prems u fp by (auto simp: cached_def)
    obtain line violated where one: "check_one (l_lib m) present us fp = (line, violated)" by fastforce
    have "violated \<longleftrightarrow> \<not> holds m h rf f0 present us"
      using check_one_holds [OF u, of m present rf f0] one fp by simp
    then have count: "n + failing m h rf f0 present (us # rest) =
        (if violated then Suc n else n) + failing m h rf f0 present rest"
      by (simp add: failing_def)
    show "hoare ?C (let (line, violated) = check_one (l_lib m) present us fp in
       andThen (say line) (\<lambda>_. check_specs m h rf present rest (files(us_user us \<mapsto> fp)) (if violated then Suc n else n)))
      (\<lambda>(files', n') w. ?C w \<and> cached m h rf f0 files' \<and> n' = n + failing m h rf f0 present (us # rest)) ?E"
      unfolding one Let_def prod.case count by (rule hoare_andThen [OF say_client Cons.IH [OF c]])
  qed
  show ?case
    unfolding check_specs.simps
    by (rule hoare_andThen [OF hoare_weaken [OF check_load_client [OF users Cons.prems]] body]) (assumption | simp)+
qed

lemma check_cmd_run:
  assumes "check_cmd m h rf present absent w = (r, w')"
  shows "(w' = w \<and> exit_code r \<in> {ExitUsage, ExitPreflight}) \<or>
    (\<exists>ps as. parse_user_specs m (w_local w) present = Inr ps \<and> parse_user_specs m (w_local w) absent = Inr as \<and>
       check_assertions m h rf ps as w = (r, w'))"
  using assms credentials_run [of m h rf w]
  by (auto simp: check_cmd_def comp_defs lift_run dial_run split: sum.splits if_splits)

lemma check_assertions_client:
  assumes users: "plain_users h" and bad: "bad = failing m h rf f0 True ps + failing m h rf f0 False as"
  shows "hoare (client L (\<lambda>f. f = f0)) (check_assertions m h rf ps as)
    (\<lambda>_ w. client L (\<lambda>f. f = f0) w \<and> bad = 0)
    (\<lambda>err w. client L (\<lambda>f. f = f0) w \<and>
       (exit_code (Inl err) = ExitPreflight \<or> exit_code (Inl err) = ExitAbortedReverted \<and> bad \<noteq> 0))"
proof -
  let ?C = "client L (\<lambda>f. f = f0)"
  let ?Q = "\<lambda>_ w. ?C w \<and> bad = 0"
    and ?E = "\<lambda>err w. ?C w \<and> (exit_code (Inl err) = ExitPreflight \<or> exit_code (Inl err) = ExitAbortedReverted \<and> bad \<noteq> 0)"
  have loop: "hoare ?C (andThen (check_specs m h rf b specs files n) k) ?Q ?E"
    if "cached m h rf f0 files" and
      "\<And>files'. cached m h rf f0 files' \<Longrightarrow> hoare ?C (k (files', n + failing m h rf f0 b specs)) ?Q ?E" for b specs files n k
  proof (rule hoare_andThen [where R = "\<lambda>x w. (case x of (files', n') \<Rightarrow> cached m h rf f0 files' \<and> n' = n + failing m h rf f0 b specs) \<and> ?C w"])
    show "hoare ?C (check_specs m h rf b specs files n)
      (\<lambda>x w. (case x of (files', n') \<Rightarrow> cached m h rf f0 files' \<and> n' = n + failing m h rf f0 b specs) \<and> ?C w) ?E"
      by (rule hoare_weaken [OF check_specs_client [OF users that(1)]]) auto
  next
    fix x
    show "hoare (\<lambda>w. (case x of (files', n') \<Rightarrow> cached m h rf f0 files' \<and> n' = n + failing m h rf f0 b specs) \<and> ?C w) (k x) ?Q ?E"
      by (rule hoare_assume) (use that(2) in \<open>auto split: prod.splits\<close>)
  qed
  show ?thesis
    unfolding check_assertions_def
    by (rule loop, simp add: cached_def, simp only: prod.case, rule loop, assumption)
      (auto intro!: hoare_throw hoare_ret simp: bad)
qed

text \<open>
  C35: check writes nothing; it exits with 0 only if every assertion holds of the files on the
  host, and with 1 only if one of them does not; every other failure has another code.
\<close>

theorem check_verdict:
  assumes "plain_users h" and "unguarded w" and "check_cmd m h rf present absent w = (r, w')"
  shows "w_fs w' = w_fs w \<and>
    (exit_code r \<in> {ExitUsage, ExitPreflight} \<or>
     (\<exists>ps as. parse_user_specs m (w_local w) present = Inr ps \<and> parse_user_specs m (w_local w) absent = Inr as \<and>
       exit_code r = (if list_all (holds m h rf (w_fs w) True) ps \<and> list_all (holds m h rf (w_fs w) False) as
                      then ExitOK else ExitAbortedReverted)))"
  using check_cmd_run [OF assms(3)]
proof (elim disjE exE conjE)
  fix ps as
  assume specs: "parse_user_specs m (w_local w) present = Inr ps" "parse_user_specs m (w_local w) absent = Inr as"
    and run: "check_assertions m h rf ps as w = (r, w')"
  let ?bad = "failing m h rf (w_fs w) True ps + failing m h rf (w_fs w) False as"
  have w: "client (w_local w) (\<lambda>f. f = w_fs w) w" using assms(2) by (simp add: client_def)
  have none: "failing m h rf (w_fs w) b specs = 0 \<longleftrightarrow> list_all (holds m h rf (w_fs w) b) specs" for b specs
    by (auto simp: failing_def filter_empty_conv list_all_iff)
  note out = check_assertions_client [OF assms(1) refl [of ?bad], of "w_local w"]
  have "w_fs w' = w_fs w \<and> (exit_code r = ExitPreflight \<or> exit_code r = (if ?bad = 0 then ExitOK else ExitAbortedReverted))"
    using hoare_Inl [OF out w] hoare_Inr [OF out w] run by (cases r) (auto simp: client_def)
  with specs none show ?thesis by auto
qed auto

lemma toy_check:
  "exit_code (fst (check_cmd toy_machine calm toy_flags [] [''al=k1''] toy_console)) = 0"
  by code_simp

theorem check_verdict_witness:
  "w_fs (snd (check_cmd toy_machine calm toy_flags [] [''al=k1''] toy_console)) = w_fs toy_console \<and>
   (\<exists>as. parse_user_specs toy_machine (w_local toy_console) [''al=k1''] = Inr as \<and>
      list_all (holds toy_machine calm toy_flags (w_fs toy_console) False) as)"
proof -
  have un: "unguarded toy_console" by (simp add: unguarded_def toy_console_def world.extend_def calm_world_def Let_def)
  have "plain_word ''7''" "plain_word ''/h''" by (simp_all add: plain_word_def ascii_char_def ascii_space_def)
  then have "plain_users calm" by (simp add: plain_users_def calm_def calm_host_def)
  from check_verdict [OF this un surjective_pairing, of toy_machine toy_flags "[]" "[''al=k1'']"] toy_check show ?thesis
    by (auto simp: exit_codes split: if_splits)
qed

end
