(* ===== verification/Tx_Guarantees.thy ===== *)
theory Tx_Guarantees
  imports Toy_Host
begin

text \<open>
  The guarantees of a run that fails, with an example run each: a host, a world and a request
  on which the hypotheses hold.
\<close>

section \<open>Before the first edit\<close>

lemma unedited_unchanged:
  assumes "fresh_names h" and "closed (w_fs w)" and "absolute (base_dir c)"
    and run: "run_tx h c (start_txn w c) = (Inr res, t)" and "r_outcome res \<in> {NothingChanged, DryRun}"
  shows "\<exists>d. has_prefix d (base_dir c @ ''/sshkeytx-'' @ c_txid c @ ''.'') \<and>
    (\<forall>q. \<not> below d q \<longrightarrow> w_fs t q = w_fs w q)"
proof -
  let ?c = "with_defaults c" and ?p = "tx_prefix (base_dir c) (c_txid c)" and ?s = "start_txn w c"
  obtain b where b: "c_tmp ?c = CHR ''/'' # b" using absoluteE [OF assms(3)] by (auto simp: base_dir_def)
  note result = prepare_result [OF assms(1,2) b, of "c_ops c", folded base_dir_def]
  obtain z t1 where prep: "prepare h c ?s = (z, t1)" by fastforce
  have "aside ?p (w_fs w) t"
  proof (cases "validate ?c = None")
    case False
    then have "t = ?s" using run by (auto simp: run_tx_def Let_def ret_def)
    then show ?thesis by (simp only: begun_aside [OF start_begun(1)])
  next
    case valid: True
    show ?thesis
    proof (cases z)
      case (Inl err)
      have t1: "aside ?p (w_fs w) t1" by (rule hoare_Inl [OF result start_begun(1) prep [unfolded Inl]])
      from run_tx_failed [OF valid prep [unfolded Inl] run] consider "t = t1"
        | "finish h ?c NothingChanged (Some err) t1 = (Inr res, t)"
        | "andThen (connect_cleanup h) (\<lambda>_. finish h ?c NothingChanged (Some err)) t1 = (Inr res, t)"
        by blast
      then show ?thesis
      proof cases
        case 2
        from hoare_Inr [OF finish_aside t1 2] show ?thesis .
      next
        case 3
        from hoare_Inr [OF release_aside t1 3] show ?thesis .
      qed (use t1 in simp)
    next
      case (Inr x)
      then have prep': "prepare h c ?s = (Inr (), t1)" using prep by simp
      have con: "conclude h ?c t1 = (Inr res, t)"
        using run_tx_prepared [OF valid prep'] run by simp
      have "filed t1" using hoare_Inr [OF prepare_filed _ prep'] by simp
      from conclude_ok [OF this con] assms(5) have dry: "c_dry ?c" by (cases "c_dry ?c") auto
      have t1: "aside ?p (w_fs w) t1"
        using hoare_Inr [OF result start_begun(1) prep'] loading_aside by blast
      have "andThen (connect_cleanup h) (\<lambda>_. finish h ?c DryRun None) t1 = (Inr res, t)"
        using con dry by (simp add: conclude_def release_guard_no_changes_def)
      from hoare_Inr [OF release_aside t1 this] show ?thesis .
    qed
  qed
  from aside_outside [OF this] show ?thesis .
qed

text \<open>
  C10: a run that ends before its first edit (an error while connecting or loading, or a dry
  run) has changed nothing on the host but a directory of its own, whatever faults it met.
\<close>

theorem unchanged_before_edits:
  assumes "fresh_names h" and "closed (w_fs w)" and "absolute (base_dir c)"
    and run: "run_tx h c (start_txn w c) = (Inr res, t)" and "r_outcome res \<in> {NothingChanged, DryRun}"
  shows "\<exists>d. has_prefix d (base_dir c @ ''/sshkeytx-'' @ c_txid c @ ''.'') \<and>
    (\<forall>q. \<not> below d q \<longrightarrow> w_fs t q = w_fs w q)"
  using assms by (rule unedited_unchanged)

section \<open>What is loaded\<close>

text \<open>
  C12: after loading, the transaction knows one file for every user an operation names, in the order of
  their names; it has recorded of each whether it exists, and its exact bytes, and the host's
  file is still the one of the start.
\<close>

theorem load_complete:
  assumes "fresh_names h" and "closed (w_fs w)" and "absolute (base_dir c)"
    and "prepare h c (start_txn w c) = (Inr (), t1)" and "placed t1"
  shows "dom (x_files t1) = op_user ` set (c_ops c) \<and> sorted (x_order t1) \<and> distinct (x_order t1) \<and>
    set (x_order t1) = dom (x_files t1) \<and>
    (\<forall>u uf. x_files t1 u = Some uf \<longrightarrow>
       file_is (w_fs w) (u_path uf) (u_orig_exists uf) (u_orig uf) \<and> w_fs t1 (u_path uf) = w_fs w (u_path uf) \<and>
       \<not> is_link (w_fs t1) (u_path uf) \<and> \<not> is_link (w_fs t1) (dir_of (u_path uf)))"
proof -
  obtain g d where g: "staging (tx_prefix (base_dir c) (c_txid c)) (w_fs w) g d"
    "loading g d (c_ops c) (user_names (c_ops c)) t1"
    by (rule prepared_loading [OF assms(1-4)])
  have same: "w_fs t1 (u_path uf) = w_fs w (u_path uf)" if "x_files t1 u = Some uf" for u uf
    using placedD(3) [OF assms(5) that] g by (simp add: good_place_def staging_def outside_def loading_def quiet_def)
  show ?thesis
    using g(2) same original_start [OF assms]
    by (simp add: loading_def quiet_def loaded_def user_names_def)
qed

section \<open>A run that aborts\<close>

lemma all_originalD:
  assumes "all_original (origins t1) t" and "x_files t1 u = Some uf"
  shows "file_is (w_fs t) (u_path uf) (u_orig_exists uf) (u_orig uf)"
proof -
  have "origins t1 u = Some (u_path uf, u_orig_exists uf, u_orig uf)"
    using assms(2) by (simp add: origins_def)
  with assms(1) show ?thesis unfolding all_original_def by blast
qed

lemma aborted_original:
  assumes "sound_trap h" "fresh_names h" "no_signals h" and "disjoint_ops (c_ops c)"
    and "closed (w_fs w)" and "absolute (base_dir c)"
    and "prepare h c (start_txn w c) = (Inr (), t1)" and "placed t1"
    and "run_tx h c (start_txn w c) = (Inr res, t)" and "r_outcome res = AbortedReverted"
    and uf: "x_files t1 u = Some uf"
  shows "file_is (w_fs w) (u_path uf) (u_orig_exists uf) (u_orig uf) \<and>
    file_is (w_fs t) (u_path uf) (u_orig_exists uf) (u_orig uf)"
proof
  show "file_is (w_fs w) (u_path uf) (u_orig_exists uf) (u_orig uf)"
    by (rule original_start [OF assms(2,5-8) uf])
  have "all_original (origins t1) t"
    using run_aborts [OF assms(1-9)] assms(10) by auto
  from all_originalD [OF this uf] show "file_is (w_fs t) (u_path uf) (u_orig_exists uf) (u_orig uf)" .
qed


lemma unverified_ends:
  assumes "sound_trap h" "fresh_names h" "no_signals h" and "disjoint_ops (c_ops c)"
    and "closed (w_fs w)" and "absolute (base_dir c)"
    and "prepare h c (start_txn w c) = (Inr (), t1)" and "placed t1"
    and "run_tx h c (start_txn w c) = (Inr res, t)" and "r_outcome res = RevertUnverified"
    and armed: "w_guard t = Armed d" "\<not> is_file (w_fs t) (d @ ''/commit'')" and e: "no_faults e"
    and ends: "sessions e d (Reading, script_start h (w_fs t) []) (Ended k, v)"
    and uf: "x_files t1 u = Some uf"
  shows "file_is (s_fs v) (u_path uf) (u_orig_exists uf) (u_orig uf)"
proof -
  have "safe (frame_of (w_fs w) t1) (origins t1) t" using run_aborts [OF assms(1-9)] assms(10) by auto
  then obtain D es torn where inv: "inv (frame_of (w_fs w) t1) D es torn t" and known: "known (origins t1) t"
    by (auto simp: safe_def)
  have d: "d = x_txdir t" using invD(2) [OF inv armed(1)] .
  have "known (origins t1) (t\<lparr>w_fs := s_fs v\<rparr>)"
    using known by (simp add: known_def origins_def)
  then have "all_original (origins t1) (t\<lparr>w_fs := s_fs v\<rparr>)"
    using inv_original [OF session_restored [OF inv e armed(2) [unfolded d] ends [unfolded d]]] by blast
  from all_originalD [OF this uf] show ?thesis by simp
qed

lemma unverified_trap_restores:
  assumes "sound_trap h" "fresh_names h" "no_signals h" and "disjoint_ops (c_ops c)"
    and "closed (w_fs w)" and "absolute (base_dir c)"
    and "prepare h c (start_txn w c) = (Inr (), t1)" and "placed t1"
    and "run_tx h c (start_txn w c) = (Inr res, t)" and "r_outcome res = RevertUnverified"
    and armed: "w_guard t = Armed d" "\<not> is_file (w_fs t) (d @ ''/commit'')" and e: "no_faults e"
    and uf: "x_files t1 u = Some uf"
  shows "file_is (w_fs (settle h e t)) (u_path uf) (u_orig_exists uf) (u_orig uf)"
  using unverified_ends [OF assms(1-13) session_closes [OF e] uf] armed(1) by (simp add: settle_def fire_def)


section \<open>An example\<close>

text \<open>The connection is found dead after the file has been swapped; or all answers are lost from then on.\<close>

definition lost_host :: host where
  "lost_host = calm_host (\<lambda>n. 13 \<le> n) (\<lambda>_. False)"

definition mute_host :: host where
  "mute_host = calm_host (\<lambda>_. False) (\<lambda>n. 13 \<le> n)"

definition prepared_ok :: "host \<Rightarrow> bool \<Rightarrow> bool" where
  "prepared_ok h dry \<longleftrightarrow>
     (case prepare h (add_config dry) (add_start dry) of (r, t) \<Rightarrow>
        (case r of Inl _ \<Rightarrow> False | Inr _ \<Rightarrow> True) \<and> x_txdir t = ''/t/sshkeytx-1.AAAAAAAA'' \<and> x_order t = [''al''] \<and>
        map_option (\<lambda>uf. (u_user uf, u_path uf, u_orig_exists uf)) (x_files t ''al'') = Some (''al'', ''/h/k'', False))"

lemma lost_prepared: "prepared_ok lost_host False"
  by code_simp

lemma mute_prepared: "prepared_ok mute_host False"
  by code_simp

lemma good_place_example: "good_place ''/t/sshkeytx-1.AAAAAAAA'' ''/h/k''"
  by code_simp

lemma al_placed:
  assumes "fresh_names h" and "closed (w_fs w)"
    and p: "prepare h (add_config dry) (start_txn w (add_config dry)) = (Inr (), t1)"
    and uf: "x_files t1 ''al'' = Some uf" "u_path uf = ''/h/k''" "u_user uf = ''al''"
    and d: "x_txdir t1 = ''/t/sshkeytx-1.AAAAAAAA''" and o: "x_order t1 = [''al'']"
  shows "placed t1" and "targets t1 = {''/h/k''}"
proof -
  obtain g e where "loading g e (c_ops (add_config dry)) (user_names (c_ops (add_config dry))) t1"
    using prepared_loading [OF assms(1,2) add_config_ok(2) p] by blast
  then have "dom (x_files t1) = set (x_order t1)" by (simp add: loading_def)
  then have dom: "dom (x_files t1) = {''al''}" by (simp add: o)
  have only: "u = ''al'' \<and> vf = uf" if "x_files t1 u = Some vf" for u vf
  proof -
    have "u \<in> dom (x_files t1)" using that by blast
    with dom that uf(1) show ?thesis by simp
  qed
  have "u_path uf \<in> targets t1" unfolding targets_def using uf(1) by blast
  moreover have "q = u_path uf" if "q \<in> targets t1" for q
    using that only unfolding targets_def by blast
  ultimately show "targets t1 = {''/h/k''}" using uf(2) by (metis singleton_iff subsetI subset_antisym)
  have v: "valid_username ''al''" "plain_path ''/t/sshkeytx-1.AAAAAAAA''"
    "''/h/k'' \<notin> set (ancestors (dir_of ''/h/k''))" by code_simp+
  show "placed t1"
    unfolding placed_def d
  proof (intro conjI allI impI)
    fix u vf assume "x_files t1 u = Some vf"
    from only [OF this] show "u_user vf = u" "valid_username u" "good_place ''/t/sshkeytx-1.AAAAAAAA'' (u_path vf)"
      using uf v(1) good_place_example by auto
  next
    fix u w vf wf assume "x_files t1 u = Some vf" "x_files t1 w = Some wf"
    with only have "u = w" "vf = uf" "wf = uf" by blast+
    then show "u_path vf = u_path wf \<Longrightarrow> u = w" "u_path wf \<notin> set (ancestors (dir_of (u_path vf)))"
      using uf v(3) by simp_all
  qed (use v in simp_all)
qed

lemma prepared_facts:
  assumes "prepared_ok h dry" and "fresh_names h"
  defines "t1 \<equiv> snd (prepare h (add_config dry) (add_start dry))"
  shows "prepare h (add_config dry) (add_start dry) = (Inr (), t1)" and "placed t1"
    and "\<exists>uf. x_files t1 ''al'' = Some uf \<and> u_path uf = ''/h/k'' \<and> \<not> u_orig_exists uf"
    and "targets t1 = {''/h/k''}" and "x_txdir t1 = ''/t/sshkeytx-1.AAAAAAAA''"
proof -
  show p: "prepare h (add_config dry) (add_start dry) = (Inr (), t1)"
    using assms(1) by (auto simp: prepared_ok_def t1_def split: prod.splits sum.splits)
  obtain uf where uf: "x_files t1 ''al'' = Some uf" "u_path uf = ''/h/k''" "\<not> u_orig_exists uf" "u_user uf = ''al''"
    and d: "x_txdir t1 = ''/t/sshkeytx-1.AAAAAAAA''" and o: "x_order t1 = [''al'']"
    using assms(1) by (auto simp: prepared_ok_def t1_def split: prod.splits)
  then show "\<exists>uf. x_files t1 ''al'' = Some uf \<and> u_path uf = ''/h/k'' \<and> \<not> u_orig_exists uf" by blast
  from al_placed [OF assms(2) calm_world_closed p uf(1,2,4) d o] d
  show "placed t1" "targets t1 = {''/h/k''}" "x_txdir t1 = ''/t/sshkeytx-1.AAAAAAAA''" by simp_all
qed

lemma dry_run:
  "case run_tx lost_host (add_config True) (add_start True) of (r, t) \<Rightarrow>
     (case r of Inl _ \<Rightarrow> False | Inr res \<Rightarrow> r_outcome res = DryRun)"
  by code_simp

theorem unchanged_before_edits_witness:
  "\<exists>d. has_prefix d ''/t/sshkeytx-1.'' \<and>
     (\<forall>q. \<not> below d q \<longrightarrow> w_fs (snd (run_tx lost_host (add_config True) (add_start True))) q = w_fs calm_world q)"
proof -
  obtain res t where run: "run_tx lost_host (add_config True) (add_start True) = (Inr res, t)" "r_outcome res = DryRun"
    using dry_run by (auto split: prod.splits sum.splits)
  have dir: "base_dir (add_config True) = ''/t''" "c_txid (add_config True) = ''1''"
    by (simp_all add: base_dir_def add_config_def with_defaults_def)
  from unchanged_before_edits [OF calm_host_ok(2) [of "\<lambda>n. 13 \<le> n" "\<lambda>_. False", folded lost_host_def]
      calm_world_closed add_config_ok(2) run(1)] run
  show ?thesis by (simp add: dir)
qed

theorem load_complete_witness:
  "dom (x_files (snd (prepare lost_host (add_config False) (add_start False)))) = {''al''}"
proof -
  note p = prepared_facts [OF lost_prepared calm_host_ok(2) [of "\<lambda>n. 13 \<le> n" "\<lambda>_. False", folded lost_host_def]]
  have "c_ops (add_config False) = [hd (c_ops (add_config False))]" "op_user (hd (c_ops (add_config False))) = ''al''"
    by (simp_all add: add_config_def)
  then have "op_user ` set (c_ops (add_config False)) = {''al''}" by (metis image_empty image_insert list.set)
  with load_complete [OF calm_host_ok(2) [of "\<lambda>n. 13 \<le> n" "\<lambda>_. False", folded lost_host_def] calm_world_closed
      add_config_ok(2) p(1,2)]
  show ?thesis by simp
qed

lemma lost_run:
  "case run_tx lost_host (add_config False) (add_start False) of (r, t) \<Rightarrow>
     (case r of Inl _ \<Rightarrow> False | Inr res \<Rightarrow> r_outcome res = AbortedReverted)"
  by code_simp

lemma mute_run:
  "case run_tx mute_host (add_config False) (add_start False) of (r, t) \<Rightarrow>
     (case r of Inl _ \<Rightarrow> False | Inr res \<Rightarrow> r_outcome res = RevertUnverified) \<and>
     w_guard t = Armed ''/t/sshkeytx-1.AAAAAAAA'' \<and> w_fs t ''/t/sshkeytx-1.AAAAAAAA/commit'' = None"
  by code_simp



section \<open>The number of connections of a probe\<close>

lemma dial_tick: "dial h v srv tg k t = (r, t') \<Longrightarrow> w_tick t' = Suc (w_tick t)"
  by (auto simp: dial_def Let_def guard_step_def fire_def split: guard_state.splits guard_event.splits)

lemma retry_ticks:
  assumes "\<And>t r t'. m t = (r, t') \<Longrightarrow> w_tick t' = Suc (w_tick t)"
  shows "retry n m t = (r, t') \<Longrightarrow> w_tick t < w_tick t' \<and> w_tick t' \<le> w_tick t + Suc n \<and>
    (w_tick t' = w_tick t + Suc n \<or> (\<exists>res. r = Inr res))"
proof (induction n arbitrary: t)
  case 0
  then show ?case using assms by auto
next
  case (Suc n)
  obtain z s where z: "m t = (z, s)" by fastforce
  show ?case
  proof (cases z)
    case (Inl err)
    then have "retry n m s = (r, t')" using Suc.prems z by (simp add: andThen_def attempt_def)
    from Suc.IH [OF this] assms [OF z] show ?thesis by auto
  next
    case (Inr res)
    then show ?thesis using Suc.prems assms [OF z] z by (auto simp: andThen_def attempt_def ret_def)
  qed
qed

text \<open>
  C38: a probe makes between one and three connections, and ends without a verdict only after
  the third.
\<close>

theorem probe_bounded:
  "case probe h c u k t of (r, t') \<Rightarrow> w_tick t < w_tick t' \<and> w_tick t' \<le> w_tick t + 3 \<and>
     (w_tick t' = w_tick t + 3 \<or> (\<exists>res. r = Inr res))"
proof (cases "probe h c u k t")
  case (Pair r t')
  then have "retry 2 (dial h probe_key (h_query h) (with_user (c_target c) u) k) t = (r, t')"
    by (simp add: probe_def probe_verdict_def probe_attempts_def)
  from retry_ticks [OF _ this] dial_tick Pair show ?thesis by fastforce
qed

section \<open>The recovery invariant\<close>


lemma lost_phases:
  "case phases lost_host (with_defaults (add_config False)) (snd (prepare lost_host (add_config False) (add_start False))) of
     (r, s) \<Rightarrow> (case r of Inl _ \<Rightarrow> True | Inr _ \<Rightarrow> False) \<and> w_fs s ''/h/k'' \<noteq> None"
  by code_simp


end
