(* ===== verification/Cli_Apply.thy ===== *)
theory Cli_Apply
  imports Cli_Facts Tx_Guarantees
begin

text \<open>
  From the command line to the transaction and back: the arguments of apply, the request
  they make, what the exit codes 1 and 4 promise; the verdict of probe; and where restore is
  stricter than apply.
\<close>

section \<open>Arguments\<close>

lemma username_no_eq: "valid_username u \<Longrightarrow> u \<noteq> [] \<and> CHR ''='' \<notin> set u"
  by (cases u) (auto simp: valid_username_def name_start_def char_in_def list_all_iff)

text \<open>
  A \<^verbatim>\<open>user=KEY\<close> argument with a valid user is read as that user and exactly the text after
  the first equals sign; its key is what that text, or the trimmed file it names, specifies.
\<close>

theorem user_spec_roundtrip:
  assumes "valid_username u"
  shows "parse_user_spec m d (u @ CHR ''='' # v) =
    (case spec_value m d v of
       None \<Rightarrow> Inl (KeyFileUnreadable v)
     | Some x \<Rightarrow>
         (case parse_key_spec (l_lib m) x of
            Inl e \<Rightarrow> Inl (SpecKey (u @ CHR ''='' # v) e)
          | Inr (mt, comment, options) \<Rightarrow>
              Inr \<lparr>us_user = u, us_spec = v, us_matcher = mt, us_key = m_key mt, us_comment = comment, us_options = options\<rparr>))"
  using assms username_no_eq [OF assms] index_of_append [of "CHR ''=''" u v]
  by (simp add: parse_user_spec_def Let_def)

theorem user_spec_roundtrip_witness:
  "parse_user_spec toy_machine Map.empty ''al=k1'' =
     Inr \<lparr>us_user = ''al'', us_spec = ''k1'', us_matcher = by_key (PubKey ''k'' ''1''), us_key = Some (PubKey ''k'' ''1''),
       us_comment = [], us_options = []\<rparr>"
proof -
  have u: "valid_username ''al''" by code_simp
  have v: "spec_value toy_machine Map.empty ''k1'' = Some ''k1''" by code_simp
  have k: "parse_key_spec (l_lib toy_machine) ''k1'' = Inr (by_key (PubKey ''k'' ''1''), [], [])" by code_simp
  show ?thesis
    using user_spec_roundtrip [OF u, of toy_machine Map.empty "''k1''"] by (simp add: v k by_key_def)
qed

lemma parse_user_spec_Inr:
  assumes "parse_user_spec m d a = Inr us"
  shows "valid_username (us_user us) \<and> us_key us = m_key (us_matcher us)"
  using assms by (auto simp: parse_user_spec_def Let_def split: option.splits if_splits sum.splits prod.splits)

lemma parse_user_specs_Inr:
  "parse_user_specs m d as = Inr us \<Longrightarrow> length us = length as \<and> list_all (\<lambda>x. valid_username (us_user x)) us"
  by (induction as arbitrary: us) (auto split: sum.splits dest: parse_user_spec_Inr)

section \<open>The request of apply\<close>

text \<open>The configuration apply hands to the transaction.\<close>

definition requested :: "machine \<Rightarrow> disk \<Rightarrow> root_flags \<Rightarrow> apply_flags \<Rightarrow> config \<Rightarrow> bool" where
  "requested m d rf af c \<longleftrightarrow>
     (af_removes af \<noteq> [] \<or> af_adds af \<noteq> []) \<and>
     (\<exists>t rs as signers. target_or_err rf = Inr t \<and> parse_user_specs m d (af_removes af) = Inr rs \<and>
        parse_user_specs m d (af_adds af) = Inr as \<and> list_all (\<lambda>us. us_key us \<noteq> None) as \<and>
        verify_signers m d (af_verify af) (rf_no_agent rf) = Inr signers \<and>
        c = apply_config m rf t (map (op_of RemoveKey) rs @ map (op_of AddKey) as) signers (af_backup af) (af_dry af))"

lemma validate_ops_append: "validate_ops (xs @ ys) = (case validate_ops xs of None \<Rightarrow> validate_ops ys | Some e \<Rightarrow> Some e)"
  by (induction xs rule: validate_ops.induct) auto

lemma validate_ops_specs:
  "list_all (\<lambda>x. valid_username (us_user x)) us \<Longrightarrow> a = AddKey \<longrightarrow> list_all (\<lambda>x. us_key x \<noteq> None) us \<Longrightarrow>
    validate_ops (map (op_of a) us) = None"
  by (induction us) (auto simp: op_of_def)

lemma requested_valid: "requested m d rf af c \<Longrightarrow> c_ops c \<noteq> [] \<and> validate_ops (c_ops c) = None"
  by (auto simp: requested_def apply_config_def validate_ops_append validate_ops_specs dest!: parse_user_specs_Inr)

text \<open>
  C34: whatever apply hands to the transaction is well formed: the only request it can still
  refuse is one that adds a key it also removes.
\<close>

theorem requested_ops_valid:
  assumes "requested m d rf af c"
  shows "c_ops c \<noteq> [] \<and> list_all (\<lambda>p. valid_username (op_user p) \<and> (op_action p = AddKey \<longrightarrow> op_key p \<noteq> None)) (c_ops c) \<and>
    validate (with_defaults c) = reject_self_cancelling (c_lib c) (c_ops c) (c_ops c)"
proof -
  have "validate_ops ps = None \<Longrightarrow>
    list_all (\<lambda>p. valid_username (op_user p) \<and> (op_action p = AddKey \<longrightarrow> op_key p \<noteq> None)) ps" for ps
    by (induction ps) (auto split: if_splits)
  with requested_valid [OF assms] show ?thesis by (simp add: validate_def with_defaults_def)
qed

lemma find_no_key: "find (\<lambda>us. us_key us = None) as = None \<longleftrightarrow> list_all (\<lambda>us. us_key us \<noteq> None) as"
  by (auto simp: find_None_iff list_all_iff)

definition outcome_code :: "outcome \<Rightarrow> nat" where
  "outcome_code out =
     (case out of
        Committed \<Rightarrow> 0 | DryRun \<Rightarrow> 0 | AbortedReverted \<Rightarrow> 1 | RevertUnverified \<Rightarrow> 3 | NothingChanged \<Rightarrow> 4)"

lemma call_run_result:
  "\<exists>res t. run_tx h c (start_txn (world.truncate w) c) = (Inr res, t) \<and> call_run m h c w = (Inr res, absorb m t w)"
  using run_tx_result [of h c "world.truncate w"] by (auto simp: call_run_def)

lemma apply_result_code: "exit_code (fst (apply_result c res w)) = outcome_code (r_outcome res)"
  and apply_result_fs: "w_fs (snd (apply_result c res w)) = w_fs w"
  by (simp_all add: apply_result_def outcome_code_def say_def comp_defs exit_codes split: outcome.splits)

lemma apply_run:
  assumes "apply_cmd m h rf af w = (r, w')"
  shows "(w' = w \<and> exit_code r = ExitUsage) \<or>
    (\<exists>c res t. requested m (w_local w) rf af c \<and> run_tx h c (start_txn (world.truncate w) c) = (Inr res, t) \<and>
       w_fs w' = w_fs t \<and> exit_code r = outcome_code (r_outcome res))"
proof (cases "w' = w \<and> exit_code r = ExitUsage")
  case False
  then obtain t rs as signers where
    args: "target_or_err rf = Inr t" "af_removes af \<noteq> [] \<or> af_adds af \<noteq> []"
      "parse_user_specs m (w_local w) (af_removes af) = Inr rs" "parse_user_specs m (w_local w) (af_adds af) = Inr as"
      "find (\<lambda>us. us_key us = None) as = None" "verify_signers m (w_local w) (af_verify af) (rf_no_agent rf) = Inr signers"
    and run: "andThen (call_run m h (apply_config m rf t (map (op_of RemoveKey) rs @ map (op_of AddKey) as) signers
        (af_backup af) (af_dry af))) (apply_result (apply_config m rf t (map (op_of RemoveKey) rs @ map (op_of AddKey) as) signers
        (af_backup af) (af_dry af))) w = (r, w')"
    using assms credentials_run [of m h rf w]
    by (auto simp: apply_cmd_def andThen_def gets_def throw_def lift_run Let_def split: sum.splits if_splits option.splits)
  let ?c = "apply_config m rf t (map (op_of RemoveKey) rs @ map (op_of AddKey) as) signers (af_backup af) (af_dry af)"
  obtain res u where res: "run_tx h ?c (start_txn (world.truncate w) ?c) = (Inr res, u)"
    "call_run m h ?c w = (Inr res, absorb m u w)"
    using call_run_result by blast
  then have "apply_result ?c res (absorb m u w) = (r, w')" using run by (simp add: andThen_def)
  with apply_result_code [of ?c res "absorb m u w"] apply_result_fs [of ?c res "absorb m u w"]
  have "w_fs w' = w_fs u" "exit_code r = outcome_code (r_outcome res)" by (simp_all add: absorb_def)
  moreover have "requested m (w_local w) rf af ?c"
    using args by (auto simp: requested_def find_no_key)
  ultimately show ?thesis using res(1) by blast
qed simp

lemma apply_request:
  assumes "requested m (w_local w) rf af c" and "credentials m h rf w = (Inr (), w)"
    and "run_tx h c (start_txn (world.truncate w) c) = (Inr res, t)"
  shows "exit_code (fst (apply_cmd m h rf af w)) = outcome_code (r_outcome res)"
proof -
  from assms(1) obtain tg rs as signers where
    args: "target_or_err rf = Inr tg" "af_removes af \<noteq> [] \<or> af_adds af \<noteq> []"
      "parse_user_specs m (w_local w) (af_removes af) = Inr rs" "parse_user_specs m (w_local w) (af_adds af) = Inr as"
      "find (\<lambda>us. us_key us = None) as = None" "verify_signers m (w_local w) (af_verify af) (rf_no_agent rf) = Inr signers"
    and c: "c = apply_config m rf tg (map (op_of RemoveKey) rs @ map (op_of AddKey) as) signers (af_backup af) (af_dry af)"
    by (auto simp: requested_def find_no_key)
  have "call_run m h c w = (Inr res, absorb m t w)" using assms(3) by (simp add: call_run_def)
  then have "apply_cmd m h rf af w = apply_result c res (absorb m t w)"
    using args assms(2) by (auto simp: apply_cmd_def andThen_def gets_def lift_run Let_def c)
  then show ?thesis using apply_result_code by simp
qed

section \<open>The exit codes of apply\<close>

text \<open>
  C31: apply either ends with a usage error and has touched nothing, or runs one transaction
  to its end, leaves the host as that left it, and exits with the code of its outcome.
\<close>

theorem apply_exit_codes:
  "case apply_cmd m h rf af w of (r, w') \<Rightarrow>
     (w' = w \<and> exit_code r = ExitUsage) \<or>
     (\<exists>c res t. requested m (w_local w) rf af c \<and> run_tx h c (start_txn (world.truncate w) c) = (Inr res, t) \<and>
        w_fs w' = w_fs t \<and> exit_code r = outcome_code (r_outcome res))"
  using apply_run [of m h rf af w] by (auto split: prod.splits)

lemma outcome_code_cases:
  "outcome_code out = ExitPreflight \<longleftrightarrow> out = NothingChanged"
  "outcome_code out = ExitAbortedReverted \<longleftrightarrow> out = AbortedReverted"
  "outcome_code out = ExitRevertUnverified \<longleftrightarrow> out = RevertUnverified"
  "outcome_code out \<noteq> ExitUsage"
  by (simp_all add: outcome_code_def exit_codes split: outcome.splits)

lemma truncate_fs [simp]: "w_fs (world.truncate w) = w_fs w"
  by (simp add: world.truncate_def)

lemma requested_fields:
  "requested m d rf af c \<Longrightarrow> c_txid c = l_txid m \<and> c_dry c = af_dry af \<and> base_dir c = (if rf_tmp rf = [] then ''/tmp'' else rf_tmp rf)"
  by (auto simp: requested_def apply_config_def base_dir_def with_defaults_def)

lemma requested_unique: "requested m d rf af c \<Longrightarrow> requested m d rf af c' \<Longrightarrow> c = c'"
  by (auto simp: requested_def)

text \<open>
  C32: exit code 4 (and 2), and any dry run, mean what the documentation says: nothing on the
  host has changed but a directory of the transaction's own.
\<close>

theorem apply_preflight_unchanged:
  assumes "fresh_names h" and "closed (w_fs w)" and "absolute (if rf_tmp rf = [] then ''/tmp'' else rf_tmp rf)"
    and run: "apply_cmd m h rf af w = (r, w')" and code: "exit_code r \<in> {ExitUsage, ExitPreflight} \<or> af_dry af"
  shows "\<exists>d. has_prefix d ((if rf_tmp rf = [] then ''/tmp'' else rf_tmp rf) @ ''/sshkeytx-'' @ l_txid m @ ''.'') \<and>
    (\<forall>q. \<not> below d q \<longrightarrow> w_fs w' q = w_fs w q)"
  using apply_run [OF run]
proof (elim disjE exE conjE)
  assume "w' = w"
  moreover have "has_prefix (p @ x) p" for p x :: string by (simp add: has_prefix_iff)
  ultimately show ?thesis by (metis append.right_neutral)
next
  fix c res t
  assume req: "requested m (w_local w) rf af c" and res: "run_tx h c (start_txn (world.truncate w) c) = (Inr res, t)"
    and fs: "w_fs w' = w_fs t" and ec: "exit_code r = outcome_code (r_outcome res)"
  note f = requested_fields [OF req]
  have "r_outcome res \<in> (if c_dry c then {DryRun, NothingChanged}
        else {Committed, AbortedReverted, RevertUnverified, NothingChanged})"
    using run_tx_result [of h c "world.truncate w"] res by auto
  then have "r_outcome res \<in> {NothingChanged, DryRun}"
    using code ec f outcome_code_cases by auto
  from unedited_unchanged [OF assms(1) _ _ res this] assms(2,3) f fs show ?thesis by simp
qed


section \<open>An example\<close>

definition toy_apply :: apply_flags where
  "toy_apply = \<lparr>af_removes = [], af_adds = [''al=k1''], af_verify = [], af_backup = ''/b'', af_dry = False\<rparr>"

definition calm_console :: console where
  "calm_console = world.extend calm_world \<lparr>k_out = []\<rparr>"

lemma calm_console_simps: "world.truncate calm_console = calm_world" "w_local calm_console = Map.empty" "w_fs calm_console = w_fs calm_world"
  by (simp_all add: calm_console_def calm_world_def world.extend_def world.truncate_def Let_def)

lemma toy_requested: "requested toy_machine Map.empty toy_flags toy_apply (add_config False)"
proof -
  obtain t rs as ss where args: "target_or_err toy_flags = Inr t" "parse_user_specs toy_machine Map.empty (af_removes toy_apply) = Inr rs"
    "parse_user_specs toy_machine Map.empty (af_adds toy_apply) = Inr as"
    "verify_signers toy_machine Map.empty (af_verify toy_apply) (rf_no_agent toy_flags) = Inr ss"
    and keys: "list_all (\<lambda>us. us_key us \<noteq> None) as"
    and c: "add_config False = apply_config toy_machine toy_flags t (map (op_of RemoveKey) rs @ map (op_of AddKey) as) ss
        (af_backup toy_apply) (af_dry toy_apply)"
  proof -
    show thesis
    proof (rule that)
      show "target_or_err toy_flags = Inr \<lparr>tg_user = ''al'', tg_host = ''s'', tg_port = ''22''\<rparr>" by code_simp
      show "parse_user_specs toy_machine Map.empty (af_removes toy_apply) = Inr []" by code_simp
      show "parse_user_specs toy_machine Map.empty (af_adds toy_apply) =
        Inr [\<lparr>us_user = ''al'', us_spec = ''k1'', us_matcher = by_key (PubKey ''k'' ''1''), us_key = Some (PubKey ''k'' ''1''),
              us_comment = [], us_options = []\<rparr>]" by code_simp
      show "verify_signers toy_machine Map.empty (af_verify toy_apply) (rf_no_agent toy_flags) = Inr []" by code_simp
    qed (simp_all add: add_config_def apply_config_def toy_flags_def toy_machine_def toy_apply_def op_of_def default_flags_def)
  qed
  then show ?thesis by (auto simp: requested_def toy_apply_def)
qed

theorem requested_ops_valid_witness:
  "validate (with_defaults (add_config False)) = reject_self_cancelling toy_lib (c_ops (add_config False)) (c_ops (add_config False))"
  using requested_ops_valid [OF toy_requested] by (simp add: add_config_def)

lemma refused_run:
  "exit_code (fst (apply_cmd toy_machine (calm\<lparr>h_login := False\<rparr>) toy_flags toy_apply calm_console)) = 4"
  by code_simp

theorem apply_preflight_unchanged_witness:
  "\<exists>d. has_prefix d ''/t/sshkeytx-1.'' \<and>
    (\<forall>q. \<not> below d q \<longrightarrow>
      w_fs (snd (apply_cmd toy_machine (calm\<lparr>h_login := False\<rparr>) toy_flags toy_apply calm_console)) q = w_fs calm_world q)"
proof -
  have f: "rf_tmp toy_flags = ''/t''" "l_txid toy_machine = ''1''"
    by (simp_all add: toy_flags_def toy_machine_def)
  have h: "fresh_names (calm\<lparr>h_login := False\<rparr>)"
    using calm_host_ok(2) [of "\<lambda>_. False" "\<lambda>_. False", folded calm_def] by (simp add: fresh_names_def)
  show ?thesis
    using apply_preflight_unchanged [OF h _ _ surjective_pairing, of calm_console toy_flags toy_machine toy_apply]
      refused_run calm_world_closed
    by (simp add: f calm_console_simps exit_codes absolute_def has_prefix_iff)
qed

lemma toy_apply_code:
  assumes "credentials toy_machine h toy_flags calm_console = (Inr (), calm_console)"
    and "run_tx h (add_config False) (add_start False) = (Inr res, t)"
  shows "exit_code (fst (apply_cmd toy_machine h toy_flags toy_apply calm_console)) = outcome_code (r_outcome res)"
proof (rule apply_request [OF _ assms(1)])
  show "requested toy_machine (w_local calm_console) toy_flags toy_apply (add_config False)"
    using toy_requested by (simp add: calm_console_simps)
  show "run_tx h (add_config False) (start_txn (world.truncate calm_console) (add_config False)) = (Inr res, t)"
    using assms(2) by (simp only: calm_console_simps)
qed

lemma toy_credentials: "credentials toy_machine h toy_flags calm_console = (Inr (), calm_console)"
proof -
  have "insecure \<lparr>known_hosts_files = fs, pinned_sha256 = fp, insecure = True\<rparr>" for fs fp by simp
  then have "\<exists>x. host_key toy_machine h Map.empty toy_flags = Inr x"
    by (auto simp: host_key_def policy_callback_def toy_flags_def)
  moreover have "case cli_auth_methods toy_machine Map.empty toy_flags of Inl _ \<Rightarrow> False | Inr _ \<Rightarrow> True" by code_simp
  ultimately show ?thesis
    by (auto simp: credentials_def andThen_def gets_def ret_def lift_run calm_console_simps split: sum.splits)
qed

lemma lost_apply: "exit_code (fst (apply_cmd toy_machine lost_host toy_flags toy_apply calm_console)) = 1"
proof -
  obtain res t where "run_tx lost_host (add_config False) (add_start False) = (Inr res, t)" "r_outcome res = AbortedReverted"
    using lost_run by (auto split: prod.splits sum.splits)
  with toy_apply_code [OF toy_credentials this(1)] show ?thesis
    by (simp add: outcome_code_def exit_codes)
qed


section \<open>probe\<close>

text \<open>Whether the server, asked at time \<open>n\<close>, would take the key.\<close>

definition taken :: "host \<Rightarrow> fs \<Rightarrow> target \<Rightarrow> nat \<Rightarrow> user_spec \<Rightarrow> bool" where
  "taken h f t n us \<longleftrightarrow>
     (case us_key us of None \<Rightarrow> False | Some k \<Rightarrow> d_asked (h_query h n f (with_user t (us_user us)) k))"

fun refusals :: "host \<Rightarrow> fs \<Rightarrow> target \<Rightarrow> nat \<Rightarrow> user_spec list \<Rightarrow> nat" where
  "refusals h f t n [] = 0"
| "refusals h f t n (us # rest) = (if taken h f t n us then 0 else 1) + refusals h f t (Suc n) rest"

lemma dial_unguarded:
  "unguarded w \<Longrightarrow> dial h v srv t k w = (v t (srv (w_tick w) (w_fs w) t k), w\<lparr>w_tick := Suc (w_tick w)\<rparr>)"
  by (simp add: dial_def guard_step_unguarded)

lemma probe_specs_run:
  assumes "unguarded w" and "probe_specs m h t specs n w = (r, w')"
  shows "w_fs w' = w_fs w \<and>
    (case r of
       Inl err \<Rightarrow> exit_code (Inl err) \<in> {ExitUsage, ExitPreflight}
     | Inr n' \<Rightarrow> n' = n + refusals h (w_fs w) t (w_tick w) specs)"
  using assms
proof (induction specs arbitrary: n w)
  case Nil
  then show ?case by (auto simp: ret_def)
next
  case (Cons us rest)
  show ?case
  proof (cases "us_key us")
    case None
    then show ?thesis using Cons.prems by (auto simp: throw_def)
  next
    case (Some k)
    let ?u = "with_user t (us_user us)"
    let ?d = "h_query h (w_tick w) (w_fs w) ?u k"
    have d: "dial h probe_key (h_query h) ?u k w = (probe_key ?u ?d, w\<lparr>w_tick := Suc (w_tick w)\<rparr>)"
      by (rule dial_unguarded [OF Cons.prems(1)])
    show ?thesis
    proof (cases "probe_key ?u ?d")
      case (Inl e)
      then show ?thesis using Cons.prems Some d by (auto simp: andThen_def preflight_def wrap_err_def)
    next
      case (Inr res)
      then have acc: "accepted res \<longleftrightarrow> d_asked ?d" by (auto simp: probe_key_def split: if_splits option.splits)
      let ?w = "w\<lparr>w_tick := Suc (w_tick w), k_out := k_out w @ [Verdict (accepted res) (us_user us) (fingerprint (l_lib m) k) (detail res)]\<rparr>"
      have "probe_specs m h t rest (if accepted res then n else Suc n) ?w = (r, w')"
        using Cons.prems(2) Some d Inr by (simp add: andThen_def preflight_def wrap_err_def say_def modify_def)
      from Cons.IH [OF _ this] Cons.prems(1) acc show ?thesis
        by (auto simp: taken_def Some split: sum.splits)
    qed
  qed
qed


lemma toy_probe: "exit_code (fst (probe_cmd toy_machine calm toy_flags [''al=k1''] calm_console)) = 0"
  by code_simp


section \<open>restore is stricter than apply\<close>

text \<open>
  C37: restore leaves the entry user's ids empty, so under a root guard it refuses every file
  of another user in a directory that is not root's own, whoever owns the file; apply
  writes the same file when its owner is that user.
\<close>

theorem restore_refuses_owned:
  "(check_write_target (restore_target t uid f info dir) \<noteq> None \<longleftrightarrow>
     uid = ''0'' \<and> mf_user f \<noteq> tg_user t \<and> i_exists info \<and> i_uid info \<noteq> [] \<and>
     \<not> root_managed (restore_target t uid f info dir)) \<and>
   check_write_target (target_of (uid = ''0'') c (mf_user f) (i_uid info) gid info dir) = None"
  by (rule conjI, auto simp: check_write_target_def restore_target_def) (simp add: check_write_target_def target_of_def)

end
