(* ===== verification/Tx_Current.thy ===== *)
theory Tx_Current
  imports Tx_Safety
begin

text \<open>
  Files that agree with their working copies.  While the guard session stays (\<open>steady\<close>), every
  file the transaction knows holds what its working copy renders to, but for the users whose
  edit is under way.  Only successful steps matter here: the rules say nothing of the state
  after an error.
\<close>

section \<open>Files that agree with their working copies\<close>

definition steady :: "host \<Rightarrow> bool" where
  "steady h \<longleftrightarrow> (\<forall>n. h_guard h n = Stays)"

lemma steady_step [simp]: "steady h \<Longrightarrow> guard_step h t = t"
  by (simp add: guard_step_def steady_def split: guard_state.splits)

abbreviation succeeds ::
  "('s \<Rightarrow> bool) \<Rightarrow> ('s, 'e, 'a) comp \<Rightarrow> ('a \<Rightarrow> 's \<Rightarrow> bool) \<Rightarrow> bool" where
  "succeeds P m Q \<equiv> hoare P m Q (\<lambda>_ _. True)"

lemma succeeds_attempt:
  "succeeds P m Q \<Longrightarrow> succeeds P (attempt m) (\<lambda>r t. case r of Inl _ \<Rightarrow> True | Inr x \<Rightarrow> Q x t)"
  by (rule hoare_attempt) simp

lemma succeeds_run:
  assumes "steady h"
    and "\<And>t n r f out. P t \<Longrightarrow> script (w_tick t) (h_fault h (w_tick t)) (w_fs t) = (r, f, out) \<Longrightarrow> ctl_ok r \<Longrightarrow>
      Q out (t\<lparr>w_tick := n, w_fs := f\<rparr>)"
  shows "succeeds P (run_with h script) Q"
  by (rule hoare_run_with [where P' = P]) (use assms in \<open>auto split: sum.splits dest!: answer_Inr\<close>)

definition up_to_date :: "fs \<Rightarrow> user_file \<Rightarrow> bool" where
  "up_to_date f uf \<longleftrightarrow> file_is f (u_path uf) (u_orig_exists uf \<or> u_dirty uf) (render_file (u_work uf))"

definition bak_ok :: "string \<Rightarrow> user_file \<Rightarrow> bool" where
  "bak_ok d uf \<longleftrightarrow> (u_manifested uf \<longrightarrow> u_bak uf = backup_path d uf)"

text \<open>The files of all users outside \<open>S\<close> agree with their working copies.\<close>

definition curr :: "string set \<Rightarrow> txn \<Rightarrow> bool" where
  "curr S t \<longleftrightarrow>
     placed t \<and> (\<forall>d. w_guard t = Armed d \<longrightarrow> d = x_txdir t) \<and> txdir_ok (w_fs t) (x_txdir t) \<and>
     (\<forall>u uf. x_files t u = Some uf \<longrightarrow> regular (w_fs t) (u_path uf) \<and> bak_ok (x_txdir t) uf \<and>
        (u \<notin> S \<longrightarrow> up_to_date (w_fs t) uf))"

lemma currD:
  assumes "curr S t"
  shows "placed t" and "w_guard t = Armed d \<Longrightarrow> d = x_txdir t" and "txdir_ok (w_fs t) (x_txdir t)"
    and "x_files t u = Some uf \<Longrightarrow> regular (w_fs t) (u_path uf)"
    and "x_files t u = Some uf \<Longrightarrow> u \<notin> S \<Longrightarrow> up_to_date (w_fs t) uf"
    and "x_files t u = Some uf \<Longrightarrow> bak_ok (x_txdir t) uf"
  using assms by (simp_all add: curr_def)

lemma curr_upd [simp]:
  "curr S (t\<lparr>w_tick := n\<rparr>) = curr S t" "curr S (t\<lparr>w_local := l\<rparr>) = curr S t"
  "curr S (t\<lparr>x_rootly := b\<rparr>) = curr S t" "curr S (t\<lparr>x_ops := y\<rparr>) = curr S t"
  by (simp_all add: curr_def placed_def)

lemma curr_tick_fs [simp]: "curr S (t\<lparr>w_tick := n, w_fs := f\<rparr>) = curr S (t\<lparr>w_fs := f\<rparr>)"
  by (simp add: curr_def placed_def)

lemma placed_fs [simp]: "placed (t\<lparr>w_fs := f\<rparr>) = placed t"
  by (simp add: placed_def)

text \<open>A write in the transaction directory changes none of the files.\<close>

lemma curr_write_aside:
  assumes c: "curr S t" and q: "below (x_txdir t) q" "q \<noteq> x_txdir t" "q \<noteq> x_txdir t @ ''/backup''"
    and g: "only {q} (w_fs t) g" "regular g q"
  shows "curr S (t\<lparr>w_fs := g\<rparr>)"
proof -
  have same: "p \<noteq> q \<Longrightarrow> g p = w_fs t p" for p using g(1) by (simp add: only_def)
  have "txdir_ok g (x_txdir t)"
    using currD(3) [OF c] g(2) q same unfolding txdir_ok_def regular_def by metis
  moreover have "g (u_path uf) = w_fs t (u_path uf)" if "x_files t u = Some uf" for u uf
    using placedD(3) [OF currD(1) [OF c] that] q(1) by (intro same) (auto simp: good_place_def)
  ultimately show ?thesis
    using c by (simp add: curr_def regular_def up_to_date_def file_is_def)
qed

text \<open>Nor does the swap of one user's file change any other.\<close>

lemma curr_write_target:
  assumes c: "curr S t" and uf: "x_files t u = Some uf"
    and fr: "swap_frame e (u_path uf) wo (w_fs t) g" and e: "fresh_ok (e_fresh e)" and p: "regular g (u_path uf)"
  shows "curr (insert u S) (t\<lparr>w_fs := g\<rparr>)"
proof -
  let ?d = "x_txdir t" and ?p = "u_path uf"
  note pl = currD(1) [OF c]
  have place: "good_place ?d ?p" using placedD(3) [OF pl uf] .
  have same: "g q = w_fs t q" if "q \<noteq> ?p" "q \<noteq> swap_tmp e ?p" "q \<notin> swap_dirs ?p wo" for q
    using fr that by (simp add: swap_frame_def only_def)
  have d: "g ?d = w_fs t ?d"
  proof -
    have "?d \<noteq> ?p" "w_fs t ?d \<noteq> None" using currD(3) [OF c] place by (auto simp: txdir_ok_def good_place_def)
    then have "((w_fs t)(?p := None)) ?d \<noteq> None" by simp
    then have "(g(?p := None)) ?d = ((w_fs t)(?p := None)) ?d"
      using fr unfolding swap_frame_def grows_def by blast
    then show ?thesis using \<open>?d \<noteq> ?p\<close> by simp
  qed
  have in_tx: "g q = w_fs t q" if "below ?d q" for q
  proof (cases "q = ?d")
    case False
    show ?thesis
      using place that swap_tmp_outside [OF place e that False] swap_dirs_outside [OF place that]
      by (intro same) (auto simp: good_place_def)
  qed (simp add: d)
  have tx: "txdir_ok g ?d"
    using currD(3) [OF c] in_tx unfolding txdir_ok_def regular_def by simp
  have others: "g (u_path vf) = w_fs t (u_path vf)" if v: "x_files t v = Some vf" "v \<noteq> u" for v vf
  proof (rule same)
    show "u_path vf \<noteq> ?p" using placedD(4) [OF pl v(1) uf] v(2) by auto
    show "u_path vf \<noteq> swap_tmp e ?p" using good_place_not_tmp [OF placedD(3) [OF pl v(1)] e] .
    show "u_path vf \<notin> swap_dirs ?p wo"
      using placedD(5) [OF pl uf v(1)] by (simp add: swap_dirs_def)
  qed
  have "regular g (u_path vf) \<and> bak_ok ?d vf \<and> (v \<notin> insert u S \<longrightarrow> up_to_date g vf)" if v: "x_files t v = Some vf" for v vf
    using others [OF v] currD(4-6) [OF c v] p uf v
    by (cases "v = u") (auto simp: regular_def up_to_date_def file_is_def)
  then show ?thesis using c tx by (simp add: curr_def)
qed

lemma curr_mark:
  assumes "curr S t" and "x_files t u = Some uf" and "same_file uf vf" and "u \<in> S \<or> up_to_date (w_fs t) vf"
    and "bak_ok (x_txdir t) vf"
  shows "curr S (t\<lparr>x_files := (x_files t)(u \<mapsto> vf)\<rparr>)"
  using assms placed_set_file [OF currD(1) [OF assms(1)] assms(2,3)]
  by (auto simp: curr_def same_file_def)

lemma curr_settled:
  "curr (insert u S) t \<Longrightarrow> x_files t u = Some uf \<Longrightarrow> up_to_date (w_fs t) uf \<Longrightarrow> curr (S - {u}) t"
  unfolding curr_def by (metis DiffI insertE option.inject singletonD)

interpretation current: observer h "\<lambda>t. steady h \<and> curr S t \<and> x_is fm t0 t" for h S fm t0
  by unfold_locales (auto simp: x_is_def)

section \<open>The operations of the transaction\<close>

lemma tx_write_curr:
  assumes st: "steady h" and d: "d = x_txdir t0" and q: "below d q" "q \<noteq> d" "q \<noteq> d @ ''/backup''"
  shows "succeeds (\<lambda>t. curr S t \<and> x_is fm t0 t) (write_file h q content)
      (\<lambda>_ t. (curr S t \<and> x_is fm t0 t) \<and> (\<exists>a. w_fs t q = Some (Reg content a)))"
    and "succeeds (\<lambda>t. curr S t \<and> x_is fm t0 t) (append_file h q content) (\<lambda>_ t. curr S t \<and> x_is fm t0 t)"
proof -
  have reg: "regular (w_fs t) q" if "curr S t" "x_is fm t0 t" for t
    using currD(3) [OF that(1)] that(2) q by (simp add: txdir_ok_def x_is_def d)
  then have link: "\<not> is_link (s_fs (script_start h (w_fs t) content)) q" if "curr S t" "x_is fm t0 t" for t
    using that by (fastforce simp: regular_def)
  have aside: "curr S (t\<lparr>w_fs := g\<rparr>)" if "curr S t" "x_is fm t0 t" "only {q} (w_fs t) g" "regular g q" for t g
    by (rule curr_write_aside [OF that(1) _ _ _ that(3,4)]) (use q that(2) in \<open>simp_all add: x_is_def d\<close>)
  show "succeeds (\<lambda>t. curr S t \<and> x_is fm t0 t) (write_file h q content)
      (\<lambda>_ t. (curr S t \<and> x_is fm t0 t) \<and> (\<exists>a. w_fs t q = Some (Reg content a)))"
    unfolding write_file_def run_def
  proof (rule hoare_andThen [OF succeeds_run [OF st] hoare_ret])
    fix t n r f out
    assume t: "curr S t \<and> x_is fm t0 t" and ok: "ctl_ok r"
      and "script_of h (write_cmd q) content (w_tick t) (h_fault h (w_tick t)) (w_fs t) = (r, f, out)"
    then obtain s' where e: "exec (script_env h (h_fault h (w_tick t))) (write_cmd q) (script_start h (w_fs t) content) = (r, s')"
      and f: "f = s_fs s'" by (auto simp: script_of_exec)
    note w = exec_write_cmd [OF e link, simplified, folded f]
    have "\<exists>a. f q = Some (Reg content a)" using w(3) t ok by blast
    moreover from this have "regular f q" by (auto simp: regular_def)
    ultimately show "(curr S (t\<lparr>w_tick := n, w_fs := f\<rparr>) \<and> x_is fm t0 (t\<lparr>w_tick := n, w_fs := f\<rparr>)) \<and>
        (\<exists>a. w_fs (t\<lparr>w_tick := n, w_fs := f\<rparr>) q = Some (Reg content a))"
      using aside [of t f] w(1) t by simp
  qed
  show "succeeds (\<lambda>t. curr S t \<and> x_is fm t0 t) (append_file h q content) (\<lambda>_ t. curr S t \<and> x_is fm t0 t)"
    unfolding append_file_def run_def
  proof (rule hoare_andThen [OF succeeds_run [OF st] hoare_ret])
    fix t n r f out
    assume t: "curr S t \<and> x_is fm t0 t" and ok: "ctl_ok r"
      and "script_of h (append_cmd q) content (w_tick t) (h_fault h (w_tick t)) (w_fs t) = (r, f, out)"
    then obtain s' where e: "exec (script_env h (h_fault h (w_tick t))) (append_cmd q) (script_start h (w_fs t) content) = (r, s')"
      and f: "f = s_fs s'" by (auto simp: script_of_exec)
    note w = exec_append_cmd [OF e link, simplified, folded f]
    have "regular f q" using w(3) t ok by (auto simp: regular_def)
    then show "curr S (t\<lparr>w_tick := n, w_fs := f\<rparr>) \<and> x_is fm t0 (t\<lparr>w_tick := n, w_fs := f\<rparr>)"
      using aside [of t f] w(1) t by simp
  qed
qed

lemma swap_file_curr:
  assumes st: "steady h" "fresh_names h" and uf: "fm u = Some uf"
  shows "succeeds (\<lambda>t. curr S t \<and> x_is fm t0 t) (swap_file h (u_path uf) c wo)
    (\<lambda>_ t. (curr (insert u S) t \<and> x_is fm t0 t) \<and> (\<exists>a. w_fs t (u_path uf) = Some (Reg c a)))"
    (is "succeeds ?P _ (\<lambda>_. ?Q)")
proof (cases "SQ \<in> set (u_path uf)")
  case True
  have "\<not> ?P t" for t
  proof
    assume t: "?P t"
    then have "x_files t u = Some uf" using uf by (simp add: x_is_def)
    with t have "good_place (x_txdir t) (u_path uf)" using placedD(3) currD(1) by blast
    with True show False by (simp add: good_place_def)
  qed
  then show ?thesis unfolding hoare_def by blast
next
  case False
  have run: "succeeds ?P (run h (swap_cmd (u_path uf) wo') c) (\<lambda>_. ?Q)" for wo'
    unfolding run_def
  proof (rule succeeds_run [OF st(1)])
    fix t n r f out
    assume t: "?P t" and ok: "ctl_ok r"
      and "script_of h (swap_cmd (u_path uf) wo') c (w_tick t) (h_fault h (w_tick t)) (w_fs t) = (r, f, out)"
    then obtain s' where e: "exec (script_env h (h_fault h (w_tick t))) (swap_cmd (u_path uf) wo') (script_start h (w_fs t) c) = (r, s')"
      and f: "f = s_fs s'" by (auto simp: script_of_exec)
    have c: "curr S t" and x: "x_files t u = Some uf" using t uf by (auto simp: x_is_def)
    have place: "good_place (x_txdir t) (u_path uf)" by (rule placedD(3) [OF currD(1) [OF c] x])
    have fr: "fresh_ok (e_fresh (script_env h (h_fault h (w_tick t))))" using st(2) by (simp add: fresh_names_def)
    have dirs: "u_path uf \<notin> swap_dirs (u_path uf) wo'"
      using placedD(5) [OF currD(1) [OF c] x x] by (simp add: swap_dirs_def)
    have nd: "\<forall>a. s_fs (script_start h (w_fs t) c) (u_path uf) \<noteq> Some (Dir a)"
      using currD(4) [OF c x] by (auto simp: regular_def)
    note at = swap_atomic [OF fr good_place_not_tmp [OF place fr, symmetric] dirs nd e, folded f]
    have new: "\<exists>a. f (u_path uf) = Some (Reg c a)" using at ok by auto
    have "curr (insert u S) (t\<lparr>w_fs := f\<rparr>)"
      by (rule curr_write_target [OF c x _ fr]) (use at new in \<open>auto simp: regular_def\<close>)
    then show "?Q (t\<lparr>w_tick := n, w_fs := f\<rparr>)" using new t by simp
  qed
  show ?thesis
    unfolding swap_file_def Let_def if_not_P [OF False]
    by (intro hoare_option hoare_throw hoare_andThen [OF run hoare_ret]) simp_all
qed

section \<open>Copies and swaps\<close>

lemma local_curr:
  "keeps (\<lambda>t. curr S t \<and> x_is fm t0 t) (local_mkdir h)" "keeps (\<lambda>t. curr S t \<and> x_is fm t0 t) (local_write h p c)"
  by (rule keepsI, simp add: local_mkdir_def local_write_def x_is_def)+

lemma succeeds_keeps: "keeps P m \<Longrightarrow> succeeds P m (\<lambda>_. P)"
  by (erule hoare_weaken) simp_all

lemma succeeds_wrap: "succeeds P m Q \<Longrightarrow> succeeds P (wrap_err g m) Q"
  by (rule hoare_wrap_err)

lemma succeeds_then: "succeeds P m (\<lambda>_. R) \<Longrightarrow> (\<And>x. succeeds R (k x) Q) \<Longrightarrow> succeeds P (andThen m k) Q"
  by (rule hoare_ignore)

lemma set_file_curr:
  assumes "fm u = Some uf" and "same_file uf vf" and "\<And>f. u \<in> S \<or> (up_to_date f uf \<longrightarrow> up_to_date f vf)"
    and "bak_ok (x_txdir t0) uf \<Longrightarrow> bak_ok (x_txdir t0) vf"
  shows "succeeds (\<lambda>t. curr S t \<and> x_is fm t0 t) (set_file u vf) (\<lambda>_ t. curr S t \<and> x_is (fm(u \<mapsto> vf)) t0 t)"
proof (rule hoare_set_file)
  fix t assume t: "curr S t \<and> x_is fm t0 t"
  then have uf: "x_files t u = Some uf" using assms(1) by (simp add: x_is_def)
  then have "u \<in> S \<or> up_to_date (w_fs t) vf" using assms(3) currD(5) t by blast
  moreover have "bak_ok (x_txdir t) vf" using assms(4) currD(6) [OF conjunct1 [OF t] uf] t by (simp add: x_is_def)
  ultimately show "curr S (t\<lparr>x_files := (x_files t)(u \<mapsto> vf)\<rparr>) \<and> x_is (fm(u \<mapsto> vf)) t0 (t\<lparr>x_files := (x_files t)(u \<mapsto> vf)\<rparr>)"
    using curr_mark [OF _ uf assms(2)] t by simp
qed

lemma up_to_date_bak [simp]:
  "up_to_date f (uf\<lparr>u_bak := b\<rparr>) = up_to_date f uf" "up_to_date f (uf\<lparr>u_manifested := m\<rparr>) = up_to_date f uf"
  by (simp_all add: up_to_date_def)

lemma gets_curr:
  "succeeds (\<lambda>t. curr S t \<and> x_is fm t0 t) (gets x_txdir) (\<lambda>d t. d = x_txdir t0 \<and> curr S t \<and> x_is fm t0 t)"
  by (rule hoare_gets) (simp add: x_is_def)

lemma backup_below_tx: "d = x_txdir t0 \<Longrightarrow> below d (backup_path d uf) \<and> backup_path d uf \<noteq> d \<and> backup_path d uf \<noteq> d @ ''/backup''"
  by (simp add: backup_not_special)

lemma first_copy_curr:
  assumes st: "steady h" and uf: "fm u = Some uf"
  shows "succeeds (\<lambda>t. curr S t \<and> x_is fm t0 t) (first_copy h u uf)
    (\<lambda>_ t. curr S t \<and> x_is (fm(u \<mapsto> armed_file (x_txdir t0) uf)) t0 t)"
proof -
  let ?P = "\<lambda>t. curr S t \<and> x_is fm t0 t" and ?d = "x_txdir t0"
  let ?vf = "uf\<lparr>u_bak := backup_path ?d uf\<rparr>"
  let ?P' = "\<lambda>t. curr S t \<and> x_is (fm(u \<mapsto> ?vf)) t0 t"
  have mark: "succeeds ?P (set_file u ?vf) (\<lambda>_. ?P')"
    by (rule set_file_curr, rule uf) (simp_all add: same_file_def bak_ok_def backup_path_def)
  have copy: "succeeds ?P' (if b then wrap_err g (write_file h (backup_path ?d uf) x) else ret ()) (\<lambda>_. ?P')" for b g x
    by (intro hoare_if succeeds_wrap hoare_ret, rule hoare_weaken [OF tx_write_curr(1) [OF st refl]])
      (auto simp: backup_not_special)
  have list: "succeeds ?P' (wrap_err g (append_file h (?d @ ''/manifest'') x)) (\<lambda>_. ?P')" for g x
    by (intro succeeds_wrap tx_write_curr(2) [OF st refl]) (simp_all add: below_def has_prefix_iff)
  have final: "succeeds ?P' (set_file u (?vf\<lparr>u_manifested := True\<rparr>)) (\<lambda>_ t. curr S t \<and> x_is (fm(u \<mapsto> armed_file ?d uf)) t0 t)"
    using set_file_curr [of "fm(u \<mapsto> ?vf)" u ?vf "?vf\<lparr>u_manifested := True\<rparr>" S t0]
    by (simp add: same_file_def armed_file_def bak_ok_def backup_path_def)
  have save: "succeeds ?P (if b then local_write h lp x else ret ()) (\<lambda>_. ?P)" for b lp x
    by (intro hoare_if hoare_ret succeeds_keeps local_curr)
  have bak: "u_bak (uf\<lparr>u_bak := x\<rparr>) = x" for x by simp
  show ?thesis
    unfolding first_copy_def Let_def
    apply (rule succeeds_then [OF succeeds_keeps [OF local_curr(1)]])
    apply (rule succeeds_then [where R = ?P], rule hoare_gets, assumption)
    apply (rule succeeds_then [OF save])
    apply (rule hoare_andThen [OF gets_curr], rule hoare_assume)
    apply (simp only: bak)
    apply (rule succeeds_then [OF mark], rule succeeds_then [OF copy], rule succeeds_then [OF list], rule final)
    done
qed

lemma later_copy_curr:
  assumes st: "steady h" and uf: "fm u = Some uf" "u_manifested uf"
  shows "succeeds (\<lambda>t. curr S t \<and> x_is fm t0 t) (later_copy h phase uf) (\<lambda>_ t. curr S t \<and> x_is fm t0 t)"
proof (rule hoare_at)
  fix t assume t: "curr S t \<and> x_is fm t0 t"
  let ?P = "\<lambda>t. curr S t \<and> x_is fm t0 t" and ?d = "x_txdir t0"
  have bak: "u_bak uf = backup_path ?d uf"
    using currD(6) [OF conjunct1 [OF t], of u uf] t uf by (simp add: x_is_def bak_ok_def)
  have read: "succeeds ?P (wrap_err g (read_file h p)) (\<lambda>_. ?P)" for g p
    using current.read_file_keeps [of h S fm t0] st by (intro succeeds_wrap succeeds_keeps) simp
  have store: "succeeds ?P (wrap_err g (write_file h (u_bak uf @ ''.pre-'' @ phase) x)) (\<lambda>_. ?P)" for g x
    unfolding bak
    by (intro succeeds_wrap, rule hoare_weaken [OF tx_write_curr(1) [OF st refl]])
      (auto simp: below_def has_prefix_iff backup_path_def)
  have "succeeds ?P (later_copy h phase uf) (\<lambda>_. ?P)"
    unfolding later_copy_def Let_def
    by (rule succeeds_then [OF read], simp only: split_beta, intro hoare_if hoare_ret, assumption,
        rule succeeds_then [OF store], rule succeeds_then [where R = ?P], rule hoare_gets, assumption)
      (rule succeeds_keeps [OF local_curr(2)])
  then show "succeeds (\<lambda>s. s = t) (later_copy h phase uf) (\<lambda>_. ?P)"
    by (rule hoare_weaken) (use t in auto)
qed

text \<open>After \<open>ensure_cas\<close> only the bookkeeping of the copy has changed in the user's record.\<close>

definition listed_as :: "user_file \<Rightarrow> user_file \<Rightarrow> bool" where
  "listed_as uf vf \<longleftrightarrow> same_file uf vf \<and> u_work vf = u_work uf \<and> u_dirty vf = u_dirty uf"

lemma ensure_cas_curr:
  assumes st: "steady h" and uf: "fm u = Some uf"
  shows "succeeds (\<lambda>t. curr S t \<and> x_is fm t0 t) (ensure_cas h u phase)
    (\<lambda>_ t. \<exists>vf. listed_as uf vf \<and> curr S t \<and> x_is (fm(u \<mapsto> vf)) t0 t)"
  unfolding ensure_cas_def
proof (rule hoare_with_file [where uf = uf], simp add: x_is_def uf, rule hoare_if)
  have "listed_as uf (armed_file (x_txdir t0) uf)" by (simp add: listed_as_def same_file_def armed_file_def)
  then show "succeeds (\<lambda>t. curr S t \<and> x_is fm t0 t) (first_copy h u uf)
    (\<lambda>_ t. \<exists>vf. listed_as uf vf \<and> curr S t \<and> x_is (fm(u \<mapsto> vf)) t0 t)"
    by (intro hoare_weaken [OF first_copy_curr [where fm = fm and u = u and uf = uf, OF st uf]]) auto
next
  assume "\<not> \<not> u_manifested uf"
  moreover have "listed_as uf uf" "fm(u \<mapsto> uf) = fm" using uf by (auto simp: listed_as_def same_file_def)
  ultimately show "succeeds (\<lambda>t. curr S t \<and> x_is fm t0 t) (later_copy h phase uf)
    (\<lambda>_ t. \<exists>vf. listed_as uf vf \<and> curr S t \<and> x_is (fm(u \<mapsto> vf)) t0 t)"
    by (intro hoare_weaken [OF later_copy_curr [where fm = fm and u = u and uf = uf, OF st uf]]) (auto intro!: exI [of _ uf])
qed

lemma swap_curr:
  assumes st: "steady h" "fresh_names h" and uf: "fm u = Some uf"
  shows "succeeds (\<lambda>t. curr (insert u S) t \<and> x_is fm t0 t) (swap h c u)
    (\<lambda>_ t. curr (S - {u}) t \<and> x_is (fm(u \<mapsto> uf\<lparr>u_dirty := True\<rparr>)) t0 t)"
proof -
  let ?vf = "uf\<lparr>u_dirty := True\<rparr>" and ?P = "\<lambda>t. curr (insert u S) t \<and> x_is (fm(u \<mapsto> uf\<lparr>u_dirty := True\<rparr>)) t0 t"
  let ?Q = "\<lambda>t. curr (S - {u}) t \<and> x_is (fm(u \<mapsto> ?vf)) t0 t"
  have mark: "succeeds (\<lambda>t. curr (insert u S) t \<and> x_is fm t0 t) (set_file u ?vf) (\<lambda>_. ?P)"
    by (rule set_file_curr, rule uf) (simp_all add: same_file_def bak_ok_def backup_path_def)
  have path: "u_path uf = u_path ?vf" by simp
  have sw: "succeeds ?P (swap_file h (u_path uf) (render_file (u_work uf)) wo) (\<lambda>_. ?Q)" for wo
    unfolding path
  proof (rule hoare_weaken [OF swap_file_curr [OF st, where u = u and uf = ?vf]])
    fix t assume t: "(curr (insert u (insert u S)) t \<and> x_is (fm(u \<mapsto> ?vf)) t0 t) \<and>
      (\<exists>a. w_fs t (u_path ?vf) = Some (Reg (render_file (u_work uf)) a))"
    then have "x_files t u = Some ?vf" "up_to_date (w_fs t) ?vf" by (auto simp: x_is_def up_to_date_def)
    then show "?Q t" using t curr_settled [of u S t ?vf] by simp
  qed simp_all
  have branch: "succeeds (\<lambda>t. case r of Inl _ \<Rightarrow> True | Inr x \<Rightarrow> ?Q t)
     (case r of Inr _ \<Rightarrow> ret () | Inl err \<Rightarrow>
         andThen (set_file u (if is_exit_error err then uf\<lparr>u_dirty := False\<rparr>
                              else uf\<lparr>u_dirty := True, u_unconfirmed := True\<rparr>)) (\<lambda>_. throw (SwapFailed p err))) (\<lambda>_. ?Q)" for r p
    by (cases r) (auto intro!: hoare_ret simp: hoare_def comp_defs set_file_def)
  show ?thesis
    unfolding swap_def
    by (rule hoare_with_file [where uf = uf], simp add: x_is_def uf, rule succeeds_then [OF mark],
        rule succeeds_then [where R = ?P], rule hoare_gets, assumption, rule hoare_andThen [OF succeeds_attempt [OF sw] branch])
qed

end
