(* ===== verification/Tx_Commit.thy ===== *)
theory Tx_Commit
  imports Tx_Current
begin

text \<open>
  What a committed run leaves on the host: the edits of the working copies are those the
  operations ask for, and the commit makes them final.
\<close>

section \<open>The edits\<close>

text \<open>The working copy of a user and whether the file has been written.\<close>

type_synonym copies = "string \<rightharpoonup> keyfile \<times> bool"

definition copies :: "txn \<Rightarrow> copies" where
  "copies t = (\<lambda>u. map_option (\<lambda>uf. (u_work uf, u_dirty uf)) (x_files t u))"

definition add_edit :: "sshlib \<Rightarrow> op list \<Rightarrow> keyfile \<times> bool \<Rightarrow> keyfile \<times> bool" where
  "add_edit L ops = (\<lambda>(f, d). case add_ops L ops f of (g, changed) \<Rightarrow> (g, d \<or> changed))"

definition remove_edit :: "sshlib \<Rightarrow> op list \<Rightarrow> keyfile \<times> bool \<Rightarrow> keyfile \<times> bool" where
  "remove_edit L ops = (\<lambda>(f, d). case remove_ops L ops f of (_, g, changed) \<Rightarrow> (g, d \<or> changed))"

lemma copies_upd [simp]: "copies (t\<lparr>w_tick := n\<rparr>) = copies t"
  by (simp add: copies_def)

lemma edits_Nil [simp]: "add_edit L [] = id" "remove_edit L [] = id"
  by (simp_all add: add_edit_def remove_edit_def fun_eq_iff)

lemma add_ops_unchanged: "add_ops L ops f = (g, False) \<Longrightarrow> g = f"
proof (induction ops arbitrary: f)
  case (Cons p ps)
  then show ?case
    by (cases "op_key p") (auto simp: Let_def add_key_def split: prod.splits if_splits)
qed simp

lemma render_remove_unchanged: "remove_keys L m f = (g, []) \<Longrightarrow> render_file g = render_file f"
  using remove_keys_unchanged [of L m f]
  by (auto simp: render_file_def remove_keys_def split: prod.splits)

lemma remove_ops_unchanged: "remove_ops L ops f = (ops', g, False) \<Longrightarrow> render_file g = render_file f"
proof (induction ops arbitrary: f ops')
  case (Cons p ps)
  then show ?case
    by (auto simp: Let_def split: prod.splits dest: render_remove_unchanged)
qed simp

section \<open>The phases\<close>

definition at :: "origins \<Rightarrow> op list \<Rightarrow> copies \<Rightarrow> txn \<Rightarrow> bool" where
  "at og ops K t \<longleftrightarrow> curr {} t \<and> known og t \<and> x_ops t = ops \<and> copies t = K"

lemma at_set:
  assumes "at og ops K t" and "x_files t u = Some uf" and "same_file uf vf" and "curr {} s"
    and "x_is ((x_files t)(u \<mapsto> vf)) t s"
  shows "at og ops (K(u \<mapsto> (u_work vf, u_dirty vf))) s"
proof -
  have "origins s = origins t"
    using assms(2,3,5) by (auto simp: origins_def x_is_def same_file_def fun_eq_iff)
  moreover have "dom (x_files s) = dom (x_files t)" using assms(2,5) by (auto simp: x_is_def)
  ultimately show ?thesis
    using assms by (auto simp: at_def known_def copies_def x_is_def)
qed

lemma at_more: "at og ops K t \<Longrightarrow> curr {} s \<Longrightarrow> world.more s = world.more t \<Longrightarrow> at og ops K s"
  using more_fields [of s t] by (simp add: at_def known_def copies_def origins_def)

interpretation standing: observer h "\<lambda>t. steady h \<and> at og ops K t" for h og ops K
proof unfold_locales
  fix t :: txn and n assume t: "steady h \<and> at og ops K t"
  then show "steady h \<and> at og ops K (guard_step h t)" by simp
  from t show "steady h \<and> at og ops K (t\<lparr>w_tick := n\<rparr>)"
    by (auto intro: at_more [of og ops K t] simp: at_def)
qed

lemma at_keeps: "steady h \<Longrightarrow> keeps (\<lambda>t. steady h \<and> at og ops K t) m \<Longrightarrow> succeeds (at og ops K) m (\<lambda>_. at og ops K)"
  by (erule hoare_weaken) auto

lemma succeeds_with_any:
  assumes "\<And>t uf. P t \<Longrightarrow> x_files t u = Some uf \<Longrightarrow> succeeds (\<lambda>s. s = t) (k uf) Q"
  shows "succeeds P (with_file u k) Q"
proof (rule hoare_with_any)
  fix uf show "succeeds (\<lambda>t. P t \<and> x_files t u = Some uf) (k uf) Q"
    by (rule hoare_at) (use assms in blast)
qed simp

text \<open>The working copy of a user is replaced; the file follows.\<close>

lemma curr_more: "curr S t \<Longrightarrow> S \<subseteq> S' \<Longrightarrow> curr S' t"
  unfolding curr_def by blast

lemma stage_work:
  assumes uf: "fm u = Some uf"
  shows "succeeds (\<lambda>t. curr {} t \<and> x_is fm t0 t) (set_file u (uf\<lparr>u_work := w\<rparr>))
      (\<lambda>_ t. curr {u} t \<and> x_is (fm(u \<mapsto> uf\<lparr>u_work := w\<rparr>)) t0 t)"
    and "render_file w = render_file (u_work uf) \<Longrightarrow>
      succeeds (\<lambda>t. curr {} t \<and> x_is fm t0 t) (set_file u (uf\<lparr>u_work := w\<rparr>))
      (\<lambda>_ t. curr {} t \<and> x_is (fm(u \<mapsto> uf\<lparr>u_work := w\<rparr>)) t0 t)"
proof -
  have "succeeds (\<lambda>t. curr {u} t \<and> x_is fm t0 t) (set_file u (uf\<lparr>u_work := w\<rparr>))
      (\<lambda>_ t. curr {u} t \<and> x_is (fm(u \<mapsto> uf\<lparr>u_work := w\<rparr>)) t0 t)"
    by (rule set_file_curr, rule uf) (simp_all add: same_file_def bak_ok_def backup_path_def)
  then show "succeeds (\<lambda>t. curr {} t \<and> x_is fm t0 t) (set_file u (uf\<lparr>u_work := w\<rparr>))
      (\<lambda>_ t. curr {u} t \<and> x_is (fm(u \<mapsto> uf\<lparr>u_work := w\<rparr>)) t0 t)"
    by (rule hoare_weaken) (auto intro: curr_more)
next
  assume w: "render_file w = render_file (u_work uf)"
  show "succeeds (\<lambda>t. curr {} t \<and> x_is fm t0 t) (set_file u (uf\<lparr>u_work := w\<rparr>))
      (\<lambda>_ t. curr {} t \<and> x_is (fm(u \<mapsto> uf\<lparr>u_work := w\<rparr>)) t0 t)"
    by (rule set_file_curr, rule uf) (simp_all add: same_file_def bak_ok_def backup_path_def up_to_date_def w)
qed

lemma swap_settles:
  assumes st: "steady h" "fresh_names h" and uf: "fm u = Some uf"
  shows "succeeds (\<lambda>t. curr {u} t \<and> x_is fm t0 t) (swap h c u)
    (\<lambda>_ t. curr {} t \<and> x_is (fm(u \<mapsto> uf\<lparr>u_dirty := True\<rparr>)) t0 t)"
  using swap_curr [where S = "{}" and fm = fm and u = u and uf = uf, OF st uf] by simp

text \<open>One edit of one file: the copy is made if need be, the working copy replaced, the file swapped.\<close>

lemma succeeds_ex: "(\<And>x. succeeds (P x) m Q) \<Longrightarrow> succeeds (\<lambda>s. \<exists>x. P x s) m Q"
  by (rule hoareI) (blast dest: hoare_Inr)+

lemma edited_at:
  assumes t: "at og ops K t" "x_files t u = Some uf" and vf: "listed_as uf vf"
    and s: "curr {} s" "x_is (fm(u \<mapsto> vf\<lparr>u_work := w, u_dirty := u_dirty vf \<or> b\<rparr>)) t s" "fm(u := None) = (x_files t)(u := None)"
  shows "at og ops (K(u \<mapsto> (w, u_dirty uf \<or> b))) s"
proof -
  let ?vf = "vf\<lparr>u_work := w, u_dirty := u_dirty vf \<or> b\<rparr>"
  have "fm(u \<mapsto> ?vf) = (x_files t)(u \<mapsto> ?vf)"
    using s(3) by (metis fun_upd_upd)
  moreover have "same_file uf ?vf" "u_dirty vf = u_dirty uf" using vf by (auto simp: listed_as_def same_file_def)
  ultimately show ?thesis using at_set [OF t, of ?vf s] s by simp
qed

definition upd_copy :: "string \<Rightarrow> (keyfile \<times> bool \<Rightarrow> keyfile \<times> bool) \<Rightarrow> copies \<Rightarrow> copies" where
  "upd_copy u g K = K(u := map_option g (K u))"

lemma upd_copy_id [simp]: "upd_copy u id K = K"
  by (simp add: upd_copy_def option.map_id)

lemma copies_at: "at og ops K t \<Longrightarrow> x_files t u = Some uf \<Longrightarrow> K u = Some (u_work uf, u_dirty uf)"
  by (auto simp: at_def copies_def)

lemma add_to_at:
  assumes st: "steady h" "fresh_names h"
  shows "succeeds (at og ops K) (add_to h c ops u)
    (\<lambda>_. at og ops (upd_copy u (add_edit (c_lib c) (ops_by AddKey ops u)) K))"
proof (cases "ops_by AddKey ops u = []")
  case True
  then show ?thesis unfolding add_to_def Let_def by (simp add: hoare_ret)
next
  case False
  let ?ps = "ops_by AddKey ops u"
  let ?Q = "\<lambda>_. at og ops (upd_copy u (add_edit (c_lib c) ?ps) K)"
  let ?k = "\<lambda>uf. let (work, changed) = add_ops (c_lib c) ?ps (u_work uf) in
       andThen (set_file u (uf\<lparr>u_work := work\<rparr>)) (\<lambda>_. if changed then swap h c u else ret ())"
  have edit: "succeeds (\<lambda>s. listed_as uf vf \<and> curr {} s \<and> x_is ((x_files t)(u \<mapsto> vf)) t s) (?k vf) ?Q"
    if t: "at og ops K t" "x_files t u = Some uf" for t uf vf
  proof (rule hoare_assume)
    assume vf: "listed_as uf vf"
    let ?fm = "(x_files t)(u \<mapsto> vf)"
    obtain w b where w: "add_ops (c_lib c) ?ps (u_work vf) = (w, b)" by fastforce
    have work: "u_work vf = u_work uf" using vf by (simp add: listed_as_def)
    have goal: "?Q () s" if "curr {} s" "x_is (?fm(u \<mapsto> vf\<lparr>u_work := w, u_dirty := u_dirty vf \<or> b\<rparr>)) t s" for s
      using edited_at [OF t vf that] copies_at [OF t] w work by (simp add: upd_copy_def add_edit_def)
    have "succeeds (\<lambda>t'. curr {} t' \<and> x_is ?fm t t')
      (andThen (set_file u (vf\<lparr>u_work := w\<rparr>)) (\<lambda>_. if b then swap h c u else ret ())) ?Q"
    proof (cases b)
      case True
      have "succeeds (\<lambda>t'. curr {u} t' \<and> x_is (?fm(u \<mapsto> vf\<lparr>u_work := w\<rparr>)) t t') (swap h c u) ?Q"
        by (rule hoare_weaken, rule swap_settles [where fm = "?fm(u \<mapsto> vf\<lparr>u_work := w\<rparr>)" and ?t0.0 = t, OF st, where uf = "vf\<lparr>u_work := w\<rparr>"])
          (use goal True in auto)
      with True show ?thesis
        by (simp, intro succeeds_then [OF stage_work(1)]) simp_all
    next
      case False
      then have "render_file w = render_file (u_work vf)" using add_ops_unchanged w by metis
      then have "succeeds (\<lambda>t'. curr {} t' \<and> x_is ?fm t t') (set_file u (vf\<lparr>u_work := w\<rparr>))
          (\<lambda>_ t'. curr {} t' \<and> x_is (?fm(u \<mapsto> vf\<lparr>u_work := w\<rparr>)) t t')"
        by (intro stage_work(2)) simp_all
      then show ?thesis
        by (rule succeeds_then) (use goal False in \<open>auto intro!: hoare_ret\<close>)
    qed
    with w show "succeeds (\<lambda>s. curr {} s \<and> x_is ?fm t s) (?k vf) ?Q" by simp
  qed
  have "succeeds (at og ops K) (andThen (ensure_cas h u ''add'') (\<lambda>_. with_file u ?k)) ?Q"
  proof (rule hoare_at)
    fix t assume t: "at og ops K t"
    show "succeeds (\<lambda>s. s = t) (andThen (ensure_cas h u ''add'') (\<lambda>_. with_file u ?k)) ?Q"
    proof (cases "x_files t u")
      case None
      then show ?thesis by (simp add: ensure_cas_def with_file_def hoare_def comp_defs)
    next
      case (Some uf)
      have cas: "succeeds (\<lambda>s. s = t) (ensure_cas h u ''add'')
        (\<lambda>_ s. \<exists>vf. listed_as uf vf \<and> curr {} s \<and> x_is ((x_files t)(u \<mapsto> vf)) t s)"
        by (rule hoare_weaken [OF ensure_cas_curr [where S = "{}" and fm = "x_files t" and ?t0.0 = t, OF st(1) Some]])
          (use t in \<open>auto simp: at_def x_is_def\<close>)
      have "succeeds (\<lambda>s. listed_as uf vf \<and> curr {} s \<and> x_is ((x_files t)(u \<mapsto> vf)) t s) (with_file u ?k) ?Q" for vf
        by (rule hoare_with_file [where uf = vf, OF _ edit [OF t Some]]) (auto simp: x_is_def)
      then show ?thesis by (rule succeeds_then [OF cas succeeds_ex])
    qed
  qed
  with False show ?thesis by (simp add: add_to_def Let_def)
qed

primrec upd_copies :: "(string \<Rightarrow> keyfile \<times> bool \<Rightarrow> keyfile \<times> bool) \<Rightarrow> string list \<Rightarrow> copies \<Rightarrow> copies" where
  "upd_copies g [] K = K"
| "upd_copies g (u # us) K = upd_copies g us (upd_copy u (g u) K)"

lemma upd_copies_outside: "u \<notin> set us \<Longrightarrow> upd_copies g us K u = K u"
  by (induction us arbitrary: K) (auto simp: upd_copy_def)

lemma upd_copies_at: "distinct us \<Longrightarrow> set us = dom K \<Longrightarrow> upd_copies g us K u = map_option (g u) (K u)"
proof -
  have "distinct us \<Longrightarrow> u \<in> set us \<Longrightarrow> upd_copies g us K u = map_option (g u) (K u)"
    by (induction us arbitrary: K) (auto simp: upd_copies_outside upd_copy_def)
  then show "distinct us \<Longrightarrow> set us = dom K \<Longrightarrow> ?thesis"
    using upd_copies_outside [of u us g K] by (cases "K u") auto
qed

lemma adds_at:
  assumes st: "steady h" "fresh_names h"
  shows "succeeds (at og ops K) (for_each (add_to h c ops) us)
    (\<lambda>_. at og ops (upd_copies (\<lambda>u. add_edit (c_lib c) (ops_by AddKey ops u)) us K))"
proof (induction us arbitrary: K)
  case (Cons u us)
  from Cons show ?case by (auto intro: succeeds_then [OF add_to_at [OF st]])
qed (auto intro: hoare_ret)

text \<open>The users of the files are those of the list, in whose order the phases go.\<close>

lemma order_at:
  "succeeds (at og ops K) (gets x_order) (\<lambda>us t. (distinct us \<and> set us = dom K) \<and> at og ops K t)"
  by (rule hoare_gets) (auto simp: at_def known_def copies_def)

lemma ops_at: "succeeds (at og ops K) (gets x_ops) (\<lambda>x t. x = ops \<and> at og ops K t)"
  by (rule hoare_gets) (simp add: at_def)

definition all_copies :: "(string \<Rightarrow> keyfile \<times> bool \<Rightarrow> keyfile \<times> bool) \<Rightarrow> copies \<Rightarrow> copies" where
  "all_copies g K = (\<lambda>u. map_option (g u) (K u))"

lemma all_copies_upd: "distinct us \<Longrightarrow> set us = dom K \<Longrightarrow> upd_copies g us K = all_copies g K"
  by (rule ext) (simp add: all_copies_def upd_copies_at)

lemma all_copies_id: "(\<And>u. g u = id) \<Longrightarrow> all_copies g K = K"
  by (simp add: all_copies_def option.map_id)

lemma no_ops: "\<not> (\<exists>p \<in> set ops. op_action p = a) \<Longrightarrow> ops_by a ops u = []"
  by (auto simp: ops_by_def filter_empty_conv)

lemma phase_add_at:
  assumes st: "steady h" "fresh_names h"
  shows "succeeds (at og ops K) (phase_add h c)
    (\<lambda>_. at og ops (all_copies (\<lambda>u. add_edit (c_lib c) (ops_by AddKey ops u)) K))"
proof -
  let ?Q = "\<lambda>_. at og ops (all_copies (\<lambda>u. add_edit (c_lib c) (ops_by AddKey ops u)) K)"
  have loop: "succeeds (\<lambda>t. (distinct us \<and> set us = dom K) \<and> at og ops K t) (for_each (add_to h c ops) us) ?Q" for us
  proof (rule hoare_assume)
    assume us: "distinct us \<and> set us = dom K"
    show "succeeds (at og ops K) (for_each (add_to h c ops) us) ?Q"
      using adds_at [OF st, of og ops K c us] us by (simp add: all_copies_upd)
  qed
  have work: "succeeds (at og ops K) (andThen (check_health h) (\<lambda>_. andThen (gets x_order) (for_each (add_to h c ops)))) ?Q"
    by (rule succeeds_then [OF at_keeps [OF st(1) standing.check_health_keeps]], rule hoare_andThen [OF order_at loop])
  have none: "succeeds (at og ops K) (ret ()) ?Q" if "\<not> (\<exists>p \<in> set ops. op_action p = AddKey)"
    by (rule hoare_ret) (simp add: all_copies_id no_ops [OF that])
  show ?thesis
    unfolding phase_add_def
    by (rule hoare_andThen [OF ops_at], rule hoare_assume, hypsubst, rule hoare_if [OF none work])
qed

lemma remove_from_at:
  assumes st: "steady h" "fresh_names h"
  shows "succeeds (at og ops K) (remove_from h c u ps)
    (\<lambda>_. at og ops (upd_copy u (remove_edit (c_lib c) ps) K))"
  unfolding remove_from_def
proof (rule succeeds_with_any)
  let ?Q = "\<lambda>_. at og ops (upd_copy u (remove_edit (c_lib c) ps) K)"
  fix t uf assume t: "at og ops K t" and uf: "x_files t u = Some uf"
  obtain ps' w b where w: "remove_ops (c_lib c) ps (u_work uf) = (ps', w, b)" by (metis prod_cases3)
  let ?k = "\<lambda>_. if \<not> b then ret ps' else andThen (ensure_cas h u ''remove'') (\<lambda>_. andThen (swap h c u) (\<lambda>_. ret ps'))"
  let ?wf = "uf\<lparr>u_work := w\<rparr>"
  let ?fm = "(x_files t)(u \<mapsto> ?wf)"
  have goal: "?Q () s" if "listed_as ?wf vf" "curr {} s" "x_is (fm(u \<mapsto> vf\<lparr>u_dirty := u_dirty vf \<or> b\<rparr>)) t s"
    "fm(u := None) = (x_files t)(u := None)" for s vf fm
  proof -
    have "listed_as uf (vf\<lparr>u_work := u_work uf\<rparr>)" "u_work vf = w" "u_dirty vf = u_dirty uf"
      using that(1) by (auto simp: listed_as_def same_file_def)
    moreover have "x_is (fm(u \<mapsto> vf\<lparr>u_work := u_work uf, u_work := w, u_dirty := u_dirty vf \<or> b\<rparr>)) t s"
    proof -
      have "vf\<lparr>u_work := u_work uf, u_work := w, u_dirty := d\<rparr> = vf\<lparr>u_dirty := d\<rparr>" for d
        using calculation by (cases vf) simp
      with that(3) show ?thesis by (simp only:)
    qed
    ultimately show ?thesis
      using edited_at [OF t uf, where vf = "vf\<lparr>u_work := u_work uf\<rparr>" and s = s and fm = fm and w = w and b = b]
        that(2,4) copies_at [OF t uf] w
      by (simp add: upd_copy_def remove_edit_def)
  qed
  have self: "listed_as ?wf ?wf" by (simp add: listed_as_def same_file_def)
  have "succeeds (\<lambda>s. curr {} s \<and> x_is (x_files t) t s) (andThen (set_file u ?wf) ?k) ?Q"
  proof (cases b)
    case False
    then have "render_file w = render_file (u_work uf)" using remove_ops_unchanged w by metis
    then have "succeeds (\<lambda>s. curr {} s \<and> x_is (x_files t) t s) (set_file u ?wf) (\<lambda>_ s. curr {} s \<and> x_is ?fm t s)"
      using uf by (intro stage_work(2))
    then show ?thesis
      by (rule succeeds_then) (use goal [OF self] False in \<open>auto intro!: hoare_ret\<close>)
  next
    case True
    have cas: "succeeds (\<lambda>s. curr {u} s \<and> x_is ?fm t s) (ensure_cas h u ''remove'')
      (\<lambda>_ s. \<exists>vf. listed_as ?wf vf \<and> curr {u} s \<and> x_is (?fm(u \<mapsto> vf)) t s)"
      by (rule ensure_cas_curr [OF st(1)]) simp
    have sw: "succeeds (\<lambda>s. listed_as ?wf vf \<and> curr {u} s \<and> x_is (?fm(u \<mapsto> vf)) t s)
      (andThen (swap h c u) (\<lambda>_. ret ps')) ?Q" for vf
    proof (rule hoare_assume)
      assume vf: "listed_as ?wf vf"
      have "succeeds (\<lambda>s. curr {u} s \<and> x_is (?fm(u \<mapsto> vf)) t s) (swap h c u) ?Q"
        by (rule hoare_weaken, rule swap_settles [where fm = "?fm(u \<mapsto> vf)" and ?t0.0 = t, OF st, where uf = vf])
          (use goal [OF vf, of _ "?fm(u \<mapsto> vf)"] True in auto)
      then show "succeeds (\<lambda>s. curr {u} s \<and> x_is (?fm(u \<mapsto> vf)) t s) (andThen (swap h c u) (\<lambda>_. ret ps')) ?Q"
        by (rule succeeds_then) (rule hoare_ret)
    qed
    have rest: "succeeds (\<lambda>s. curr {u} s \<and> x_is ?fm t s) (?k x) ?Q" for x
      using True by (simp, intro succeeds_then [OF cas succeeds_ex] sw)
    show ?thesis by (rule succeeds_then [OF stage_work(1) rest], rule uf)
  qed
  then have "succeeds (\<lambda>s. s = t) (andThen (set_file u ?wf) ?k) ?Q"
    by (rule hoare_weaken) (use t in \<open>auto simp: at_def x_is_def\<close>)
  moreover have "succeeds (\<lambda>s. s = t) (ret []) ?Q" if "ps = []"
    by (rule hoare_ret) (use t that in simp)
  ultimately show "succeeds (\<lambda>s. s = t) (if ps = [] then ret [] else
     (let (ops', work, changed) = remove_ops (c_lib c) ps (u_work uf) in
      andThen (set_file u (uf\<lparr>u_work := work\<rparr>)) (\<lambda>_.
      if \<not> changed then ret ops' else
      andThen (ensure_cas h u ''remove'') (\<lambda>_. andThen (swap h c u) (\<lambda>_. ret ops'))))) ?Q"
    by (auto simp: w)
qed

lemma removes_at:
  assumes st: "steady h" "fresh_names h"
  shows "distinct us \<Longrightarrow> succeeds (at og ops K) (remove_files h c us rem)
    (\<lambda>_. at og ops (upd_copies (\<lambda>u. remove_edit (c_lib c) (rem u)) us K))"
proof (induction us arbitrary: K rem)
  case (Cons u us)
  have others: "upd_copies (\<lambda>v. remove_edit (c_lib c) ((rem(u := ps)) v)) us K' = upd_copies (\<lambda>v. remove_edit (c_lib c) (rem v)) us K'" for ps K'
    using Cons.prems by (induction us arbitrary: K') auto
  have "succeeds (at og ops (upd_copy u (remove_edit (c_lib c) (rem u)) K)) (remove_files h c us (rem(u := ps)))
    (\<lambda>_. at og ops (upd_copies (\<lambda>u. remove_edit (c_lib c) (rem u)) (u # us) K))" for ps
    unfolding upd_copies.simps others [of ps, symmetric] by (rule Cons.IH) (use Cons.prems in simp)
  then show ?case
    unfolding remove_files.simps by (rule hoare_andThen [OF remove_from_at [OF st]])
qed (auto intro: hoare_ret)

definition noted :: "origins \<Rightarrow> copies \<Rightarrow> txn \<Rightarrow> bool" where
  "noted og K t \<longleftrightarrow> curr {} t \<and> known og t \<and> copies t = K"

lemma phase_remove_noted:
  assumes st: "steady h" "fresh_names h"
  shows "succeeds (at og ops K) (phase_remove h c)
    (\<lambda>_. noted og (all_copies (\<lambda>u. remove_edit (c_lib c) (ops_by RemoveKey ops u)) K))"
proof -
  let ?K = "all_copies (\<lambda>u. remove_edit (c_lib c) (ops_by RemoveKey ops u)) K"
  have loop: "succeeds (\<lambda>t. (distinct us \<and> set us = dom K) \<and> at og ops K t) (remove_files h c us (ops_by RemoveKey ops))
      (\<lambda>_. at og ops ?K)" for us
  proof (rule hoare_assume)
    assume us: "distinct us \<and> set us = dom K"
    show "succeeds (at og ops K) (remove_files h c us (ops_by RemoveKey ops)) (\<lambda>_. at og ops ?K)"
      using removes_at [OF st, of us og ops K c "ops_by RemoveKey ops"] us by (simp add: all_copies_upd)
  qed
  have remember: "succeeds (at og ops ?K) (modify (\<lambda>t. t\<lparr>x_ops := g (x_ops t)\<rparr>)) (\<lambda>_. noted og ?K)" for g
    by (rule hoare_modify) (simp add: at_def noted_def known_def origins_def copies_def)
  have work: "succeeds (at og ops K) (andThen (check_health h) (\<lambda>_. andThen (gets x_order) (\<lambda>order.
     andThen (remove_files h c order (ops_by RemoveKey ops)) (\<lambda>removals.
     modify (\<lambda>t. t\<lparr>x_ops := map (enrich_op removals) (x_ops t)\<rparr>))))) (\<lambda>_. noted og ?K)"
    by (rule succeeds_then [OF at_keeps [OF st(1) standing.check_health_keeps]], rule hoare_andThen [OF order_at],
        rule succeeds_then [OF loop remember])
  have none: "succeeds (at og ops K) (ret ()) (\<lambda>_. noted og ?K)" if "\<not> (\<exists>p \<in> set ops. op_action p = RemoveKey)"
    by (rule hoare_ret) (simp add: all_copies_id no_ops [OF that] at_def noted_def)
  show ?thesis
    unfolding phase_remove_def
    by (rule hoare_andThen [OF ops_at], rule hoare_assume, hypsubst, rule hoare_if [OF none work])
qed

interpretation noting: observer h "\<lambda>t. steady h \<and> noted og K t" for h og K
  by unfold_locales (auto simp: noted_def known_def origins_def copies_def)

lemma noted_keeps: "steady h \<Longrightarrow> keeps (\<lambda>t. steady h \<and> noted og K t) m \<Longrightarrow> succeeds (noted og K) m (\<lambda>_. noted og K)"
  by (erule hoare_weaken) auto

section \<open>The commit\<close>

text \<open>
  The marker stands, or the whole directory of the transaction is gone: the trap finds
  nothing to do.
\<close>

definition sealed :: "txn \<Rightarrow> bool" where
  "sealed t \<longleftrightarrow> (\<forall>d. w_guard t = Armed d \<longrightarrow> d = x_txdir t) \<and>
     ((\<exists>m a. w_fs t (x_txdir t @ ''/commit'') = Some (Reg m a)) \<or> w_fs t (x_txdir t @ ''/manifest'') = None)"

definition holding :: "origins \<Rightarrow> copies \<Rightarrow> txn \<Rightarrow> bool" where
  "holding og K t \<longleftrightarrow> origins t = og \<and> copies t = K \<and>
     (\<forall>u uf. x_files t u = Some uf \<longrightarrow> up_to_date (w_fs t) uf \<and> \<not> below (x_txdir t) (u_path uf))"

definition committed :: "origins \<Rightarrow> copies \<Rightarrow> txn \<Rightarrow> bool" where
  "committed og K t \<longleftrightarrow> holding og K t \<and> sealed t"

lemma committed_upd [simp]:
  "committed og K (t\<lparr>w_tick := n\<rparr>) = committed og K t" "committed og K (t\<lparr>x_meta := m\<rparr>) = committed og K t"
  "committed og K t \<Longrightarrow> committed og K (t\<lparr>w_guard := Gone\<rparr>)"
  by (auto simp: committed_def holding_def sealed_def origins_def copies_def)

lemma fire_sealed: "sealed t \<Longrightarrow> w_guard t = Armed d \<Longrightarrow> fire h e d t = t\<lparr>w_guard := Gone\<rparr>"
  using fire_no_manifest [of t d h e]
  by (auto simp: sealed_def fire_def restore_all_def is_file_def node_at_no_link is_link_def)

lemma committed_fire: "committed og K t \<Longrightarrow> w_guard t = Armed d \<Longrightarrow> committed og K (fire h e d t)"
proof -
  assume t: "committed og K t" and g: "w_guard t = Armed d"
  then have "fire h e d t = t\<lparr>w_guard := Gone\<rparr>" by (intro fire_sealed) (simp_all add: committed_def)
  with t show ?thesis by simp
qed

lemma committed_guard: "committed og K t \<Longrightarrow> committed og K (guard_step h t)"
  by (auto simp: guard_step_def committed_fire split: guard_state.splits guard_event.splits)

lemma committed_settle: "committed og K t \<Longrightarrow> committed og K (settle h e t)"
  by (auto simp: settle_def committed_fire split: guard_state.splits)

lemma close_committed: "keeps (committed og K) (close_graceful h)"
proof (rule keepsI)
  fix t assume "committed og K t"
  then have "committed og K (t\<lparr>w_tick := Suc (w_tick t)\<rparr>)" by simp
  then show "committed og K (snd (close_graceful h t))"
    by (auto simp: close_graceful_def Let_def committed_fire split: guard_state.splits close_event.splits)
qed

lemma exec_rmrf_all:
  "exec e (rmrf_cmd p) s = (r, t) \<Longrightarrow> s_fs t = s_fs s \<or> s_fs t = (\<lambda>q. if below p q then None else s_fs s q)"
  by (auto simp: rmrf_cmd_def prim_def rmrf_eff_def split: if_splits)

lemma rm_rf_committed: "keeps (\<lambda>t. committed og K t \<and> x_txdir t = d) (rm_rf h d)"
proof -
  have "keeps (\<lambda>t. committed og K t \<and> x_txdir t = d) (run h (rmrf_cmd d) [])"
    unfolding run_def
  proof (rule hoare_run_with [where P' = "\<lambda>t. committed og K t \<and> x_txdir t = d"])
    fix t :: txn and r f out
    assume t: "committed og K t \<and> x_txdir t = d"
      and "script_of h (rmrf_cmd d) [] (w_tick t) (h_fault h (w_tick t)) (w_fs t) = (r, f, out)"
    then obtain e s' where e: "exec e (rmrf_cmd d) (script_start h (w_fs t) []) = (r, s')" and f: "f = s_fs s'"
      by (auto simp: script_of_exec)
    have sub: "below d (d @ ''/manifest'')" by (simp add: below_def has_prefix_iff)
    have "f = w_fs t \<or> f = (\<lambda>q. if below d q then None else w_fs t q)"
      using exec_rmrf_all [OF e] by (simp add: f cong: if_cong)
    then have "committed og K (t\<lparr>w_tick := n, w_fs := f\<rparr>)" for n
      using t sub by (auto simp: committed_def holding_def sealed_def origins_def copies_def up_to_date_def file_is_def)
    with t show "case answer (h_fault h (w_tick t)) r out of
        Inl err \<Rightarrow> committed og K (t\<lparr>w_tick := Suc (w_tick t), w_fs := f\<rparr>) \<and> x_txdir (t\<lparr>w_tick := Suc (w_tick t), w_fs := f\<rparr>) = d
      | Inr x \<Rightarrow> committed og K (t\<lparr>w_tick := Suc (w_tick t), w_fs := f\<rparr>) \<and> x_txdir (t\<lparr>w_tick := Suc (w_tick t), w_fs := f\<rparr>) = d"
      by (auto split: sum.splits)
  qed (auto intro: committed_guard simp: more_fields [OF more_guard_step])
  then show ?thesis unfolding rm_rf_def by (rule hoare_ignore) (rule hoare_ret)
qed

lemma marker_commits:
  assumes st: "steady h"
  shows "succeeds (\<lambda>t. noted og K t \<and> x_txdir t = d) (write_file h (d @ ''/commit'') m)
    (\<lambda>_ t. committed og K t \<and> x_txdir t = d)"
proof (rule hoare_at)
  fix t assume t: "noted og K t \<and> x_txdir t = d"
  have "succeeds (\<lambda>s. curr {} s \<and> x_is (x_files t) t s) (write_file h (d @ ''/commit'') m)
      (\<lambda>_ s. (curr {} s \<and> x_is (x_files t) t s) \<and> (\<exists>a. w_fs s (d @ ''/commit'') = Some (Reg m a)))"
    by (rule tx_write_curr(1) [OF st]) (use t in \<open>auto simp: below_def has_prefix_iff\<close>)
  then show "succeeds (\<lambda>s. s = t) (write_file h (d @ ''/commit'') m) (\<lambda>_ s. committed og K s \<and> x_txdir s = d)"
  proof (rule hoare_weaken)
    fix s assume s: "(curr {} s \<and> x_is (x_files t) t s) \<and> (\<exists>a. w_fs s (d @ ''/commit'') = Some (Reg m a))"
    then have d: "x_txdir s = d" "x_files s = x_files t" using t by (auto simp: x_is_def)
    have "holding og K s"
      using s t d currD(5) [of "{}" s] placedD(3) [OF currD(1) [of "{}" s]]
      by (auto simp: holding_def noted_def known_def origins_def copies_def good_place_def)
    moreover have "sealed s" using s d currD(2) [of "{}" s] by (auto simp: sealed_def)
    ultimately show "committed og K s \<and> x_txdir s = d" using d by (simp add: committed_def)
  qed (use t in \<open>auto simp: noted_def x_is_def\<close>)
qed

lemma commit_commits:
  assumes st: "steady h"
  shows "succeeds (noted og K) (commit h c) (\<lambda>_. committed og K)"
proof -
  have get: "succeeds (noted og K) (gets x_txdir) (\<lambda>d t. noted og K t \<and> x_txdir t = d)"
    by (rule hoare_gets) simp
  have close: "succeeds (\<lambda>t. committed og K t \<and> x_txdir t = d) (attempt (close_graceful h)) (\<lambda>_ t. committed og K t \<and> x_txdir t = d)" for d
  proof (rule hoare_attempt)
    have "keeps (\<lambda>t. committed og K t \<and> x_txdir t = d) (close_graceful h)"
      by (rule keepsI) (use keepsD [OF close_committed] more_fields [OF more_close] in blast)
    then show "hoare (\<lambda>t. committed og K t \<and> x_txdir t = d) (close_graceful h)
      (\<lambda>_ t. committed og K t \<and> x_txdir t = d) (\<lambda>_ t. committed og K t \<and> x_txdir t = d)" .
  qed
  have clean: "succeeds (\<lambda>t. committed og K t \<and> x_txdir t = d) (attempt (rm_rf h d)) (\<lambda>_. committed og K)" for d
    by (rule hoare_attempt, rule hoare_weaken [OF rm_rf_committed]) auto
  show ?thesis
    unfolding commit_def
    by (rule succeeds_then [OF noted_keeps [OF st noting.check_health_keeps]],
        rule succeeds_then [OF noted_keeps [OF st noting.prove_access_keeps]],
        rule hoare_andThen [OF get], rule succeeds_then [OF succeeds_wrap [OF marker_commits [OF st]]],
        rule succeeds_then [OF close], rule succeeds_then [OF clean hoare_ret])
qed

end
