(* ===== verification/Tx_Outcome.thy ===== *)
theory Tx_Outcome
  imports Tx_Commit Tx_Guarantees
begin

text \<open>
  The outcome \<open>Committed\<close>: what every loaded file holds, once the guard session is over as
  well, in terms of what it held before and of the operations asked for.
\<close>

section \<open>What the operations ask for\<close>

text \<open>The new content of a user's file, and whether it was changed.\<close>

definition edit :: "config \<Rightarrow> string \<Rightarrow> string \<Rightarrow> keyfile \<times> bool" where
  "edit c u content =
     remove_edit (c_lib c) (ops_by RemoveKey (c_ops c) u)
       (add_edit (c_lib c) (ops_by AddKey (c_ops c) u) (parse_file (c_lib c) content, False))"

text \<open>The same on the list of keys alone.\<close>

definition add_spec :: "op \<Rightarrow> pubkey list \<Rightarrow> pubkey list" where
  "add_spec p ks =
     (case op_key p of
        None \<Rightarrow> ks
      | Some k \<Rightarrow> if \<exists>k' \<in> set ks. key_blob k' = key_blob k then ks else ks @ [k])"

definition spec_keys :: "config \<Rightarrow> string \<Rightarrow> pubkey list \<Rightarrow> pubkey list" where
  "spec_keys c u ks =
     filter (\<lambda>k. \<not> (\<exists>p \<in> set (ops_by RemoveKey (c_ops c) u). matches_key (c_lib c) (op_matcher p) k))
       (fold add_spec (ops_by AddKey (c_ops c) u) ks)"

text \<open>The keys sshd reads from a file of the host.\<close>

definition host_keys :: "sshlib \<Rightarrow> fs \<Rightarrow> string \<Rightarrow> pubkey list" where
  "host_keys L f p =
     (case f p of
        Some (Reg content a) \<Rightarrow> live_keys (parse_file L content)
      | _ \<Rightarrow> [])"

text \<open>Every key to add was read from a key line, as \<^verbatim>\<open>parseUserSpec\<close> does.\<close>

definition keys_read :: "sshlib \<Rightarrow> op list \<Rightarrow> bool" where
  "keys_read L ops \<longleftrightarrow>
     (\<forall>p \<in> set ops. \<forall>k. op_key p = Some k \<longrightarrow> op_action p = AddKey \<longrightarrow>
        (\<exists>s. parse_authkey L s = Some (k, op_comment p, op_options p)))"

lemma host_keys_file: "file_is f p ex content \<Longrightarrow> ex \<or> content = [] \<Longrightarrow> host_keys L f p = live_keys (parse_file L content)"
  by (cases ex) (auto simp: host_keys_def live_keys_def parse_file_def)

lemma live_keys_adds: "live_keys (fst (add_ops L ops f)) = fold add_spec ops (live_keys f)"
proof (induction ops arbitrary: f)
  case (Cons p ps)
  show ?case
  proof (cases "op_key p")
    case None
    with Cons show ?thesis by (simp add: add_spec_def)
  next
    case (Some k)
    let ?g = "fst (add_key L k (op_comment p) (op_options p) f)"
    have "live_keys ?g = add_spec p (live_keys f)" by (simp add: live_keys_add add_spec_def Some)
    with Cons.IH [of ?g] Some show ?thesis by (simp add: Let_def split_beta)
  qed
qed simp

lemma live_keys_removes:
  "live_keys (fst (snd (remove_ops L ops f))) = filter (\<lambda>k. \<not> (\<exists>p \<in> set ops. matches_key L (op_matcher p) k)) (live_keys f)"
proof (induction ops arbitrary: f)
  case (Cons p ps)
  obtain g r where g: "remove_keys L (op_matcher p) f = (g, r)" by fastforce
  then have "live_keys g = filter (\<lambda>k. \<not> matches_key L (op_matcher p) k) (live_keys f)"
    using live_keys_remove [of L "op_matcher p" f] by simp
  with Cons.IH [of g] g show ?case
    by (auto simp: Let_def split_beta intro: filter_cong)
qed simp

lemma fst_edit:
  "fst (edit c u content) = fst (snd (remove_ops (c_lib c) (ops_by RemoveKey (c_ops c) u)
     (fst (add_ops (c_lib c) (ops_by AddKey (c_ops c) u) (parse_file (c_lib c) content)))))"
  by (simp add: edit_def add_edit_def remove_edit_def split_beta)

lemma live_keys_edit: "live_keys (fst (edit c u content)) = spec_keys c u (live_keys (parse_file (c_lib c) content))"
  using live_keys_adds [of "c_lib c" "ops_by AddKey (c_ops c) u" "parse_file (c_lib c) content"]
    live_keys_removes [of "c_lib c" "ops_by RemoveKey (c_ops c) u"]
  by (simp add: fst_edit spec_keys_def)

lemma good_lines_adds:
  "sshlib_ok L \<Longrightarrow> (\<And>p k. p \<in> set ops \<Longrightarrow> op_key p = Some k \<Longrightarrow> \<exists>s. parse_authkey L s = Some (k, op_comment p, op_options p)) \<Longrightarrow>
    good_lines L f \<Longrightarrow> good_lines L (fst (add_ops L ops f))"
proof (induction ops arbitrary: f)
  case (Cons p ps)
  show ?case
  proof (cases "op_key p")
    case None
    with Cons show ?thesis by simp
  next
    case (Some k)
    then obtain s where s: "parse_authkey L s = Some (k, op_comment p, op_options p)" using Cons.prems(2) by force
    obtain g b where g: "add_key L k (op_comment p) (op_options p) f = (g, b)" by fastforce
    have "good_lines L g" using good_lines_add [OF Cons.prems(1) s Cons.prems(3)] g by simp
    then have "good_lines L (fst (add_ops L ps g))" using Cons by auto
    with Some g show ?thesis by (simp add: Let_def split_beta)
  qed
qed simp

lemma good_lines_removes: "good_lines L f \<Longrightarrow> good_lines L (fst (snd (remove_ops L ops f)))"
proof (induction ops arbitrary: f)
  case (Cons p ps)
  obtain g r where g: "remove_keys L (op_matcher p) f = (g, r)" by fastforce
  then have "good_lines L g" using good_lines_remove [OF Cons.prems, of "op_matcher p"] by simp
  from Cons.IH [OF this] g show ?case by (auto simp: Let_def split: prod.splits)
qed simp

lemma good_lines_edit:
  assumes "sshlib_ok (c_lib c)" and "keys_read (c_lib c) (c_ops c)"
  shows "good_lines (c_lib c) (fst (edit c u content))"
proof -
  let ?L = "c_lib c"
  have "good_lines ?L (fst (add_ops ?L (ops_by AddKey (c_ops c) u) (parse_file ?L content)))"
    by (rule good_lines_adds [OF assms(1)]) (use assms(2) in \<open>auto simp: keys_read_def ops_by_def\<close>)
  from good_lines_removes [OF this] show ?thesis by (simp add: fst_edit)
qed

lemma edit_unchanged: "\<not> snd (edit c u content) \<Longrightarrow> render_file (fst (edit c u content)) = content"
  using render_parse_bytes [of "c_lib c" content]
  by (auto simp: edit_def add_edit_def remove_edit_def split: prod.splits dest!: add_ops_unchanged remove_ops_unchanged)

section \<open>A committed run\<close>

lemma phases_commit:
  assumes st: "steady h" "fresh_names h"
  shows "succeeds (at og ops K) (phases h c)
    (\<lambda>_. committed og (all_copies (\<lambda>u. remove_edit (c_lib c) (ops_by RemoveKey ops u))
       (all_copies (\<lambda>u. add_edit (c_lib c) (ops_by AddKey ops u)) K)))"
  unfolding phases_def
  by (rule succeeds_then [OF phase_add_at [OF st]],
      rule succeeds_then [OF at_keeps [OF st(1) standing.phase_verify_added_keeps]],
      rule succeeds_then [OF phase_remove_noted [OF st]],
      rule succeeds_then [OF noted_keeps [OF st(1) noting.phase_verify_removed_keeps]],
      rule commit_commits [OF st(1)])

lemma prepared_at:
  assumes "fresh_names h" and w: "closed (w_fs w)" "absolute (base_dir c)"
    and prep: "prepare h c (start_txn w c) = (Inr (), t1)" and pl: "placed t1"
  shows "at (origins t1) (c_ops c) (copies t1) t1"
proof -
  obtain g d where g: "staging (tx_prefix (base_dir c) (c_txid c)) (w_fs w) g d"
    "loading g d (c_ops c) (user_names (c_ops c)) t1"
    by (rule prepared_loading [OF assms(1) w prep])
  have parsed: "parsed (c_lib c) t1"
    by (rule hoare_Inr [OF prepare_parsed _ prep]) (simp add: parsed_def start_txn_def)
  have t: "w_fs t1 = g" "x_txdir t1 = d" "\<forall>d'. w_guard t1 = Armed d' \<longrightarrow> d' = d"
    using g(2) by (auto simp: loading_def quiet_def)
  have each: "regular g (u_path uf) \<and> bak_ok d uf \<and> up_to_date g uf" if uf: "x_files t1 u = Some uf" for u uf
  proof -
    have "loaded g u uf" "u_work uf = parse_file (c_lib c) (u_orig uf)"
      using g(2) parsed uf by (auto simp: loading_def parsed_def)
    then show ?thesis
      by (auto simp: loaded_def bak_ok_def up_to_date_def render_parse_bytes file_is_regular)
  qed
  have "curr {} t1" using each g(1) t pl by (auto simp: curr_def staging_def)
  moreover have "distinct (user_names (c_ops c))" by (simp add: user_names_def)
  ultimately show ?thesis using g(2) by (simp add: at_def known_def loading_def)
qed

lemma committed_run:
  assumes h: "steady h" "fresh_names h" and w: "closed (w_fs w)" "absolute (base_dir c)"
    and prep: "prepare h c (start_txn w c) = (Inr (), t1)" and pl: "placed t1"
    and run: "run_tx h c (start_txn w c) = (Inr res, t)" and out: "r_outcome res = Committed"
    and uf: "x_files t1 u = Some uf"
  shows "file_is (w_fs (settle h e t)) (u_path uf) (u_orig_exists uf \<or> snd (edit c u (u_orig uf)))
      (render_file (fst (edit c u (u_orig uf))))"
    and "u_orig_exists uf \<or> u_orig uf = []"
    and "w_fs (settle h e t) = w_fs t"
proof -
  let ?c = "with_defaults c" and ?K = "\<lambda>K. all_copies (\<lambda>u. remove_edit (c_lib c) (ops_by RemoveKey (c_ops c) u))
       (all_copies (\<lambda>u. add_edit (c_lib c) (ops_by AddKey (c_ops c) u)) K)"
  have lib: "c_lib ?c = c_lib c" by (simp add: with_defaults_def)
  have valid: "validate ?c = None" by (rule run_valid [OF run]) (use out in auto)
  have con: "conclude h ?c t1 = (Inr res, t)" using run_tx_prepared [OF valid prep] run by simp
  have "filed t1" using hoare_Inr [OF prepare_filed _ prep] by simp
  from conclude_ok [OF this con] out have dry: "\<not> c_dry ?c" by auto
  obtain z s where ph: "phases h ?c t1 = (z, s)" by fastforce
  have z: "z = Inr ()"
  proof (cases z)
    case (Inl err)
    then have "abort h ?c err s = (Inr res, t)" using con dry ph by (simp add: conclude_def comp_defs)
    moreover have "listed (x_order t1) s"
      using hoare_Inl [OF phases_listed _ ph [unfolded Inl], of "x_order t1"] \<open>filed t1\<close> by (simp add: filed_def)
    ultimately show ?thesis using hoare_Inr [OF abort_ok] out by fastforce
  qed simp
  have "committed (origins t1) (?K (copies t1)) s"
    using hoare_Inr [OF phases_commit [OF h] prepared_at [OF h(2) w prep pl] ph [unfolded z]] by (simp add: lib)
  moreover have "t = s \<or> (\<exists>m. t = s\<lparr>x_meta := m\<rparr>)"
    using con dry ph z by (auto simp: conclude_def finish_def finish_meta_def comp_defs split: if_splits)
  ultimately have "committed (origins t1) (?K (copies t1)) t" by auto
  then show "w_fs (settle h e t) = w_fs t"
    using fire_sealed [of t _ h e] by (auto simp: settle_def committed_def split: guard_state.splits)
  from \<open>committed (origins t1) (?K (copies t1)) t\<close> have fin: "holding (origins t1) (?K (copies t1)) (settle h e t)"
    using committed_settle by (simp add: committed_def)
  have parsed: "parsed (c_lib c) t1"
    by (rule hoare_Inr [OF prepare_parsed _ prep]) (simp add: parsed_def start_txn_def)
  then show "u_orig_exists uf \<or> u_orig uf = []" using uf by (auto simp: parsed_def)
  obtain g d where "loading g d (c_ops c) (user_names (c_ops c)) t1"
    by (rule prepared_loading [OF h(2) w prep])
  then have "\<not> u_dirty uf" using uf by (auto simp: loading_def loaded_def)
  with parsed uf have "copies t1 u = Some (parse_file (c_lib c) (u_orig uf), False)"
    by (auto simp: copies_def parsed_def)
  then have "?K (copies t1) u = Some (edit c u (u_orig uf))" by (simp add: all_copies_def edit_def)
  then have "copies (settle h e t) u = Some (edit c u (u_orig uf))" using fin by (simp add: holding_def)
  then obtain vf where vf: "x_files (settle h e t) u = Some vf" "(u_work vf, u_dirty vf) = edit c u (u_orig uf)"
    by (auto simp: copies_def)
  moreover have "u_path vf = u_path uf" "u_orig_exists vf = u_orig_exists uf"
    using fin vf(1) uf by (auto simp: holding_def origins_def fun_eq_iff dest!: spec [of _ u])
  moreover have "up_to_date (w_fs (settle h e t)) vf" using fin vf(1) by (simp add: holding_def)
  ultimately show "file_is (w_fs (settle h e t)) (u_path uf) (u_orig_exists uf \<or> snd (edit c u (u_orig uf)))
      (render_file (fst (edit c u (u_orig uf))))"
    by (simp add: up_to_date_def flip: vf(2))
qed


lemma committed_keys:
  assumes h: "steady h" "fresh_names h" and w: "closed (w_fs w)" "absolute (base_dir c)"
    and prep: "prepare h c (start_txn w c) = (Inr (), t1)" and pl: "placed t1"
    and run: "run_tx h c (start_txn w c) = (Inr res, t)" and out: "r_outcome res = Committed"
    and uf: "x_files t1 u = Some uf" and lib: "sshlib_ok (c_lib c)" "keys_read (c_lib c) (c_ops c)"
  shows "host_keys (c_lib c) (w_fs (settle h e t)) (u_path uf) =
    spec_keys c u (host_keys (c_lib c) (w_fs w) (u_path uf))"
proof -
  let ?L = "c_lib c" and ?e = "edit c u (u_orig uf)"
  note run = committed_run [OF h w prep pl run out uf]
  have before: "host_keys ?L (w_fs w) (u_path uf) = live_keys (parse_file ?L (u_orig uf))"
    by (rule host_keys_file [OF original_start [OF h(2) w prep pl uf] run(2)])
  have "u_orig_exists uf \<or> snd ?e \<or> render_file (fst ?e) = []"
    using run(2) edit_unchanged [of c u "u_orig uf"] by metis
  then have "host_keys ?L (w_fs (settle h e t)) (u_path uf) = live_keys (parse_file ?L (render_file (fst ?e)))"
    by (intro host_keys_file [OF run(1)]) blast
  also have "\<dots> = live_keys (fst ?e)" by (rule live_keys_parse_render [OF good_lines_edit [OF lib]])
  finally show ?thesis using before by (simp add: live_keys_edit)
qed


section \<open>The keys as a set\<close>

text \<open>The requests of a user, as the interface of authkeys.go takes them.\<close>

definition asked :: "op list \<Rightarrow> (pubkey \<times> string \<times> string list) list" where
  "asked ops = List.map_filter (\<lambda>p. map_option (\<lambda>k. (k, op_comment p, op_options p)) (op_key p)) ops"

lemma asked_simps [simp]:
  "asked [] = []"
  "asked (p # ps) = (case op_key p of None \<Rightarrow> asked ps | Some k \<Rightarrow> (k, op_comment p, op_options p) # asked ps)"
  by (simp_all add: asked_def map_filter_simps split: option.splits)

lemma ak_steps:
  "ak.add_all L [] f = f" "ak.add_all L ((k, c, os) # as) f = ak.add_all L as (fst (add_key L k c os f))"
  "ak.remove_all L [] f = f" "ak.remove_all L (m # ms) f = ak.remove_all L ms (fst (remove_keys L m f))"
  by (simp_all add: ak.add_all_def ak.remove_all_def) (simp_all add: add_req_def remove_req_def)

lemma adds_all: "fst (add_ops L ops f) = ak.add_all L (asked ops) f"
proof (induction ops arbitrary: f)
  case (Cons p ps)
  then show ?case
    by (cases "op_key p") (simp_all add: ak_steps Let_def split_beta)
qed (simp add: ak_steps)

lemma removes_all: "fst (snd (remove_ops L ops f)) = ak.remove_all L (map op_matcher ops) f"
proof (induction ops arbitrary: f)
  case (Cons p ps)
  then show ?case by (simp add: ak_steps Let_def split_beta)
qed (simp add: ak_steps)

definition authorises :: "pubkey list \<Rightarrow> pubkey \<Rightarrow> bool" where
  "authorises ks k \<longleftrightarrow> list_ex (\<lambda>k'. same_key k' k) ks"

lemma spec_keys_all:
  "spec_keys c u (live_keys f) = live_keys (ak.remove_all (c_lib c) (map op_matcher (ops_by RemoveKey (c_ops c) u))
     (ak.add_all (c_lib c) (asked (ops_by AddKey (c_ops c) u)) f))"
  by (simp add: spec_keys_def live_keys_adds live_keys_removes flip: adds_all removes_all)

lemma authorises_spec:
  "authorises (spec_keys c u (live_keys f)) k \<longleftrightarrow>
     (authorises (live_keys f) k \<or> (\<exists>a \<in> set (asked (ops_by AddKey (c_ops c) u)). same_key (fst a) k)) \<and>
     \<not> (\<exists>p \<in> set (ops_by RemoveKey (c_ops c) u). matches_key (c_lib c) (op_matcher p) k)"
    (is "?after \<longleftrightarrow> (?before \<or> ?new) \<and> \<not> ?gone")
proof -
  let ?L = "c_lib c" and ?as = "asked (ops_by AddKey (c_ops c) u)" and ?ms = "map op_matcher (ops_by RemoveKey (c_ops c) u)"
  have sel: "matches_key ?L m k' = matches_key ?L m k" if "same_key k' k" for m k'
    by (rule ak.selects_same [OF that])
  show ?thesis
  proof (intro iffI conjI)
    assume ?after
    then obtain k' where k': "k' \<in> set (spec_keys c u (live_keys f))" "same_key k' k"
      by (auto simp: authorises_def list_ex_iff)
    from ak.end_state_only [OF k'(1) [unfolded spec_keys_all]] k'(2) show "?before \<or> ?new"
      by (auto simp: authorises_def list_ex_iff)
    show "\<not> ?gone"
      using ak.end_state_removed [OF _ k'(1) [unfolded spec_keys_all]] sel [OF k'(2)] by fastforce
  next
    assume r: "(?before \<or> ?new) \<and> \<not> ?gone"
    then have keep: "\<not> matches_key ?L m k'" if "m \<in> set ?ms" "same_key k' k" for m k' using sel [OF that(2)] that(1) by auto
    have "\<exists>k'' \<in> set (spec_keys c u (live_keys f)). same_key k'' k"
    proof (cases ?before)
      case True
      then obtain k' where k': "k' \<in> set (live_keys f)" "same_key k' k" by (auto simp: authorises_def list_ex_iff)
      then show ?thesis unfolding spec_keys_all using ak.end_state_kept [OF k'(1) keep [OF _ k'(2)]] by blast
    next
      case False
      with r obtain a where a: "a \<in> set ?as" "same_key (fst a) k" by blast
      obtain k'' where "k'' \<in> set (spec_keys c u (live_keys f))" "same_key k'' (fst a)"
        unfolding spec_keys_all using ak.end_state_added [OF a(1) keep [OF _ a(2)]] by blast
      with a(2) show ?thesis by (auto simp: same_key_def)
    qed
    then show ?after by (auto simp: authorises_def list_ex_iff)
  qed
qed

lemma host_keys_live: "\<exists>f. host_keys L g p = live_keys f"
proof -
  have "live_keys \<lparr>f_lines = [], f_nofinal = False\<rparr> = []" by (simp add: live_keys_def map_filter_simps)
  moreover have "host_keys L g p = [] \<or> (\<exists>c a. host_keys L g p = live_keys (parse_file L c))"
    by (auto simp: host_keys_def split: option.splits node.splits)
  ultimately show ?thesis by metis
qed


section \<open>An example\<close>

definition kind_host :: host where
  "kind_host = calm_host (\<lambda>_. False) (\<lambda>_. False)"

lemma kind_host_ok: "steady kind_host" "fresh_names kind_host"
  using calm_host_ok(2) [of "\<lambda>_. False" "\<lambda>_. False"]
  by (simp_all add: kind_host_def steady_def calm_host_def)

lemma kind_prepared: "prepared_ok kind_host False"
  by code_simp

lemma kind_run:
  "case run_tx kind_host (add_config False) (add_start False) of (r, t) \<Rightarrow>
     (case r of Inl _ \<Rightarrow> False | Inr res \<Rightarrow> r_outcome res = Committed)"
  by code_simp

lemma kind_gone: "w_guard (snd (run_tx kind_host (add_config False) (add_start False))) = Gone"
  by code_simp

lemma kind_lib:
  "sshlib_ok (c_lib (add_config False))" "keys_read (c_lib (add_config False)) (c_ops (add_config False))"
  "c_lib (add_config False) = toy_lib"
proof -
  show lib: "c_lib (add_config False) = toy_lib" by (simp add: add_config_def)
  then show "sshlib_ok (c_lib (add_config False))" by (simp add: toy_lib_ok)
  have "parse_authkey toy_lib ''k1'' = Some (PubKey ''k'' ''1'', [], [])" by code_simp
  then show "keys_read (c_lib (add_config False)) (c_ops (add_config False))"
    unfolding lib by (auto simp: keys_read_def add_config_def)
qed

lemma kind_facts:
  obtains t1 res t uf where
    "prepare kind_host (add_config False) (add_start False) = (Inr (), t1)" "placed t1"
    "run_tx kind_host (add_config False) (add_start False) = (Inr res, t)" "r_outcome res = Committed"
    "x_files t1 ''al'' = Some uf" "u_path uf = ''/h/k''" "\<not> u_orig_exists uf" "u_orig uf = []"
proof -
  note p = prepared_facts [OF kind_prepared kind_host_ok(2)]
  obtain res t where run: "run_tx kind_host (add_config False) (add_start False) = (Inr res, t)" "r_outcome res = Committed"
    using kind_run by (auto split: prod.splits sum.splits)
  obtain uf where uf: "x_files (snd (prepare kind_host (add_config False) (add_start False))) ''al'' = Some uf"
    "u_path uf = ''/h/k''" "\<not> u_orig_exists uf"
    using p(3) by blast
  from committed_run(2) [OF kind_host_ok calm_world_closed add_config_ok(2) p(1,2) run uf(1)] uf(3)
  have "u_orig uf = []" by simp
  with p(1,2) run uf that show thesis by blast
qed




end
