(* ===== verification/Tx_Again.thy ===== *)
theory Tx_Again
  imports Tx_Outcome
begin

text \<open>
  Applying a request a second time: every key to add is there, none to remove is left, so no
  file is edited.
\<close>

section \<open>Nothing to do\<close>

lemma find_keys_blob: "find_keys L (by_key k) f \<noteq> [] \<longleftrightarrow> (\<exists>k' \<in> set (live_keys f). key_blob k' = key_blob k)"
  by (auto simp: find_keys_live matches_by_key filter_empty_conv)

lemma add_ops_present:
  "(\<And>p k. p \<in> set ops \<Longrightarrow> op_key p = Some k \<Longrightarrow> \<exists>k' \<in> set (live_keys f). key_blob k' = key_blob k) \<Longrightarrow>
    add_ops L ops f = (f, False)"
proof (induction ops)
  case (Cons p ps)
  have "add_ops L ps f = (f, False)" by (rule Cons.IH) (use Cons.prems in auto)
  moreover have "add_key L k (op_comment p) (op_options p) f = (f, False)" if "op_key p = Some k" for k
  proof -
    have "find_keys L (by_key k) f \<noteq> []" unfolding find_keys_blob by (rule Cons.prems [OF list.set_intros(1) that])
    then show ?thesis by (simp add: add_key_def)
  qed
  ultimately show ?case by (simp split: option.split)
qed simp

lemma remove_keys_absent:
  assumes "\<And>k. k \<in> set (live_keys f) \<Longrightarrow> \<not> matches_key L m k"
  shows "snd (remove_keys L m f) = []"
proof -
  have no: "\<not> matches L m l" if "l \<in> set (f_lines f)" for l
    using assms that by (force simp: matches_def live_keys_def map_filter_def split: option.splits)
  have "split_matched L m ls = (ls, [])" if "\<And>l. l \<in> set ls \<Longrightarrow> \<not> matches L m l" for ls
    using that by (induction ls) auto
  then show ?thesis using no by (simp add: remove_keys_def)
qed

lemma remove_ops_absent:
  "(\<And>p k. p \<in> set ops \<Longrightarrow> k \<in> set (live_keys f) \<Longrightarrow> \<not> matches_key L (op_matcher p) k) \<Longrightarrow>
    \<not> snd (snd (remove_ops L ops f))"
proof (induction ops arbitrary: f)
  case (Cons p ps)
  obtain g r where g: "remove_keys L (op_matcher p) f = (g, r)" by fastforce
  have r: "r = []" using remove_keys_absent [of f L "op_matcher p"] Cons.prems g by simp
  have "live_keys g = filter (\<lambda>k. \<not> matches_key L (op_matcher p) k) (live_keys f)"
    using live_keys_remove [of L "op_matcher p" f] g by simp
  then have "\<not> snd (snd (remove_ops L ps g))" by (intro Cons.IH Cons.prems) simp_all
  with g r show ?case by (simp add: Let_def split_beta)
qed simp

lemma add_op_asked: "p \<in> set ops \<Longrightarrow> op_key p = Some k \<Longrightarrow> (k, op_comment p, op_options p) \<in> set (asked ops)"
  by (induction ops) (auto split: option.splits)

text \<open>An edit after the same edit changes nothing, if no key is both added and removed.\<close>

lemma edit_again:
  assumes lib: "sshlib_ok (c_lib c)" "keys_read (c_lib c) (c_ops c)"
    and valid: "\<And>a r. a \<in> set (c_ops c) \<Longrightarrow> r \<in> set (c_ops c) \<Longrightarrow> op_action a = AddKey \<Longrightarrow> \<not> cancels (c_lib c) a r"
  shows "\<not> snd (edit c u (render_file (fst (edit c u content))))"
proof -
  let ?L = "c_lib c" and ?f = "parse_file (c_lib c) content" and ?adds = "ops_by AddKey (c_ops c) u" and ?rems = "ops_by RemoveKey (c_ops c) u"
  let ?g = "parse_file ?L (render_file (fst (edit c u content)))"
  have ks: "live_keys ?g = spec_keys c u (live_keys ?f)"
    using live_keys_parse_render [OF good_lines_edit [OF lib]] by (simp add: live_keys_edit)
  have "\<exists>k' \<in> set (live_keys ?g). key_blob k' = key_blob k" if p: "p \<in> set ?adds" "op_key p = Some k" for p k
  proof -
    have "\<not> matches_key ?L (op_matcher r) k" if "r \<in> set ?rems" for r
      using valid [of p r] p that by (auto simp: ops_by_def cancels_def)
    moreover have "same_key k k" by (simp add: same_key_def)
    ultimately have "authorises (spec_keys c u (live_keys ?f)) k"
      using add_op_asked [OF p] unfolding authorises_spec by fastforce
    then show ?thesis by (auto simp: ks authorises_def list_ex_iff same_key_def)
  qed
  then have "add_ops ?L ?adds ?g = (?g, False)" by (rule add_ops_present)
  moreover have "\<not> snd (snd (remove_ops ?L ?rems ?g))"
    by (rule remove_ops_absent) (auto simp: ks spec_keys_def)
  ultimately show ?thesis by (simp add: edit_def add_edit_def remove_edit_def split_beta)
qed

lemma reject_none:
  "reject_self_cancelling L ops as = None \<Longrightarrow> a \<in> set as \<Longrightarrow> op_action a = AddKey \<Longrightarrow> r \<in> set ops \<Longrightarrow> \<not> cancels L a r"
proof (induction as)
  case (Cons b bs)
  show ?case
  proof (cases "a = b \<and> op_key a \<noteq> None")
    case True
    with Cons.prems have "find (cancels L b) ops = None" by (auto split: option.splits)
    with True Cons.prems(4) show ?thesis by (simp add: find_None_iff)
  next
    case False
    from Cons.prems(1) have "reject_self_cancelling L ops bs = None" by (auto split: option.splits if_splits)
    with False Cons show ?thesis by (cases "op_key a") (auto simp: cancels_def)
  qed
qed simp

lemma validated_no_cancel:
  assumes "validate (with_defaults c) = None" and "a \<in> set (c_ops c)" and "r \<in> set (c_ops c)" and "op_action a = AddKey"
  shows "\<not> cancels (c_lib c) a r"
proof -
  have "reject_self_cancelling (c_lib c) (c_ops c) (c_ops c) = None"
    using assms(1) by (simp add: validate_def with_defaults_def split: if_splits option.splits)
  from reject_none [OF this assms(2,4,3)] show ?thesis .
qed

section \<open>A second run\<close>

text \<open>
  C23: applying a request twice is applying it once: when a file holds what the edit of a request
  made of any content, a committed run of the same request leaves it byte for byte as it is.
\<close>

theorem reapply_unchanged:
  assumes h: "steady h" "fresh_names h" and w: "closed (w_fs w)" "absolute (base_dir c)"
    and prep: "prepare h c (start_txn w c) = (Inr (), t1)" "placed t1"
    and run: "run_tx h c (start_txn w c) = (Inr res, t)" "r_outcome res = Committed"
    and uf: "x_files t1 u = Some uf" and lib: "sshlib_ok (c_lib c)" "keys_read (c_lib c) (c_ops c)"
    and was: "u_orig uf = render_file (fst (edit c u old))"
  shows "file_is (w_fs w) (u_path uf) (u_orig_exists uf) (u_orig uf) \<and>
    file_is (w_fs (settle h e t)) (u_path uf) (u_orig_exists uf) (u_orig uf)"
proof
  show "file_is (w_fs w) (u_path uf) (u_orig_exists uf) (u_orig uf)"
    by (rule original_start [OF h(2) w prep uf])
  have valid: "validate (with_defaults c) = None" by (rule run_valid [OF run(1)]) (use run(2) in auto)
  have "\<not> snd (edit c u (u_orig uf))"
    unfolding was by (rule edit_again [OF lib validated_no_cancel [OF valid]])
  with committed_run(1) [OF h w prep run uf] edit_unchanged [of c u "u_orig uf"]
  show "file_is (w_fs (settle h e t)) (u_path uf) (u_orig_exists uf) (u_orig uf)" by simp
qed

section \<open>An example\<close>

definition done_world :: world where
  "done_world = calm_world\<lparr>w_fs := (w_fs calm_world)
     (''/h/k'' \<mapsto> Reg (''k1'' @ [NL]) \<lparr>a_uid = ''7'', a_gid = ''7'', a_mode = ''600''\<rparr>)\<rparr>"

lemma done_prepared:
  "case prepare kind_host (add_config False) (start_txn done_world (add_config False)) of (r, t) \<Rightarrow>
     (case r of Inl _ \<Rightarrow> False | Inr _ \<Rightarrow> True) \<and> x_txdir t = ''/t/sshkeytx-1.AAAAAAAA'' \<and> x_order t = [''al''] \<and>
     map_option (\<lambda>uf. (u_user uf, u_path uf, u_orig_exists uf, u_orig uf)) (x_files t ''al'') = Some (''al'', ''/h/k'', True, ''k1'' @ [NL])"
  by code_simp

lemma done_run:
  "case run_tx kind_host (add_config False) (start_txn done_world (add_config False)) of (r, t) \<Rightarrow>
     (case r of Inl _ \<Rightarrow> False | Inr res \<Rightarrow> r_outcome res = Committed) \<and> w_guard t = Gone"
  by code_simp

lemma done_world_closed: "closed (w_fs done_world)"
proof -
  have "dir_of ''/h/k'' = ''/h''" "w_fs calm_world ''/h'' \<noteq> None" by code_simp+
  with calm_world_closed show ?thesis by (auto simp: closed_def done_world_def)
qed

theorem reapply_unchanged_witness:
  "\<exists>a. w_fs (snd (run_tx kind_host (add_config False) (start_txn done_world (add_config False)))) ''/h/k'' = Some (Reg (''k1'' @ [NL]) a)"
proof -
  obtain t1 uf where prep: "prepare kind_host (add_config False) (start_txn done_world (add_config False)) = (Inr (), t1)"
    and uf: "x_files t1 ''al'' = Some uf" "u_path uf = ''/h/k''" "u_user uf = ''al''" "u_orig_exists uf" "u_orig uf = ''k1'' @ [NL]"
    and d: "x_txdir t1 = ''/t/sshkeytx-1.AAAAAAAA''" "x_order t1 = [''al'']"
    using done_prepared by (auto split: prod.splits sum.splits)
  obtain res t where run: "run_tx kind_host (add_config False) (start_txn done_world (add_config False)) = (Inr res, t)"
    "r_outcome res = Committed" and gone: "w_guard t = Gone"
    using done_run by (auto split: prod.splits sum.splits)
  have "render_file (fst (edit (add_config False) ''al'' [])) = ''k1'' @ [NL]" by code_simp
  then have was: "u_orig uf = render_file (fst (edit (add_config False) ''al'' []))" by (simp only: uf(5))
  note placed = al_placed(1) [OF kind_host_ok(2) done_world_closed prep uf(1-3) d]
  from reapply_unchanged [OF kind_host_ok done_world_closed add_config_ok(2) prep placed run uf(1) kind_lib(1,2) was, of calm_env] gone
  show ?thesis by (simp add: settle_def run(1) uf(2,4,5))
qed

end
