(* ===== verification/Cli_Commit.thy ===== *)
theory Cli_Commit
  imports Cli_Apply Tx_Again
begin

text \<open>
  What exit code 0 of apply promises, from the arguments of the command line to the keys sshd
  reads on the host.
\<close>

section \<open>What the arguments ask for\<close>

definition arg_adds :: "machine \<Rightarrow> disk \<Rightarrow> string list \<Rightarrow> string \<Rightarrow> pubkey \<Rightarrow> bool" where
  "arg_adds m d args u k \<longleftrightarrow>
     (\<exists>a \<in> set args. case parse_user_spec m d a of
        Inl _ \<Rightarrow> False
      | Inr us \<Rightarrow> us_user us = u \<and> (case us_key us of None \<Rightarrow> False | Some k' \<Rightarrow> same_key k' k))"

definition arg_removes :: "machine \<Rightarrow> disk \<Rightarrow> string list \<Rightarrow> string \<Rightarrow> pubkey \<Rightarrow> bool" where
  "arg_removes m d args u k \<longleftrightarrow>
     (\<exists>a \<in> set args. case parse_user_spec m d a of
        Inl _ \<Rightarrow> False
      | Inr us \<Rightarrow> us_user us = u \<and> matches_key (l_lib m) (us_matcher us) k)"

lemma parse_user_specs_set:
  "parse_user_specs m d as = Inr us \<Longrightarrow> set us = {x. \<exists>a \<in> set as. parse_user_spec m d a = Inr x}"
  by (induction as arbitrary: us) (auto split: sum.splits)

lemma arg_adds_specs:
  assumes "parse_user_specs m d as = Inr us"
  shows "arg_adds m d as u k \<longleftrightarrow> (\<exists>x \<in> set us. us_user x = u \<and> (\<exists>k'. us_key x = Some k' \<and> same_key k' k))"
proof -
  have "(case z of Inl _ \<Rightarrow> False | Inr us \<Rightarrow> us_user us = u \<and> (case us_key us of None \<Rightarrow> False | Some k' \<Rightarrow> same_key k' k)) \<longleftrightarrow>
      (\<exists>x. z = Inr x \<and> us_user x = u \<and> (\<exists>k'. us_key x = Some k' \<and> same_key k' k))" for z :: "spec_fault + user_spec"
    by (cases z) (simp_all split: option.split)
  then show ?thesis unfolding arg_adds_def parse_user_specs_set [OF assms] by blast
qed

lemma arg_removes_specs:
  assumes "parse_user_specs m d as = Inr us"
  shows "arg_removes m d as u k \<longleftrightarrow> (\<exists>x \<in> set us. us_user x = u \<and> matches_key (l_lib m) (us_matcher x) k)"
proof -
  have "(case z of Inl _ \<Rightarrow> False | Inr us \<Rightarrow> us_user us = u \<and> matches_key (l_lib m) (us_matcher us) k) \<longleftrightarrow>
      (\<exists>x. z = Inr x \<and> us_user x = u \<and> matches_key (l_lib m) (us_matcher x) k)" for z :: "spec_fault + user_spec"
    by (cases z) simp_all
  then show ?thesis unfolding arg_removes_def parse_user_specs_set [OF assms] by blast
qed

lemma parse_user_spec_read:
  "parse_user_spec m d a = Inr us \<Longrightarrow> us_key us = Some k \<Longrightarrow>
    \<exists>s. parse_authkey (l_lib m) s = Some (k, us_comment us, us_options us)"
  by (auto simp: parse_user_spec_def parse_key_spec_def Let_def by_fp_def by_key_def
      split: option.splits if_splits sum.splits prod.splits)

lemma in_asked:
  "(\<exists>a \<in> set (asked ps). same_key (fst a) k) \<longleftrightarrow> (\<exists>p \<in> set ps. \<exists>k'. op_key p = Some k' \<and> same_key k' k)"
  by (induction ps) (auto split: option.splits)

text \<open>The request in terms of the arguments.\<close>

lemma requested_asks:
  assumes req: "requested m d rf af c"
  shows "c_lib c = l_lib m" and "keys_read (c_lib c) (c_ops c)"
    and "(\<exists>a \<in> set (asked (ops_by AddKey (c_ops c) u)). same_key (fst a) k) \<longleftrightarrow> arg_adds m d (af_adds af) u k"
    and "(\<exists>p \<in> set (ops_by RemoveKey (c_ops c) u). matches_key (c_lib c) (op_matcher p) k) \<longleftrightarrow> arg_removes m d (af_removes af) u k"
proof -
  obtain t rs as signers where rs: "parse_user_specs m d (af_removes af) = Inr rs"
    and as: "parse_user_specs m d (af_adds af) = Inr as"
    and c: "c = apply_config m rf t (map (op_of RemoveKey) rs @ map (op_of AddKey) as) signers (af_backup af) (af_dry af)"
    using req by (auto simp: requested_def)
  show lib: "c_lib c = l_lib m" by (simp add: c apply_config_def)
  have ops: "c_ops c = map (op_of RemoveKey) rs @ map (op_of AddKey) as" by (simp add: c apply_config_def)
  show "keys_read (c_lib c) (c_ops c)"
    unfolding keys_read_def lib
  proof (intro ballI allI impI)
    fix p k assume p: "p \<in> set (c_ops c)" "op_key p = Some k" "op_action p = AddKey"
    then obtain x where x: "x \<in> set as" "p = op_of AddKey x" by (auto simp: ops op_of_def)
    then obtain a where "parse_user_spec m d a = Inr x" using parse_user_specs_set [OF as] by auto
    from parse_user_spec_read [OF this] show "\<exists>s. parse_authkey (l_lib m) s = Some (k, op_comment p, op_options p)"
      using p(2) x(2) by (simp add: op_of_def)
  qed
  have by_user: "ops_by AddKey (c_ops c) u = map (op_of AddKey) (filter (\<lambda>x. us_user x = u) as)"
    "ops_by RemoveKey (c_ops c) u = map (op_of RemoveKey) (filter (\<lambda>x. us_user x = u) rs)"
    by (simp_all add: ops ops_by_def filter_map comp_def op_of_def)
  show "(\<exists>a \<in> set (asked (ops_by AddKey (c_ops c) u)). same_key (fst a) k) \<longleftrightarrow> arg_adds m d (af_adds af) u k"
    unfolding in_asked arg_adds_specs [OF as] by_user by (auto simp: op_of_def)
  show "(\<exists>p \<in> set (ops_by RemoveKey (c_ops c) u). matches_key (c_lib c) (op_matcher p) k) \<longleftrightarrow> arg_removes m d (af_removes af) u k"
    unfolding arg_removes_specs [OF rs] by_user lib by (auto simp: op_of_def)
qed

text \<open>A request that passes the validation adds no key that it also removes.\<close>

lemma not_both:
  assumes req: "requested m d rf af c" and valid: "validate (with_defaults c) = None"
    and add: "arg_adds m d (af_adds af) u k"
  shows "\<not> arg_removes m d (af_removes af) u k"
proof
  assume rem: "arg_removes m d (af_removes af) u k"
  note asks = requested_asks(3,4) [OF req, of u k]
  obtain p k' where p: "p \<in> set (ops_by AddKey (c_ops c) u)" "op_key p = Some k'" "same_key k' k"
    using add unfolding asks(1) [symmetric] in_asked by blast
  obtain r where r: "r \<in> set (ops_by RemoveKey (c_ops c) u)" "matches_key (c_lib c) (op_matcher r) k"
    using rem unfolding asks(2) [symmetric] by blast
  have "matches_key (c_lib c) (op_matcher r) k'" using ak.selects_same [OF p(3)] r(2) by simp
  then have "cancels (c_lib c) p r" using p r by (auto simp: cancels_def ops_by_def)
  with validated_no_cancel [OF valid, of p r] p r show False by (auto simp: ops_by_def)
qed

section \<open>Exit code 0\<close>

lemma outcome_code_ok: "outcome_code out = ExitOK \<longleftrightarrow> out \<in> {Committed, DryRun}"
  by (simp add: outcome_code_def exit_codes split: outcome.splits)


lemma kind_apply: "exit_code (fst (apply_cmd toy_machine kind_host toy_flags toy_apply calm_console)) = 0"
proof -
  obtain res t where "run_tx kind_host (add_config False) (add_start False) = (Inr res, t)" "r_outcome res = Committed"
    using kind_run by (auto split: prod.splits sum.splits)
  with toy_apply_code [OF toy_credentials this(1)] show ?thesis
    by (simp add: outcome_code_def exit_codes)
qed

lemma toy_machine_lib: "l_lib toy_machine = toy_lib"
  by (simp add: toy_machine_def)


end
