(* ===== verification/Tx_Frame.thy ===== *)
theory Tx_Frame
  imports Tx_Commit Tx_Guarantees
begin

text \<open>
  What a transaction leaves alone.  From the end of the loading on, whatever fails, the host
  differs from the start only in the transaction directory, in the files of the transaction, in
  temporary files next to them and in directories made above them.
\<close>

section \<open>Contained\<close>

text \<open>Still under the invariant, or past the point where the trap has anything to do.\<close>

definition contained :: "frame \<Rightarrow> txn \<Rightarrow> bool" where
  "contained F t \<longleftrightarrow> framed F t \<and> ((\<exists>D es torn. inv F D es torn t) \<or> sealed t)"

lemma contained_safe: "safe F og t \<Longrightarrow> contained F t"
  unfolding safe_def contained_def using invD(7) by blast

lemma contained_ready: "ready F og ops S t \<Longrightarrow> contained F t"
  by (rule contained_safe) (rule ready_safe)

lemma inv_contained: "inv F D es torn t \<Longrightarrow> contained F t"
  unfolding contained_def using invD(7) by blast

lemma containedE:
  assumes "contained F t"
  obtains D es torn where "inv F D es torn t" | "framed F t" "sealed t"
  using assms by (auto simp: contained_def)

lemma contained_upd [simp]:
  "contained F (t\<lparr>w_tick := n\<rparr>) = contained F t" "contained F (t\<lparr>x_meta := m\<rparr>) = contained F t"
  by (simp_all add: contained_def sealed_def)

lemma contained_tick_fs [simp]:
  "contained F (t\<lparr>w_tick := n, w_fs := f\<rparr>) = contained F (t\<lparr>w_fs := f\<rparr>)"
  by (simp add: contained_def sealed_def framed_def targets_def)

lemma contained_gone: "contained F t \<Longrightarrow> contained F (t\<lparr>w_guard := Gone\<rparr>)"
  by (erule containedE) (blast intro: inv_contained inv_gone, simp add: contained_def sealed_def)

lemma contained_fire:
  assumes "contained F t" and "no_faults e" and "w_guard t = Armed d"
  shows "contained F (fire h e d t)"
proof (rule containedE [OF assms(1)])
  fix D es torn assume "inv F D es torn t"
  from inv_contained [OF inv_fire [OF this assms(2,3)]] show ?thesis .
next
  assume "sealed t"
  from fire_sealed [OF this assms(3)] contained_gone [OF assms(1)] show ?thesis by simp
qed

lemma contained_guard: "sound_trap h \<Longrightarrow> contained F t \<Longrightarrow> contained F (guard_step h t)"
  by (auto simp: guard_step_def sound_trap_def contained_fire contained_gone split: guard_state.splits guard_event.splits)

lemma contained_settle: "contained F t \<Longrightarrow> no_faults e \<Longrightarrow> contained F (settle h e t)"
  by (auto simp: settle_def contained_fire split: guard_state.splits)

lemma contained_close: "sound_trap h \<Longrightarrow> keeps (contained F) (close_graceful h)"
proof (rule keepsI)
  fix t assume h: "sound_trap h" and "contained F t"
  then have "contained F (t\<lparr>w_tick := Suc (w_tick t)\<rparr>)" by simp
  then show "contained F (snd (close_graceful h t))"
    using h by (auto simp: close_graceful_def Let_def sound_trap_def contained_fire split: guard_state.splits close_event.splits)
qed

lemma contained_finish: "keeps (contained F) (finish h c out err)"
  by (rule keepsI) (simp add: finish_def finish_meta_def comp_defs)

text \<open>Removing the whole directory of the transaction takes the manifest with it.\<close>

lemma contained_removed:
  assumes "contained F t"
  shows "contained F (t\<lparr>w_fs := (\<lambda>q. if below (x_txdir t) q then None else w_fs t q)\<rparr>)" (is "contained F ?t")
proof -
  have "below (x_txdir t) (x_txdir t @ ''/manifest'')" by (simp add: below_def has_prefix_iff)
  then have "sealed ?t" if "\<forall>d. w_guard t = Armed d \<longrightarrow> d = x_txdir t"
    using that by (simp add: sealed_def)
  moreover have "\<forall>d. w_guard t = Armed d \<longrightarrow> d = x_txdir t"
    using assms invD(2) by (fastforce simp: contained_def sealed_def)
  moreover have "framed F ?t"
    using assms by (intro framed_fs) (simp_all add: contained_def)
  ultimately show ?thesis by (simp add: contained_def)
qed

lemma rm_rf_contained:
  assumes h: "sound_trap h"
  shows "keeps (\<lambda>t. contained F t \<and> x_txdir t = d) (rm_rf h d)"
proof -
  let ?P = "\<lambda>t. contained F t \<and> x_txdir t = d"
  have "keeps ?P (run h (rmrf_cmd d) [])"
    unfolding run_def
  proof (rule hoare_run_with [where P' = ?P])
    fix t :: txn and r f out
    assume t: "?P t"
      and "script_of h (rmrf_cmd d) [] (w_tick t) (h_fault h (w_tick t)) (w_fs t) = (r, f, out)"
    then obtain e s' where e: "exec e (rmrf_cmd d) (script_start h (w_fs t) []) = (r, s')" and f: "f = s_fs s'"
      by (auto simp: script_of_exec)
    have "f = w_fs t \<or> f = (\<lambda>q. if below d q then None else w_fs t q)"
      using exec_rmrf_all [OF e] by (simp add: f cong: if_cong)
    then have "contained F (t\<lparr>w_fs := f\<rparr>)"
      using t contained_removed [of F t] by auto
    then have "contained F (t\<lparr>w_tick := n, w_fs := f\<rparr>)" for n
      by simp
    with t show "case answer (h_fault h (w_tick t)) r out of
        Inl err \<Rightarrow> ?P (t\<lparr>w_tick := Suc (w_tick t), w_fs := f\<rparr>)
      | Inr x \<Rightarrow> ?P (t\<lparr>w_tick := Suc (w_tick t), w_fs := f\<rparr>)"
      by (auto split: sum.splits)
  qed (auto intro: contained_guard [OF h] simp: more_fields [OF more_guard_step])
  then show ?thesis unfolding rm_rf_def by (rule hoare_ignore) (rule hoare_ret)
qed

section \<open>The ends of a run\<close>

lemma close_then_remove:
  assumes h: "sound_trap h"
  shows "hoare (contained F) (attempt (close_graceful h)) (\<lambda>_. contained F) E"
    and "hoare (\<lambda>t. contained F t \<and> x_txdir t = d) (attempt (close_graceful h)) (\<lambda>_ t. contained F t \<and> x_txdir t = d) E"
    and "hoare (\<lambda>t. contained F t \<and> x_txdir t = d) (attempt (rm_rf h d)) (\<lambda>_. contained F) E"
proof -
  show "hoare (contained F) (attempt (close_graceful h)) (\<lambda>_. contained F) E"
    by (rule hoare_attempt, rule contained_close [OF h])
  have "keeps (\<lambda>t. contained F t \<and> x_txdir t = d) (close_graceful h)"
    by (rule keepsI) (use keepsD [OF contained_close [OF h]] more_fields [OF more_close] in blast)
  then show "hoare (\<lambda>t. contained F t \<and> x_txdir t = d) (attempt (close_graceful h)) (\<lambda>_ t. contained F t \<and> x_txdir t = d) E"
    by (rule hoare_attempt)
  show "hoare (\<lambda>t. contained F t \<and> x_txdir t = d) (attempt (rm_rf h d)) (\<lambda>_. contained F) E"
    by (rule hoare_attempt, rule hoare_weaken [OF rm_rf_contained [OF h]]) auto
qed

lemma commit_contained:
  assumes h: "sound_trap h"
  shows "hoare (safe F og) (commit h c) (\<lambda>_. contained F) (\<lambda>_. safe F og)"
proof -
  have get: "hoare (safe F og) (gets x_txdir) (\<lambda>d t. safe F og t \<and> x_txdir t = d) (\<lambda>_. safe F og)"
    by (rule hoare_gets) simp
  have marker: "hoare (\<lambda>t. safe F og t \<and> x_txdir t = d) (wrap_err MarkerFailed (write_file h (d @ ''/commit'') m))
      (\<lambda>_ t. contained F t \<and> x_txdir t = d) (\<lambda>_. safe F og)" for d m
  proof (rule hoare_at)
    fix t assume t: "safe F og t \<and> x_txdir t = d"
    have "hoare (\<lambda>s. safe F og s \<and> x_txdir s = x_txdir t) (wrap_err MarkerFailed (write_file h (d @ ''/commit'') m))
        (\<lambda>_ s. contained F s \<and> x_txdir s = d) (\<lambda>_. safe F og)"
      by (rule hoare_wrap_err, rule hoare_weaken [OF write_marker_safe [OF h, of _ t F og]])
        (use t in \<open>auto intro: contained_safe\<close>)
    then show "hoare (\<lambda>s. s = t) (wrap_err MarkerFailed (write_file h (d @ ''/commit'') m))
        (\<lambda>_ s. contained F s \<and> x_txdir s = d) (\<lambda>_. safe F og)"
      by (rule hoare_weaken) (use t in auto)
  qed
  show ?thesis
    unfolding commit_def
    by (rule hoare_ignore [OF safe_keeps(2) [OF h]], rule hoare_ignore [OF safe_keeps(3) [OF h]],
        rule hoare_andThen [OF get], rule hoare_ignore [OF marker],
        rule hoare_ignore [OF close_then_remove(2) [OF h]], rule hoare_ignore [OF close_then_remove(3) [OF h] hoare_ret])
qed

lemma phases_contained:
  assumes h: "sound_trap h" "fresh_names h" "no_signals h" and ops: "disjoint_ops ops"
  shows "hoare (ready F og ops UNIV) (phases h c) (\<lambda>_. contained F) (\<lambda>_. safe F og)"
  unfolding phases_def
  by (rule hoare_ignore [OF phase_add_advances [OF h, unfolded advances_def]],
      rule hoare_ignore [OF phase_verify_added_advances [OF h(1), unfolded advances_def]],
      rule hoare_ignore [OF phase_remove_safe [OF h disjoint_opsD [OF ops]]],
      rule hoare_ignore [OF safe_keeps(1) [OF h(1)]], rule commit_contained [OF h(1)])

lemma release_contained:
  assumes h: "sound_trap h"
  shows "keeps (contained F) (connect_cleanup h)"
proof -
  have close: "hoare (contained F) (if g then andThen (attempt (close_graceful h)) (\<lambda>_. ret ()) else ret ())
      (\<lambda>_. contained F) E" for g E
    by (intro hoare_if hoare_ignore [OF close_then_remove(1) [OF h]] hoare_ret)
  have rm: "hoare (\<lambda>t. contained F t \<and> x_txdir t = d)
      (if d \<noteq> [] then andThen (attempt (rm_rf h d)) (\<lambda>_. ret ()) else ret ()) (\<lambda>_. contained F) E" for d E
    by (intro hoare_if hoare_ignore [OF close_then_remove(3) [OF h]] hoare_ret) (auto intro: hoare_ret)
  show ?thesis
    unfolding connect_cleanup_def
    by (rule hoare_ignore [where R = "contained F"], rule hoare_gets, assumption, rule hoare_ignore [OF close],
        rule hoare_andThen [OF _ rm], rule hoare_gets) simp
qed

section \<open>Containment of a run\<close>

lemma run_contained:
  assumes h: "sound_trap h" "fresh_names h" "no_signals h" and ops: "disjoint_ops (c_ops c)"
    and w: "closed (w_fs w)" "absolute (base_dir c)"
    and prep: "prepare h c (start_txn w c) = (Inr (), t1)" and pl: "placed t1"
    and run: "run_tx h c (start_txn w c) = (Inr res, t)" and valid: "validate (with_defaults c) = None"
  shows "contained (frame_of (w_fs w) t1) t"
proof -
  let ?c = "with_defaults c" and ?F = "frame_of (w_fs w) t1"
  obtain g d where g: "staging (tx_prefix (base_dir c) (c_txid c)) (w_fs w) g d"
    "loading g d (c_ops c) (user_names (c_ops c)) t1"
    by (rule prepared_loading [OF h(2) w prep])
  have "distinct (user_names (c_ops c))" by (simp add: user_names_def)
  then have ready: "ready ?F (origins t1) (c_ops c) UNIV t1"
    by (rule loading_ready [OF g _ w(1) pl])
  have con: "conclude h ?c t1 = (Inr res, t)" using run_tx_prepared [OF valid prep] run by simp
  have finished: "contained ?F t" if "contained ?F s" "finish h ?c out err s = (r, t)" for s out err r
    using keepsD [OF contained_finish that(1), of h ?c out err] that(2) by simp
  show ?thesis
  proof (cases "c_dry ?c")
    case True
    have "keeps (contained ?F) (andThen (connect_cleanup h) (\<lambda>_. finish h ?c DryRun None))"
      by (intro keeps_andThen release_contained [OF h(1)] contained_finish)
    from keepsD [OF this contained_ready [OF ready]] con True show ?thesis
      by (simp add: conclude_def release_guard_no_changes_def)
  next
    case False
    obtain z s where ph: "phases h ?c t1 = (z, s)" by fastforce
    show ?thesis
    proof (cases z)
      case (Inl err)
      have s: "safe ?F (origins t1) s"
        by (rule hoare_Inl [OF phases_safe [OF h ops] ready ph [unfolded Inl]])
      have "abort h ?c err s = (Inr res, t)"
        using con False ph Inl by (simp add: conclude_def comp_defs)
      from hoare_Inr [OF abort_outcome [OF h(1,2)] s this] show ?thesis by (auto intro: contained_safe)
    next
      case (Inr x)
      have "contained ?F s" by (rule hoare_Inr [OF phases_contained [OF h ops] ready ph [unfolded Inr]])
      moreover have "finish h ?c Committed None s = (Inr res, t)"
        using con False ph Inr by (simp add: conclude_def comp_defs)
      ultimately show ?thesis by (rule finished)
    qed
  qed
qed



end
