(* ===== verification/Tx_Gaps.thy ===== *)
theory Tx_Gaps
  imports Tx_Outcome
begin

text \<open>
  Where the program reports an outcome that is not so: why the theorems on the outcomes need
  their hypotheses \<open>disjoint_ops\<close>, \<open>no_signals\<close> and \<open>steady\<close>.
\<close>

section \<open>A swap that fails after one that succeeded\<close>

lemma set_file_keeps_user: "set_file u uf t = (r, t') \<Longrightarrow> r = Inr () \<and> x_files t' u = Some uf"
  by (auto simp: set_file_def comp_defs)

text \<open>
  Whatever an earlier swap of the same file has written, one that fails with an exit status
  clears the mark, and the abort passes the file over: with an addition and a failing removal
  of one user, the run says aborted-reverted while the added key is still in the file.
\<close>

theorem failed_swap_forgets_earlier:
  assumes "swap h c u t = (Inl (SwapFailed p (ExitError n)), t')"
  shows "\<exists>vf. x_files t' u = Some vf \<and> \<not> u_dirty vf \<and> revert_files h c [u] failed t' = (Inr failed, t')"
proof -
  have "\<exists>vf. x_files t' u = Some vf \<and> \<not> u_dirty vf"
    using assms
    by (auto simp: swap_def with_file_def comp_defs is_exit_error_def dest!: set_file_keeps_user
        split: option.splits prod.splits sum.splits)
  then show ?thesis by (auto simp: with_file_def comp_defs)
qed

section \<open>A swap killed after its rename\<close>

text \<open>The outcome of a run, and what the file of the request holds in the end.\<close>

definition outcome_and_file :: "host \<Rightarrow> config \<Rightarrow> world \<Rightarrow> outcome option \<times> string option" where
  "outcome_and_file h c w =
     (case run_tx h c (start_txn w c) of
        (r, t) \<Rightarrow>
          (case r of Inl _ \<Rightarrow> None | Inr res \<Rightarrow> Some (r_outcome res),
           case w_fs t ''/h/k'' of Some (Reg content _) \<Rightarrow> Some content | _ \<Rightarrow> None))"

definition struck_host :: host where
  "struck_host = kind_host\<lparr>h_fault := (\<lambda>n.
     if n = 12 then calm_fault\<lparr>ft_cut := Some 3, ft_late := True, ft_signal := Some 9\<rparr> else calm_fault)\<rparr>"

text \<open>A status above 128 is taken for a swap that did nothing.\<close>

theorem killed_swap_keeps_addition:
  "outcome_and_file struck_host (add_config False) calm_world = (Some AbortedReverted, Some (''k1'' @ [NL]))"
  by code_simp

section \<open>The guard ends between the last health check and the marker\<close>

definition cut_host :: "nat \<Rightarrow> host" where
  "cut_host m = kind_host\<lparr>h_guard := (\<lambda>n. if n = m then Ends calm_env else Stays)\<rparr>"

text \<open>Its trap restores the file, and the run reports committed.\<close>

theorem committed_but_restored:
  "outcome_and_file (cut_host 17) (add_config False) calm_world = (Some Committed, None)"
  by code_simp

end
