(* ===== verification/Testsshd.thy ===== *)
theory Testsshd
  imports Tx_Outcome
begin

text \<open>
  Package \<^verbatim>\<open>internal/testsshd\<close> (testsshd.go): the server the integration tests run against.
  It reads the user's \<^verbatim>\<open>authorized_keys\<close> at every attempt; what it accepts is what the
  transaction's verify phases take for the truth.

  \<^verbatim>\<open>ssh.ParseAuthorizedKey\<close> on a whole file is the parameter \<open>next_key\<close>; the SSH server
  and the process it starts are parameters too.
\<close>

section \<open>The server\<close>

record server =
  sv_sandbox :: string
  sv_strict :: bool
  sv_deny :: "string \<Rightarrow> bool"
  sv_drop :: "(string \<Rightarrow> bool) option"

text \<open>\<^verbatim>\<open>Start\<close>, once the listener is there.\<close>

definition new_server :: "string \<Rightarrow> server" where
  "new_server sandbox =
     \<lparr>sv_sandbox = sandbox, sv_strict = True, sv_deny = (\<lambda>_. False), sv_drop = None\<rparr>"

definition keys_path :: "server \<Rightarrow> string \<Rightarrow> string" where
  "keys_path sv u = path_join [sv_sandbox sv, ''keys'', u, ''authorized_keys'']"

definition keys_template :: "server \<Rightarrow> string" where
  "keys_template sv = path_join [sv_sandbox sv, ''keys'', ''%u'', ''authorized_keys'']"

text \<open>\<^verbatim>\<open>WriteKeys\<close>: either of the two calls may fail; an existing file keeps its attributes.\<close>

definition keys_text :: "string list \<Rightarrow> string" where
  "keys_text ls = foldl (\<lambda>content l. content @ l @ [NL]) [] ls"

definition make_dirs :: "string \<Rightarrow> attrs \<Rightarrow> fs \<Rightarrow> fs" where
  "make_dirs d a f = (\<lambda>q. if q \<in> set (ancestors d) \<and> f q = None then Some (Dir (a\<lparr>a_mode := ''700''\<rparr>)) else f q)"

definition write_keys ::
  "server \<Rightarrow> attrs \<Rightarrow> bool \<Rightarrow> bool \<Rightarrow> string \<Rightarrow> string list \<Rightarrow> fs \<Rightarrow> bool \<times> fs" where
  "write_keys sv me no_dir no_file u ls f =
     (let p = keys_path sv u; g = make_dirs (dir_of p) me f in
      if no_dir then (False, f)
      else if no_file then (False, g)
      else (case resolve g p of
              None \<Rightarrow> (False, g)
            | Some q \<Rightarrow>
                (case g q of
                   Some (Reg _ a) \<Rightarrow> (True, g(q \<mapsto> Reg (keys_text ls) a))
                 | None \<Rightarrow>
                     if is_dir g (dir_of q) then (True, g(q \<mapsto> Reg (keys_text ls) (me\<lparr>a_mode := ''600''\<rparr>)))
                     else (False, g)
                 | _ \<Rightarrow> (False, g))))"

section \<open>The public key handler\<close>

text \<open>
  The loop over the file; \<open>None\<close> would mean that it never ends.
\<close>

partial_function (option) scan_keys ::
  "(string \<Rightarrow> (pubkey \<times> string) option) \<Rightarrow> pubkey \<Rightarrow> string \<Rightarrow> bool option" where
  [code]: "scan_keys next_key k rest =
     (if rest = [] then Some False
      else (case next_key rest of
              None \<Rightarrow> Some False
            | Some (ak, rest') \<Rightarrow> if key_blob ak = key_blob k then Some True else scan_keys next_key k rest'))"

definition public_key_handler ::
  "(string \<Rightarrow> (pubkey \<times> string) option) \<Rightarrow> server \<Rightarrow> fs \<Rightarrow> string \<Rightarrow> pubkey \<Rightarrow> bool option" where
  "public_key_handler next_key sv f u k =
     (if sv_deny sv u then Some False
      else (case node_at f (keys_path sv u) of
              None \<Rightarrow> Some False
            | Some nd \<Rightarrow>
                if sv_strict sv \<and> (case node_attrs nd of None \<Rightarrow> True | Some a \<Rightarrow> dir_writable_by_others (a_mode a))
                then Some False
                else (case nd of
                        Reg content _ \<Rightarrow> scan_keys next_key k content
                      | _ \<Rightarrow> Some False)))"

section \<open>A session\<close>

datatype wait_result = WaitOk | WaitExit int | WaitFailed

datatype session_end = ExitStatus int | NoStatus

definition session_reply :: "server \<Rightarrow> string \<Rightarrow> bool \<Rightarrow> bool \<Rightarrow> wait_result \<Rightarrow> session_end" where
  "session_reply sv raw piped started result =
     (if raw = [] then ExitStatus 1
      else if \<not> piped then ExitStatus 1
      else if \<not> started then ExitStatus 127
      else (let code = (case result of WaitOk \<Rightarrow> 0 | WaitExit n \<Rightarrow> n | WaitFailed \<Rightarrow> 1) in
            case sv_drop sv of
              None \<Rightarrow> ExitStatus code
            | Some drops \<Rightarrow> if drops raw then NoStatus else ExitStatus code))"

section \<open>What the handler accepts\<close>

text \<open>
  \<^verbatim>\<open>ParseAuthorizedKey\<close> returns the key of the first line that holds one, and what follows
  that line.
\<close>

fun first_key :: "sshlib \<Rightarrow> string list \<Rightarrow> (pubkey \<times> string) option" where
  "first_key L [] = None"
| "first_key L (l # ls) =
     (case parse_authkey L l of
        None \<Rightarrow> first_key L ls
      | Some (k, _) \<Rightarrow> Some (k, join [NL] ls))"

definition next_key_ok :: "sshlib \<Rightarrow> (string \<Rightarrow> (pubkey \<times> string) option) \<Rightarrow> bool" where
  "next_key_ok L next_key \<longleftrightarrow> (\<forall>s. next_key s = first_key L (split_on NL s))"

definition line_keys :: "sshlib \<Rightarrow> string list \<Rightarrow> pubkey list" where
  "line_keys L ls = List.map_filter (\<lambda>l. map_option fst (parse_authkey L l)) ls"

lemma line_keys_simps [simp]:
  "line_keys L [] = []"
  "line_keys L (l # ls) = (case parse_authkey L l of None \<Rightarrow> line_keys L ls | Some (k, _) \<Rightarrow> k # line_keys L ls)"
  by (auto simp: line_keys_def map_filter_simps split: option.splits)

lemma first_key_None: "first_key L ls = None \<longleftrightarrow> line_keys L ls = []"
  by (induction ls) (auto split: option.splits)

lemma first_key_Some:
  "first_key L ls = Some (k, rest) \<Longrightarrow> \<exists>ls'. rest = join [NL] ls' \<and> line_keys L ls = k # line_keys L ls' \<and>
     length ls' < length ls \<and> set ls' \<subseteq> set ls"
proof (induction ls)
  case (Cons l ls)
  show ?case
  proof (cases "parse_authkey L l")
    case None
    with Cons obtain ls' where "rest = join [NL] ls'" "line_keys L ls = k # line_keys L ls'" "length ls' < length ls"
      "set ls' \<subseteq> set ls" by auto
    with None show ?thesis by (intro exI [of _ ls']) auto
  next
    case (Some z)
    with Cons.prems show ?thesis by (intro exI [of _ ls]) (auto split: prod.splits)
  qed
qed simp

lemma parse_blank: "sshlib_ok L \<Longrightarrow> parse_authkey L [] = None"
  using sshlib_ok_blank [of L "[]"] by (cases "parse_authkey L []") auto

lemma scan_keys_lines:
  assumes L: "sshlib_ok L" "next_key_ok L next_key"
  shows "\<forall>l \<in> set ls. NL \<notin> set l \<Longrightarrow>
    scan_keys next_key k (join [NL] ls) = Some (authorises (line_keys L ls) k)"
proof (induction "length ls" arbitrary: ls rule: less_induct)
  case less
  show ?case
  proof (cases "join [NL] ls = []")
    case True
    then have "ls = [] \<or> ls = [[]]" by (cases ls; cases "tl ls") (auto simp: join_Cons split: if_splits)
    then have "line_keys L ls = []" using parse_blank [OF L(1)] by auto
    with True show ?thesis by (subst scan_keys.simps) (simp add: authorises_def)
  next
    case False
    then have "ls \<noteq> []" by auto
    then have next_ls: "next_key (join [NL] ls) = first_key L ls"
      using L(2) less.prems by (simp add: next_key_ok_def split_on_join)
    show ?thesis
    proof (cases "first_key L ls")
      case None
      with False next_ls first_key_None show ?thesis
        by (subst scan_keys.simps) (simp add: authorises_def)
    next
      case (Some z)
      then obtain ak rest where z: "first_key L ls = Some (ak, rest)" by (cases z) auto
      obtain ls' where ls': "rest = join [NL] ls'" "line_keys L ls = ak # line_keys L ls'" "length ls' < length ls" "set ls' \<subseteq> set ls"
        using first_key_Some [OF z] by blast
      have "scan_keys next_key k (join [NL] ls') = Some (authorises (line_keys L ls') k)"
        by (rule less.hyps [OF ls'(3)]) (use ls'(4) less.prems in blast)
      with False next_ls z ls'(1,2) show ?thesis
        by (subst scan_keys.simps) (simp add: authorises_def same_key_def)
    qed
  qed
qed

lemma scan_keys_content:
  assumes "sshlib_ok L" and "next_key_ok L next_key"
  shows "scan_keys next_key k content = Some (authorises (line_keys L (split_on NL content)) k)"
  using scan_keys_lines [OF assms, of "split_on NL content" k] by (auto simp: join_split_on dest: split_on_no_sep)

lemma line_key: "sshlib_ok L \<Longrightarrow> NL \<notin> set l \<Longrightarrow> l_key (parse_line L l) = map_option fst (parse_authkey L l)"
  using sshlib_ok_blank [of L l] by (auto simp: parse_line_def Let_def split: option.splits)

lemma live_keys_lines:
  assumes "sshlib_ok L"
  shows "live_keys (parse_file L content) = line_keys L (split_on NL content)"
proof -
  have lines: "List.map_filter l_key (map (parse_line L) ls) = line_keys L ls" if "\<forall>l \<in> set ls. NL \<notin> set l" for ls
    using that by (induction ls) (auto simp: map_filter_simps line_key [OF assms] split: option.splits)
  show ?thesis
  proof (cases "content = []")
    case True
    then show ?thesis using parse_blank [OF assms] by (simp add: live_keys_def parse_file_def map_filter_simps)
  next
    case False
    let ?ls = "split_on NL (trim_suffix content [NL])"
    have "live_keys (parse_file L content) = line_keys L ?ls"
      using False lines [of ?ls] by (auto simp: live_keys_def parse_file_def dest: split_on_no_sep)
    also have "\<dots> = line_keys L (split_on NL content)"
    proof (cases "has_suffix content [NL]")
      case True
      then obtain t where t: "content = t @ [NL]" by (auto simp: has_suffix_iff)
      have "split_on NL (t @ [NL]) = split_on NL t @ [[]]"
        by (induction t) (auto split: list.splits)
      moreover have "line_keys L (ls @ [[]]) = line_keys L ls" for ls
        using parse_blank [OF assms] by (induction ls) (auto split: option.splits)
      ultimately show ?thesis by (simp add: t)
    qed (simp add: trim_suffix_other)
    finally show ?thesis .
  qed
qed

text \<open>The file's mode is one the server reads.\<close>

definition mode_ok :: "server \<Rightarrow> fs \<Rightarrow> string \<Rightarrow> bool" where
  "mode_ok sv f p \<longleftrightarrow>
     (case f p of Some (Reg _ a) \<Rightarrow> \<not> (sv_strict sv \<and> dir_writable_by_others (a_mode a)) | _ \<Rightarrow> True)"

lemma handler_answers:
  assumes "sshlib_ok L" and "next_key_ok L next_key" and "\<not> is_link f (keys_path sv u)"
  shows "public_key_handler next_key sv f u k =
    Some (\<not> sv_deny sv u \<and> mode_ok sv f (keys_path sv u) \<and> authorises (host_keys L f (keys_path sv u)) k)"
  using assms(3) scan_keys_content [OF assms(1,2)] live_keys_lines [OF assms(1)]
  by (auto simp: public_key_handler_def mode_ok_def node_at_no_link host_keys_def authorises_def node_attrs_def is_link_def
      split: option.splits node.splits)

text \<open>
  C39: on a file that is no symbolic link the handler always answers, and accepts exactly
  the key material the transaction reads in it, unless the user is denied or the mode is too open.
\<close>

theorem handler_exact:
  assumes "sshlib_ok L" and "next_key_ok L next_key" and "\<not> is_link f (keys_path sv u)"
  shows "public_key_handler next_key sv f u k =
    Some (\<not> sv_deny sv u \<and> mode_ok sv f (keys_path sv u) \<and> authorises (host_keys L f (keys_path sv u)) k)"
  by (rule handler_answers [OF assms])

section \<open>Probing the server\<close>

text \<open>
  What the SSH protocol library reports of a public key query to this server: a request for
  a signature exactly when the handler takes the key, an authentication failure otherwise.
\<close>

definition serves :: "(string \<Rightarrow> (pubkey \<times> string) option) \<Rightarrow> server \<Rightarrow> host \<Rightarrow> bool" where
  "serves next_key sv h \<longleftrightarrow>
     (\<forall>n f t k. case public_key_handler next_key sv f (tg_user t) k of
        None \<Rightarrow> True
      | Some True \<Rightarrow> d_asked (h_query h n f t k)
      | Some False \<Rightarrow> \<not> d_asked (h_query h n f t k) \<and> is_auth_failure (d_err (h_query h n f t k)))"

lemma retry_first: "m t = (Inr res, t') \<Longrightarrow> retry n m t = (Inr res, t')"
  by (cases n) (simp_all add: andThen_def attempt_def ret_def)

text \<open>
  C40: a probe of this server gives its verdict at the first connection, and the verdict is
  whether the user's file, as it is then, authorises the key.
\<close>

theorem probe_tells:
  assumes L: "sshlib_ok L" "next_key_ok L next_key" and h: "serves next_key sv h" "steady h"
    and link: "\<not> is_link (w_fs t) (keys_path sv u)"
  shows "\<exists>res. probe h c u k t = (Inr res, t\<lparr>w_tick := Suc (w_tick t)\<rparr>) \<and>
    (accepted res \<longleftrightarrow> \<not> sv_deny sv u \<and> mode_ok sv (w_fs t) (keys_path sv u) \<and>
       authorises (host_keys L (w_fs t) (keys_path sv u)) k)"
proof -
  let ?t = "with_user (c_target c) u" and ?d = "h_query h (w_tick t) (w_fs t) (with_user (c_target c) u) k"
  let ?ok = "\<not> sv_deny sv u \<and> mode_ok sv (w_fs t) (keys_path sv u) \<and> authorises (host_keys L (w_fs t) (keys_path sv u)) k"
  have "case public_key_handler next_key sv (w_fs t) (tg_user ?t) k of
      None \<Rightarrow> True | Some True \<Rightarrow> d_asked ?d | Some False \<Rightarrow> \<not> d_asked ?d \<and> is_auth_failure (d_err ?d)"
    using h(1) unfolding serves_def by blast
  then have d: "if ?ok then d_asked ?d else \<not> d_asked ?d \<and> is_auth_failure (d_err ?d)"
    using handler_answers [OF L link] by (simp add: with_user_def split: bool.splits if_splits)
  then obtain res where "probe_key ?t ?d = Inr res" "accepted res \<longleftrightarrow> ?ok"
    by (cases "d_err ?d") (auto simp: probe_key_def is_auth_failure_def split: if_splits)
  then have "dial h probe_key (h_query h) ?t k t = (Inr res, t\<lparr>w_tick := Suc (w_tick t)\<rparr>)" "accepted res \<longleftrightarrow> ?ok"
    using h(2) by (simp_all add: dial_def Let_def)
  then show ?thesis
    unfolding probe_def probe_verdict_def using retry_first by blast
qed

section \<open>An example\<close>

definition toy_next :: "string \<Rightarrow> (pubkey \<times> string) option" where
  "toy_next s = first_key toy_lib (split_on NL s)"

definition toy_server :: server where
  "toy_server = new_server ''/s''"

definition served_host :: host where
  "served_host = kind_host\<lparr>h_query := (\<lambda>n f t k.
     if public_key_handler toy_next toy_server f (tg_user t) k = Some True
     then \<lparr>d_asked = True, d_err = Some ''aborted''\<rparr>
     else \<lparr>d_asked = False, d_err = Some ''unable to authenticate''\<rparr>)\<rparr>"

definition served_fs :: fs where
  "served_fs = snd (write_keys toy_server \<lparr>a_uid = ''7'', a_gid = ''7'', a_mode = []\<rparr> False False ''al'' [''k1'', ''junk''] Map.empty)"

lemma served_facts: "next_key_ok toy_lib toy_next" "serves toy_next toy_server served_host" "steady served_host"
proof -
  show "next_key_ok toy_lib toy_next" by (simp add: next_key_ok_def toy_next_def)
  have fail: "is_auth_failure (Some ''unable to authenticate'')" by code_simp
  then show "serves toy_next toy_server served_host"
    by (auto simp: serves_def served_host_def split: option.splits bool.splits)
  show "steady served_host" using kind_host_ok(1) by (simp add: served_host_def steady_def)
qed

lemma served_file: "served_fs (keys_path toy_server ''al'') = Some (Reg (''k1'' @ [NL] @ ''junk'' @ [NL]) \<lparr>a_uid = ''7'', a_gid = ''7'', a_mode = ''600''\<rparr>)"
  by code_simp

lemma served_ok:
  "\<not> is_link served_fs (keys_path toy_server ''al'')" "mode_ok toy_server served_fs (keys_path toy_server ''al'')"
  "host_keys toy_lib served_fs (keys_path toy_server ''al'') = [PubKey ''k'' ''1'']"
  "\<not> sv_deny toy_server ''al''"
proof -
  have keys: "live_keys (parse_file toy_lib (''k1'' @ [NL] @ ''junk'' @ [NL])) = [PubKey ''k'' ''1'']" by code_simp
  then show "host_keys toy_lib served_fs (keys_path toy_server ''al'') = [PubKey ''k'' ''1'']"
    by (simp only: host_keys_def served_file option.case node.case)
  have "\<not> dir_writable_by_others ''600''"
    by (simp add: dir_writable_by_others_def parse_octal32_def octal_val_def octal_digit_def char_in_def)
  then show "mode_ok toy_server served_fs (keys_path toy_server ''al'')" by (simp add: mode_ok_def served_file)
qed (simp_all add: is_link_def served_file, simp add: toy_server_def new_server_def)

theorem handler_exact_witness:
  "public_key_handler toy_next toy_server served_fs ''al'' (PubKey ''k'' ''1'') = Some True \<and>
   public_key_handler toy_next toy_server served_fs ''al'' (PubKey ''k'' ''0'') = Some False"
  using handler_exact [OF toy_lib_ok served_facts(1) served_ok(1)] served_ok by (simp add: authorises_def same_key_def)

theorem probe_tells_witness:
  "\<exists>res s. probe served_host (add_config False) ''al'' (PubKey ''k'' ''0'') ((add_start False)\<lparr>w_fs := served_fs\<rparr>) = (Inr res, s) \<and>
     \<not> accepted res"
proof -
  let ?t = "(add_start False)\<lparr>w_fs := served_fs\<rparr>"
  have fs: "w_fs ?t = served_fs" by simp
  obtain res where res: "probe served_host (add_config False) ''al'' (PubKey ''k'' ''0'') ?t = (Inr res, ?t\<lparr>w_tick := Suc (w_tick ?t)\<rparr>)"
    "accepted res \<longleftrightarrow> \<not> sv_deny toy_server ''al'' \<and> mode_ok toy_server (w_fs ?t) (keys_path toy_server ''al'') \<and>
       authorises (host_keys toy_lib (w_fs ?t) (keys_path toy_server ''al'')) (PubKey ''k'' ''0'')"
    using probe_tells [OF toy_lib_ok served_facts, of ?t "''al''" "add_config False" "PubKey ''k'' ''0''"] served_ok(1)
    unfolding fs by blast
  from res(2) have "\<not> accepted res" unfolding fs served_ok(3) by (simp add: authorises_def same_key_def)
  with res(1) show ?thesis by blast
qed

end
