(* ===== verification/Spec2Isabelle.thy ===== *)
theory Spec2Isabelle
  imports Authkeys Sshx_Facts Cli_Facts Cli_Commit Tx_Frame Tx_Gaps Testsshd
begin

text \<open>
  \<^bold>\<open>A verification development for sshkeytx.\<close>

  \<^bold>\<open>The program.\<close>  sshkeytx adds and removes keys in the \<^verbatim>\<open>authorized_keys\<close> files of the users of one
  remote host, as a transaction that must not lock anybody out.  The command line (src/internal/cli/cli.go)
  turns its arguments into a request.  The transaction (src/internal/tx/tx.go) connects, makes a
  directory of its own on the host, starts a guard session there (src/internal/tx/guard.go) whose trap
  restores every file that a manifest names unless a commit marker exists, and loads the files.  It then adds keys, proves
  by fresh connections that they work, removes keys, proves that those no longer work, and commits; on any error it
  aborts and reverts.  Everything on the host happens through generated \<^verbatim>\<open>sh\<close> scripts
  (src/internal/remote/remote.go) that are run through SSH (src/internal/sshx/sshx.go); the content of the files is edited by
  src/internal/authkeys/authkeys.go.  src/internal/testsshd/testsshd.go is the server of the integration tests.

  \<^bold>\<open>Theories and code.\<close>  The definitions keep the names of the Go functions and types they model, in Isabelle's spelling.
  \<^item> \<^verbatim>\<open>Go_Base\<close>, \<^verbatim>\<open>Go_Path\<close>: the prelude.  Go strings as byte lists, the functions of \<^verbatim>\<open>strings\<close> and
    \<^verbatim>\<open>path\<close> that the program calls, computations with errors as values (\<open>comp\<close>), and the rules
    \<open>hoare\<close>, \<open>keeps\<close> all proofs about them use.
  \<^item> \<^verbatim>\<open>Authkeys\<close>: authkeys.go.  A \<open>keyfile\<close> is a list of lines with the keys parsed from them; parse, render,
    find, add, remove, matchers and key specifications.
  \<^item> \<^verbatim>\<open>Posix_Sh\<close>, \<^verbatim>\<open>Sh_Exec\<close>: the shell.  A syntax for the scripts with the text each prints to, a file system
    (\<open>fs\<close>: a map from paths to files, directories and links), and the execution of a script, in which each
    access to the system may fail, be cut short or be the last one.
  \<^item> \<^verbatim>\<open>Write_Policy\<close>, \<^verbatim>\<open>Remote_Scripts\<close>: remote.go.  User names, modes, who may write where, and the scripts, each as
    its text and as a command, with a proof that the text is that of the command.
  \<^item> \<^verbatim>\<open>Guard_Trap\<close>, \<^verbatim>\<open>Guard_Session\<close>: the script of guard.go.  Its \<^verbatim>\<open>restore_all\<close> on the manifest; and the end of the
    session as an inductive step relation with end of input and signals as events.
  \<^item> \<^verbatim>\<open>Sshx\<close>: sshx.go.  Targets, host key policy, authentication methods, the verdict of a probe.
  \<^item> \<^verbatim>\<open>Remote_Ops\<close>: the client side of remote.go and guard.go, on a \<open>world\<close> (files of the host, local disk, time,
    guard session).  \<^verbatim>\<open>Tx_Model\<close>: tx.go, on the world extended by the fields of \<^verbatim>\<open>T\<close> (\<open>txn\<close>).
  \<^item> \<^verbatim>\<open>Cli\<close>: cli.go and main.go, on the world extended by the printed lines.  \<^verbatim>\<open>Testsshd\<close>: testsshd.go.

  What the host, the network and the disk do is a parameter of type \<open>host\<close>: for each remote command,
  whether the session opens, which accesses fail, whether the script is killed and where, and whether the answer
  arrives; between two commands, whether the guard session ends.  The SSH library's key parsing and fingerprints
  (\<open>sshlib\<close>), the local machine (\<open>machine\<close>), the hash and the transaction's id are parameters as well.  The
  hypotheses on them are documented behaviour: \<open>sshlib_ok\<close>
  (a printed key line is read back), \<open>fresh_names\<close> (\<^verbatim>\<open>mktemp\<close> makes names of letters and digits), \<open>sound_trap\<close> (the
  trap of an ended session is not itself disturbed), \<open>no_signals\<close> (no remote script is reported dead by a signal), \<open>steady\<close>
  (the guard session stays until it is closed).  Witnesses run the program on a concrete host (\<^verbatim>\<open>Toy_Host\<close>) that has them.

  \<^bold>\<open>What is shown.\<close>
  \<^item> \<^verbatim>\<open>Swap_Contract\<close>, \<^verbatim>\<open>Script_Contracts\<close>: what each script may change, whatever fails in it; the swap of a
    file is atomic.  \<^verbatim>\<open>Posix_Sh\<close>, \<^verbatim>\<open>Remote_Scripts\<close>: quoting is sound, and where it is missing.
  \<^item> \<^verbatim>\<open>Remote_Contracts\<close>: rules for the remote operations, and the interfaces \<open>watcher\<close>, \<open>observer\<close> and
    \<open>still\<close>: whoever keeps a fact under the passing of time and the end of the guard session keeps it under
    all operations that only read.
  \<^item> \<^verbatim>\<open>Tx_Load\<close>: before the first edit nothing outside the transaction's own directory changes, and what is recorded is what
    the host has.  \<^verbatim>\<open>Tx_Invariant\<close>, \<^verbatim>\<open>Tx_Steps\<close>, \<^verbatim>\<open>Tx_Ops\<close>: the invariant of a running transaction and that each
    writing operation keeps it, in success and in failure.  \<^verbatim>\<open>Tx_Rollback\<close>, \<^verbatim>\<open>Tx_Safety\<close>: the phases and the
    abort, and that a run always ends with a result.
  \<^item> \<^verbatim>\<open>Tx_Guarantees\<close>: what the outcomes of a failed run promise.  \<^verbatim>\<open>Tx_Frame\<close>: what a run never touches.
  \<^item> \<^verbatim>\<open>Tx_Current\<close>, \<^verbatim>\<open>Tx_Commit\<close>, \<^verbatim>\<open>Tx_Outcome\<close>: a committed run refines the edit of an abstract list of
    keys.  \<^verbatim>\<open>Tx_Again\<close>: applying a request a second time changes nothing.
  \<^item> \<^verbatim>\<open>Tx_Gaps\<close>: runs in which the reported outcome is wrong, one for each of \<open>disjoint_ops\<close>, \<open>no_signals\<close> and
    \<open>steady\<close>: the theorems on the outcomes need these hypotheses.
  \<^item> \<^verbatim>\<open>Cli_Restore\<close>, \<^verbatim>\<open>Cli_Facts\<close>, \<^verbatim>\<open>Cli_Apply\<close>, \<^verbatim>\<open>Cli_Commit\<close>: the exit codes of the commands, from the arguments to the
    files of the host.  \<^verbatim>\<open>Sshx_Facts\<close>, \<^verbatim>\<open>Write_Policy\<close>: the laws of their components.  \<^verbatim>\<open>Testsshd\<close>: the test
    server accepts exactly the keys the transaction takes a file to hold.

  \<^bold>\<open>Interfaces.\<close>  \<open>key_editor\<close> (in \<^verbatim>\<open>Authkeys\<close>, interpreted as \<open>ak\<close>) states what an editor of key files
  promises; the end states of a request follow from it and carry \<^verbatim>\<open>Tx_Outcome\<close>.  \<open>observer\<close> extends
  \<open>watcher\<close> and is interpreted on the predicates of every stage of a transaction (\<open>beginning\<close>, \<open>asides\<close>,
  \<open>connecting\<close>, \<open>readying\<close>, \<open>fixing\<close>, \<open>saving\<close>, \<open>listing\<close>, \<open>current\<close>, \<open>standing\<close>, \<open>noting\<close>); \<open>recorder\<close> extends \<open>observer\<close> to the loading
  (\<open>filing\<close>, \<open>parsing\<close>); \<open>still\<close> is interpreted for the loading (\<open>looking\<close>) and for the commands without a
  guard (\<open>fixed\<close>), \<open>watcher\<close> for those as well (\<open>viewing\<close>).

  \<^bold>\<open>Bounds.\<close>  A path is followed through at most 40 symbolic links, as the kernel does; no theorem depends
  on the number.  A probe dials at most three times, as the code does.  The loops of the program are
  structural recursions, but for two over the rest of a string, with their termination proofs, and the
  scan of the test server, which is partial and shown to return.

  \<^bold>\<open>Not modelled.\<close>  Log lines, time stamps and the wording of messages.  Timeouts as such: a command whose answer
  is lost has ended before the next one starts, so a command that is given up and takes effect later is outside the
  model.  \<^verbatim>\<open>rm -rf\<close> and \<^verbatim>\<open>mkdir -p\<close> happen completely or not at all.  Other writers on the host during a
  run.  The JSON form of meta.json and the modes of the local copies.  The parsing of flags by cobra.  The SSH
  protocol, \<^verbatim>\<open>Dial\<close> and the signer that asks without signing: their results are the parameters
  \<open>h_query\<close> and \<open>h_auth\<close>.  The listener and the copying of input and output in the test server.  \<^verbatim>\<open>Dirname\<close> and the other utilities are
  the POSIX ones.
\<close>

end
